(* ===== verification/Py_Prelude.thy ===== *)
theory Py_Prelude
  imports Main "HOL-Library.Sublist"
begin

text \<open>
  Shared ground of the development: the fragment of Python that the services use.

  \<^item> Exceptions are values: a function that can raise returns \<open>py_error + 'a\<close>, \<open>Inl\<close> for
    the exception, and \<open>rbind\<close> sequences such calls.
  \<^item> A Python \<open>str\<close> is a \<open>string\<close>, one \<open>char\<close> per code point.  The model ranges over
    the code points U+0000 to U+00FF (Latin-1), on which the predicates and methods below agree
    with Python's (\<open>isdigit\<close> holds of the superscripts U+00B2, U+00B3, U+00B9 as it does there,
    while \<open>int()\<close> and the regular expression \<open>\d\<close> accept ASCII digits only).  Two letters,
    U+00B5 and U+00FF, have an upper case outside Latin-1; \<open>py_upper\<close> keeps them as they are,
    and both the letter and its Python upper case are alphabetic, no digit and not in A-Z.
  \<^item> A Python \<open>int\<close> is an \<open>int\<close> (or a \<open>nat\<close> where it cannot be negative), decimal
    text is \<open>str_nat\<close> and \<open>int_of_digits\<close>.
\<close>

section \<open>Collections of rewrite rules\<close>

named_theorems char_simps \<open>character classes, unfolded on a concrete character\<close>
named_theorems eval_simps \<open>definitions a witness unfolds to evaluate a concrete call\<close>
named_theorems res_simps \<open>how results and exceptions propagate\<close>

section \<open>Exceptions as values\<close>

datatype py_error =
    ValueError | KeyError | TypeError | AttributeError | IndexError | OverflowError
  | RuntimeError string | FileNotFoundError | OSError | InvalidOperation | DecimalOverflow | DatabaseError

type_synonym 'a res = "py_error + 'a"

definition rbind :: "'e + 'a \<Rightarrow> ('a \<Rightarrow> 'e + 'b) \<Rightarrow> 'e + 'b" where
  "rbind m f = (case m of Inl e \<Rightarrow> Inl e | Inr x \<Rightarrow> f x)"

lemma rbind_Inl [simp, res_simps]: "rbind (Inl e) f = Inl e"
  by (simp add: rbind_def)

lemma rbind_Inr [simp, res_simps]: "rbind (Inr x) f = f x"
  by (simp add: rbind_def)

lemma rbind_eq_Inr_iff [res_simps]:
  "rbind m f = Inr y \<longleftrightarrow> (\<exists>x. m = Inr x \<and> f x = Inr y)"
  by (cases m) simp_all

lemma rbind_eq_Inl_iff [res_simps]:
  "rbind m f = Inl e \<longleftrightarrow> m = Inl e \<or> (\<exists>x. m = Inr x \<and> f x = Inl e)"
  by (cases m) auto

lemma rbind_cong [fundef_cong]:
  "m = n \<Longrightarrow> (\<And>x. n = Inr x \<Longrightarrow> f x = g x) \<Longrightarrow> rbind m f = rbind n g"
  by (cases n) simp_all

text \<open>A comprehension whose body can raise: the first exception ends it.\<close>

fun rmap :: "('a \<Rightarrow> 'e + 'b) \<Rightarrow> 'a list \<Rightarrow> 'e + 'b list" where
  "rmap f [] = Inr []"
| "rmap f (x # xs) = rbind (f x) (\<lambda>y. rbind (rmap f xs) (\<lambda>ys. Inr (y # ys)))"

lemma rmap_cong [fundef_cong]:
  "xs = ys \<Longrightarrow> (\<And>x. x \<in> set ys \<Longrightarrow> f x = g x) \<Longrightarrow> rmap f xs = rmap g ys"
  by (induction ys arbitrary: xs) auto

lemma rmap_eq_Inr_iff:
  "rmap f xs = Inr ys \<longleftrightarrow> list_all2 (\<lambda>x y. f x = Inr y) xs ys"
proof (induction xs arbitrary: ys)
  case Nil
  then show ?case by auto
next
  case (Cons x xs)
  then show ?case by (cases ys) (auto simp: rbind_eq_Inr_iff)
qed

section \<open>Remainders\<close>

lemma int_mod_numeral: "int n mod numeral k = int (n mod numeral k)"
  by (simp add: zmod_int)

lemma int_mod_eq_1: "int n mod numeral k = 1 \<longleftrightarrow> n mod numeral k = 1"
  by (simp only: int_mod_numeral of_nat_eq_1_iff)

section \<open>Characters\<close>

abbreviation code :: "char \<Rightarrow> nat" where
  "code c \<equiv> of_char c"

definition is_space :: "char \<Rightarrow> bool" where
  "is_space c \<longleftrightarrow> 9 \<le> code c \<and> code c \<le> 13 \<or> 28 \<le> code c \<and> code c \<le> 32 \<or> code c = 133 \<or> code c = 160"

definition is_decimal :: "char \<Rightarrow> bool" where
  "is_decimal c \<longleftrightarrow> 48 \<le> code c \<and> code c \<le> 57"

definition is_digit :: "char \<Rightarrow> bool" where
  "is_digit c \<longleftrightarrow> is_decimal c \<or> code c = 178 \<or> code c = 179 \<or> code c = 185"

definition is_upper_az :: "char \<Rightarrow> bool" where
  "is_upper_az c \<longleftrightarrow> 65 \<le> code c \<and> code c \<le> 90"

definition is_lower_az :: "char \<Rightarrow> bool" where
  "is_lower_az c \<longleftrightarrow> 97 \<le> code c \<and> code c \<le> 122"

definition is_alpha :: "char \<Rightarrow> bool" where
  "is_alpha c \<longleftrightarrow> is_upper_az c \<or> is_lower_az c \<or> code c = 170 \<or> code c = 181 \<or> code c = 186
     \<or> 192 \<le> code c \<and> code c \<noteq> 215 \<and> code c \<noteq> 247"

definition is_alnum :: "char \<Rightarrow> bool" where
  "is_alnum c \<longleftrightarrow> is_alpha c \<or> is_digit c \<or> 188 \<le> code c \<and> code c \<le> 190"

definition lower_char :: "char \<Rightarrow> char" where
  "lower_char c =
     (if is_upper_az c \<or> 192 \<le> code c \<and> code c \<le> 222 \<and> code c \<noteq> 215
      then char_of (code c + 32) else c)"

definition upper_char :: "char \<Rightarrow> string" where
  "upper_char c =
     (if code c = 223 then ''SS''
      else if is_lower_az c \<or> 224 \<le> code c \<and> code c \<le> 254 \<and> code c \<noteq> 247
      then [char_of (code c - 32)] else [c])"

lemmas char_class_defs [char_simps, eval_simps] =
  is_space_def is_decimal_def is_digit_def is_upper_az_def is_lower_az_def is_alpha_def is_alnum_def

lemmas case_change_defs [eval_simps] = lower_char_def upper_char_def

lemma char_of_eq_code [eval_simps]:
  "(char_of (n :: nat) = c) \<longleftrightarrow> n mod 256 = code c"
  by (metis char_of_mod_256 char_of_char of_char_of)

lemma eq_char_of_code [eval_simps]:
  "(c = char_of (n :: nat)) \<longleftrightarrow> n mod 256 = code c"
  using char_of_eq_code by metis

lemma decimal_is_digit [simp]: "is_decimal c \<Longrightarrow> is_digit c"
  by (simp add: is_digit_def)

lemma digit_not_space: "is_digit c \<Longrightarrow> \<not> is_space c"
  by (auto simp: char_simps)

lemma alpha_not_digit: "is_alpha c \<Longrightarrow> \<not> is_digit c"
  by (auto simp: char_simps)

lemma upper_az_is_alpha [simp]: "is_upper_az c \<Longrightarrow> is_alpha c"
  by (simp add: is_alpha_def)

lemma alpha_not_space: "is_alpha c \<Longrightarrow> \<not> is_space c"
  by (auto simp: char_simps)

lemma upper_char_fixed: "is_decimal c \<or> is_upper_az c \<Longrightarrow> upper_char c = [c]"
  by (auto simp: upper_char_def char_simps)

section \<open>Strings\<close>

definition py_strip :: "string \<Rightarrow> string" where
  "py_strip s = rev (dropWhile is_space (rev (dropWhile is_space s)))"

function py_split :: "string \<Rightarrow> string list" where
  "py_split s =
     (case dropWhile is_space s of
        [] \<Rightarrow> []
      | c # cs \<Rightarrow> takeWhile (\<lambda>x. \<not> is_space x) (c # cs)
                  # py_split (dropWhile (\<lambda>x. \<not> is_space x) (c # cs)))"
  by pat_completeness auto
termination
proof (relation "measure length")
  fix s c cs
  assume h: "dropWhile is_space s = c # cs"
  then have "\<not> is_space c" using hd_dropWhile [of is_space s] by simp
  then have "length (dropWhile (\<lambda>x. \<not> is_space x) (c # cs)) < length (c # cs)"
    by (simp add: le_imp_less_Suc length_dropWhile_le)
  also have "length (c # cs) \<le> length s"
    using h length_dropWhile_le [of is_space s] by simp
  finally show "(dropWhile (\<lambda>x. \<not> is_space x) (c # cs), s) \<in> measure length" by simp
qed simp

definition py_lower :: "string \<Rightarrow> string" where
  "py_lower s = map lower_char s"

definition py_upper :: "string \<Rightarrow> string" where
  "py_upper s = concat (map upper_char s)"

definition all_chars :: "(char \<Rightarrow> bool) \<Rightarrow> string \<Rightarrow> bool" where
  "all_chars p s \<longleftrightarrow> s \<noteq> [] \<and> list_all p s"

definition py_isdigit :: "string \<Rightarrow> bool" where
  "py_isdigit s = all_chars is_digit s"

definition py_isalpha :: "string \<Rightarrow> bool" where
  "py_isalpha s = all_chars is_alpha s"

definition py_isalnum :: "string \<Rightarrow> bool" where
  "py_isalnum s = all_chars is_alnum s"

text \<open>\<open>s.split(c)\<close> for a one-character separator.\<close>

fun split_on :: "char \<Rightarrow> string \<Rightarrow> string list" where
  "split_on c [] = [[]]"
| "split_on c (x # xs) =
     (if x = c then [] # split_on c xs
      else case split_on c xs of [] \<Rightarrow> [[x]] | y # ys \<Rightarrow> (x # y) # ys)"

text \<open>The operator \<open>sub in s\<close> on two strings.\<close>

fun contains :: "string \<Rightarrow> string \<Rightarrow> bool" where
  "contains p [] \<longleftrightarrow> p = []"
| "contains p (c # s) \<longleftrightarrow> prefix p (c # s) \<or> contains p s"

definition replace_char :: "char \<Rightarrow> char \<Rightarrow> string \<Rightarrow> string" where
  "replace_char a b s = map (\<lambda>c. if c = a then b else c) s"

text \<open>\<open>str.splitlines\<close>; a carriage return and a line feed are one break, and a break at the end starts no line.\<close>

definition is_line_break :: "char \<Rightarrow> bool" where
  "is_line_break c \<longleftrightarrow> code c \<in> {10, 11, 12, 13, 28, 29, 30, 133}"

fun splitlines :: "string \<Rightarrow> string list" where
  "splitlines [] = []"
| "splitlines (c # cs) =
     (if code c = 13 \<and> cs \<noteq> [] \<and> code (hd cs) = 10 then [] # splitlines (tl cs)
      else if is_line_break c then [] # splitlines cs
      else case splitlines cs of
             [] \<Rightarrow> [[c]]
           | l # ls \<Rightarrow> (c # l) # ls)"

lemmas str_defs [eval_simps] =
  py_strip_def py_split.simps py_lower_def py_upper_def all_chars_def py_isdigit_def py_isalpha_def
  py_isalnum_def replace_char_def

declare py_split.simps [simp del]

subsection \<open>Laws of the string functions\<close>

lemma dropWhile_id: "s = [] \<or> \<not> p (hd s) \<Longrightarrow> dropWhile p s = s"
  by (cases s) auto

lemma py_strip_id:
  "s = [] \<or> \<not> is_space (hd s) \<and> \<not> is_space (last s) \<Longrightarrow> py_strip s = s"
  by (auto simp: py_strip_def dropWhile_id hd_rev)

lemma py_strip_no_space: "list_all (\<lambda>c. \<not> is_space c) s \<Longrightarrow> py_strip s = s"
  by (rule py_strip_id) (auto simp: list_all_iff)

lemma py_strip_ends:
  assumes "py_strip s \<noteq> []"
  shows "\<not> is_space (hd (py_strip s))" and "\<not> is_space (last (py_strip s))"
proof -
  define t where "t = dropWhile is_space s"
  have strip: "py_strip s = rev (dropWhile is_space (rev t))"
    by (simp add: py_strip_def t_def)
  have ne: "dropWhile is_space (rev t) \<noteq> []" using assms strip by auto
  show "\<not> is_space (last (py_strip s))"
    using hd_dropWhile [OF ne] ne by (simp add: strip last_rev)
  have "t \<noteq> []" using ne by auto
  then have hd_t: "\<not> is_space (hd t)" unfolding t_def by (rule hd_dropWhile)
  obtain u where "rev t = u @ dropWhile is_space (rev t)"
    by (metis takeWhile_dropWhile_id)
  then have "t = py_strip s @ rev u" by (metis rev_append rev_rev_ident strip)
  with assms have "hd (py_strip s) = hd t" by (metis hd_append2)
  then show "\<not> is_space (hd (py_strip s))" using hd_t by simp
qed

lemma py_strip_idem [simp]: "py_strip (py_strip s) = py_strip s"
  using py_strip_ends by (metis py_strip_id)

lemma concat_py_split: "concat (py_split s) = filter (\<lambda>c. \<not> is_space c) s"
proof (induction s rule: py_split.induct)
  case (1 s)
  have skip: "filter (\<lambda>c. \<not> is_space c) s = filter (\<lambda>c. \<not> is_space c) (dropWhile is_space s)"
    by (induction s) auto
  show ?case
  proof (cases "dropWhile is_space s")
    case Nil
    then have "py_split s = []" by (subst py_split.simps) (simp only: list.case)
    then show ?thesis using skip Nil by simp
  next
    case (Cons c cs)
    let ?w = "takeWhile (\<lambda>x. \<not> is_space x) (c # cs)"
    have "filter (\<lambda>c. \<not> is_space c) (c # cs)
        = filter (\<lambda>c. \<not> is_space c) ?w
          @ filter (\<lambda>c. \<not> is_space c) (dropWhile (\<lambda>x. \<not> is_space x) (c # cs))"
      by (metis filter_append takeWhile_dropWhile_id)
    moreover have "filter (\<lambda>c. \<not> is_space c) ?w = ?w"
      by (rule filter_True) (auto dest: set_takeWhileD)
    ultimately show ?thesis
      using 1 [OF Cons] Cons skip by (simp add: py_split.simps [of s] del: takeWhile.simps dropWhile.simps)
  qed
qed

lemma py_upper_fixed:
  "list_all (\<lambda>c. is_decimal c \<or> is_upper_az c) s \<Longrightarrow> py_upper s = s"
  by (induction s) (auto simp: py_upper_def upper_char_fixed)

lemma split_on_nonempty [simp]: "split_on c s \<noteq> []"
  by (induction s) (auto split: list.splits)

lemma split_on_single: "c \<notin> set s \<Longrightarrow> split_on c s = [s]"
  by (induction s) auto

lemma split_on_append: "c \<notin> set s \<Longrightarrow> split_on c (s @ c # t) = s # split_on c t"
  by (induction s) auto

lemma contains_iff_sublist: "contains p s \<longleftrightarrow> sublist p s"
proof (induction s)
  case Nil
  then show ?case by simp
next
  case (Cons c s)
  then show ?case by (simp add: sublist_Cons_right)
qed

section \<open>Decimal text\<close>

definition digit_char :: "nat \<Rightarrow> char" where
  "digit_char n = ''0123456789'' ! n"

definition digit_val :: "char \<Rightarrow> nat" where
  "digit_val c = code c - 48"

fun str_nat :: "nat \<Rightarrow> string" where
  "str_nat n = (if n < 10 then [digit_char n] else str_nat (n div 10) @ [digit_char (n mod 10)])"

definition str_int :: "int \<Rightarrow> string" where
  "str_int i = (if i < 0 then CHR ''-'' # str_nat (nat (- i)) else str_nat (nat i))"

definition int_of_digits :: "string \<Rightarrow> nat" where
  "int_of_digits s = foldl (\<lambda>a c. 10 * a + digit_val c) 0 s"

definition zpad :: "nat \<Rightarrow> nat \<Rightarrow> string" where
  "zpad w n = replicate (w - length (str_nat n)) CHR ''0'' @ str_nat n"

text \<open>
  \<open>int(s)\<close> for a string: surrounding whitespace, an optional sign, then ASCII digits with single
  underscores between them, at most 4300 digits (\<open>sys.int_info.default_max_str_digits\<close>).
\<close>

fun int_scan :: "bool \<Rightarrow> nat \<Rightarrow> string \<Rightarrow> nat option" where
  "int_scan after_digit acc [] = (if after_digit then Some acc else None)"
| "int_scan after_digit acc (c # cs) =
     (if is_decimal c then int_scan True (10 * acc + digit_val c) cs
      else if c = CHR ''_'' \<and> after_digit then int_scan False acc cs
      else None)"

definition sign_and_body :: "string \<Rightarrow> bool \<times> string" where
  "sign_and_body t =
     (case t of
        [] \<Rightarrow> (False, [])
      | c # cs \<Rightarrow> if c = CHR ''-'' then (True, cs) else if c = CHR ''+'' then (False, cs) else (False, t))"

definition py_int :: "string \<Rightarrow> int res" where
  "py_int s =
     (let (neg, body) = sign_and_body (py_strip s)
      in if 4300 < length (filter is_decimal body) then Inl ValueError
         else case int_scan False 0 body of
                None \<Rightarrow> Inl ValueError
              | Some n \<Rightarrow> Inr (if neg then - int n else int n))"

lemmas decimal_defs [eval_simps] =
  digit_char_def digit_val_def str_int_def int_of_digits_def zpad_def sign_and_body_def py_int_def

declare str_nat.simps [simp del]

lemma replicate_numeral_step [eval_simps]:
  "replicate (numeral k) x = x # replicate (pred_numeral k) x"
  unfolding numeral_eq_Suc [of k] by (rule replicate_Suc)

lemma str_nat_small [simp]: "n < 10 \<Longrightarrow> str_nat n = [digit_char n]"
  by (subst str_nat.simps) simp

lemma str_nat_step: "10 \<le> n \<Longrightarrow> str_nat n = str_nat (n div 10) @ [digit_char (n mod 10)]"
  by (subst str_nat.simps) simp

lemma code_digit_char: "n < 10 \<Longrightarrow> code (digit_char n) = 48 + n"
proof -
  assume "n < 10"
  then have "n \<in> {0, 1, 2, 3, 4, 5, 6, 7, 8, 9}" by auto
  then show ?thesis by (auto simp: digit_char_def)
qed

lemma digit_val_digit_char [simp]: "n < 10 \<Longrightarrow> digit_val (digit_char n) = n"
  by (simp add: digit_val_def code_digit_char)

lemma is_decimal_digit_char [simp]: "n < 10 \<Longrightarrow> is_decimal (digit_char n)"
  by (simp add: is_decimal_def code_digit_char)

lemma digit_char_digit_val [simp]: "is_decimal c \<Longrightarrow> digit_char (digit_val c) = c"
proof -
  assume c: "is_decimal c"
  then have "code (digit_char (digit_val c)) = code c"
    by (subst code_digit_char) (auto simp: digit_val_def is_decimal_def)
  then show ?thesis by simp
qed

lemma digit_val_less_10: "is_decimal c \<Longrightarrow> digit_val c < 10"
  by (auto simp: digit_val_def is_decimal_def)

lemma digit_val_inject:
  "is_decimal c \<Longrightarrow> is_decimal d \<Longrightarrow> digit_val c = digit_val d \<longleftrightarrow> c = d"
  by (metis digit_char_digit_val)

lemma str_nat_decimal: "list_all is_decimal (str_nat n)"
proof (induction n rule: str_nat.induct)
  case (1 n)
  then show ?case by (cases "n < 10") (simp_all add: str_nat_step)
qed

lemma str_nat_nonempty [simp]: "str_nat n \<noteq> []"
  by (cases "n < 10") (simp_all add: str_nat_step)

lemma int_of_digits_Nil [simp]: "int_of_digits [] = 0"
  by (simp add: int_of_digits_def)

lemma int_of_digits_snoc [simp]: "int_of_digits (s @ [c]) = 10 * int_of_digits s + digit_val c"
  by (simp add: int_of_digits_def)

lemma int_of_digits_append:
  "int_of_digits (s @ t) = int_of_digits s * 10 ^ length t + int_of_digits t"
proof (induction t rule: rev_induct)
  case Nil
  then show ?case by simp
next
  case (snoc c t)
  then show ?case
    by (simp add: append_assoc [symmetric] algebra_simps del: append_assoc)
qed

lemma int_of_digits_Cons: "int_of_digits (c # s) = digit_val c * 10 ^ length s + int_of_digits s"
  using int_of_digits_append [of "[c]" s] by (simp add: int_of_digits_def)

lemma int_of_digits_str_nat [simp]: "int_of_digits (str_nat n) = n"
proof (induction n rule: str_nat.induct)
  case (1 n)
  show ?case
  proof (cases "n < 10")
    case True
    then show ?thesis by (simp add: int_of_digits_def)
  next
    case False
    with 1 show ?thesis by (simp add: str_nat_step)
  qed
qed

lemma int_of_digits_zeros [simp]: "int_of_digits (replicate k CHR ''0'' @ s) = int_of_digits s"
  by (induction k) (simp_all add: int_of_digits_Cons digit_val_def)

lemma int_of_digits_bound: "list_all is_decimal s \<Longrightarrow> int_of_digits s < 10 ^ length s"
proof (induction s rule: rev_induct)
  case Nil
  then show ?case by simp
next
  case (snoc c s)
  then have "int_of_digits s + 1 \<le> 10 ^ length s" and "digit_val c < 10"
    by (simp_all add: digit_val_less_10)
  then show ?case by simp
qed

lemma int_scan_decimal:
  "list_all is_decimal s \<Longrightarrow> (after_digit \<or> s \<noteq> []) \<Longrightarrow>
   int_scan after_digit acc s = Some (foldl (\<lambda>a c. 10 * a + digit_val c) acc s)"
proof (induction s arbitrary: after_digit acc)
  case Nil
  then show ?case by simp
next
  case (Cons c s)
  then show ?case by simp
qed

lemma decimal_not_sign: "is_decimal c \<Longrightarrow> c \<noteq> CHR ''-'' \<and> c \<noteq> CHR ''+''"
  by (auto simp: is_decimal_def)

lemma py_int_decimal:
  assumes "list_all is_decimal s" "s \<noteq> []" "length s \<le> 4300"
  shows "py_int s = Inr (int (int_of_digits s))"
proof -
  have "py_strip s = s"
    using assms(1) by (intro py_strip_no_space) (auto simp: list_all_iff digit_not_space)
  moreover have "sign_and_body s = (False, s)"
    using assms(1,2) by (cases s) (auto simp: sign_and_body_def decimal_not_sign)
  moreover have "filter is_decimal s = s"
    using assms(1) by (simp add: list_all_iff)
  ultimately show ?thesis
    using assms by (simp add: py_int_def int_scan_decimal int_of_digits_def)
qed

lemma int_scan_bad: "list_all is_digit s \<Longrightarrow> \<not> list_all is_decimal s \<Longrightarrow> int_scan b acc s = None"
proof (induction s arbitrary: b acc)
  case Nil
  then show ?case by simp
next
  case (Cons c s)
  moreover have "\<not> is_digit CHR ''_''" by (simp add: char_simps)
  ultimately show ?case by auto
qed

lemma py_int_bad_digit:
  assumes "list_all is_digit s" "\<not> list_all is_decimal s"
  shows "py_int s = Inl ValueError"
proof -
  have strip: "py_strip s = s"
    using assms(1) by (intro py_strip_no_space) (auto simp: list_all_iff digit_not_space)
  have "sign_and_body s = (False, s)"
  proof (cases s)
    case (Cons c cs)
    moreover have "\<not> is_digit CHR ''-''" "\<not> is_digit CHR ''+''" by (simp_all add: char_simps)
    ultimately show ?thesis using assms(1) by (auto simp: sign_and_body_def)
  qed (simp add: sign_and_body_def)
  then show ?thesis using strip int_scan_bad [OF assms] by (simp add: py_int_def)
qed

lemma py_int_too_long:
  assumes "list_all is_digit s" "list_all is_decimal s" "4300 < length s"
  shows "py_int s = Inl ValueError"
proof -
  have "py_strip s = s"
    using assms(1) by (intro py_strip_no_space) (auto simp: list_all_iff digit_not_space)
  moreover have "sign_and_body s = (False, s)"
    using assms(2) by (cases s) (auto simp: sign_and_body_def decimal_not_sign)
  moreover have "filter is_decimal s = s" using assms(2) by (simp add: list_all_iff)
  ultimately show ?thesis using assms(3) by (simp add: py_int_def)
qed

lemma hd_str_nat: "0 < n \<Longrightarrow> hd (str_nat n) \<noteq> CHR ''0''"
proof (induction n rule: str_nat.induct)
  case (1 n)
  show ?case
  proof (cases "n < 10")
    case True
    then show ?thesis using 1 code_digit_char [of n] by auto
  next
    case False
    then show ?thesis using 1 by (simp add: str_nat_step)
  qed
qed

lemma int_of_digits_less: "list_all is_decimal s \<Longrightarrow> int_of_digits s < 10 ^ length s"
proof (induction s rule: rev_induct)
  case (snoc c s)
  then show ?case using digit_val_less_10 [of c] by simp
qed simp

end
