(* ===== verification/Py_Decimal.thy ===== *)
theory Py_Decimal
  imports Py_Prelude Complex_Main
begin

text \<open>
  The finite values of \<open>decimal.Decimal\<close> under the default context (28 significant digits,
  \<open>ROUND_HALF_EVEN\<close>, exponents up to 999999, \<open>Overflow\<close> trapped): sign, coefficient and exponent, the
  arithmetic the services use, the conversion from and to text, and exactness lemmas for amounts that fit the
  precision.  NaN and the infinities are not modelled: the web framework's \<open>Decimal\<close> fields admit finite values
  only, and an operation that would give an infinity raises.
\<close>

section \<open>Values\<close>

datatype dec = Dec (dneg: bool) (dcoef: nat) (dexp: int)

definition pow10 :: "int \<Rightarrow> rat" where
  "pow10 e = (if 0 \<le> e then 10 ^ nat e else 1 / 10 ^ nat (- e))"

definition sgn_coef :: "dec \<Rightarrow> int" where
  "sgn_coef d = (if dneg d then - int (dcoef d) else int (dcoef d))"

definition dec_val :: "dec \<Rightarrow> rat" where
  "dec_val d = of_int (sgn_coef d) * pow10 (dexp d)"

definition dec_le :: "dec \<Rightarrow> dec \<Rightarrow> bool" where
  "dec_le a b \<longleftrightarrow> dec_val a \<le> dec_val b"

definition dec_lt :: "dec \<Rightarrow> dec \<Rightarrow> bool" where
  "dec_lt a b \<longleftrightarrow> dec_val a < dec_val b"

definition dec_eq :: "dec \<Rightarrow> dec \<Rightarrow> bool" where
  "dec_eq a b \<longleftrightarrow> dec_val a = dec_val b"

section \<open>Rounding to the context's precision\<close>

definition prec :: nat where
  "prec = 28"

definition num_digits :: "nat \<Rightarrow> nat" where
  "num_digits n = length (str_nat n)"

definition round_half_even :: "nat \<Rightarrow> nat \<Rightarrow> nat" where
  "round_half_even c m =
     (let q = c div m; r = c mod m
      in if 2 * r > m \<or> 2 * r = m \<and> odd q then q + 1 else q)"

definition EMAX :: int where
  "EMAX = 999999"

definition ETINY :: int where
  "ETINY = - 1000026"

text \<open>
  The end of every operation: at most 28 digits and no digit below the exponent \<open>Etiny\<close>; a result whose leading
  digit is above \<open>10 ^ Emax\<close> raises \<open>decimal.Overflow\<close>, and the exponent of a zero is clamped.
\<close>

definition dec_fix :: "dec \<Rightarrow> dec res" where
  "dec_fix d =
     (if dcoef d = 0 then Inr (Dec (dneg d) 0 (max ETINY (min EMAX (dexp d))))
      else let shift = nat (max (int (num_digits (dcoef d)) - int prec) (ETINY - dexp d));
               q = round_half_even (dcoef d) (10 ^ shift); e = dexp d + int shift;
               d' = (if prec < num_digits q then Dec (dneg d) (q div 10) (e + 1) else Dec (dneg d) q e)
           in if EMAX < dexp d' + int (num_digits (dcoef d')) - 1 then Inl DecimalOverflow else Inr d')"

section \<open>Arithmetic\<close>

definition align :: "dec \<Rightarrow> int \<Rightarrow> int" where
  "align d e = sgn_coef d * 10 ^ nat (dexp d - e)"

definition dec_add :: "dec \<Rightarrow> dec \<Rightarrow> dec res" where
  "dec_add a b =
     (let e = min (dexp a) (dexp b); s = align a e + align b e
      in dec_fix (Dec (s < 0 \<or> s = 0 \<and> dneg a \<and> dneg b) (nat \<bar>s\<bar>) e))"

definition dec_neg :: "dec \<Rightarrow> dec" where
  "dec_neg d = Dec (\<not> dneg d) (dcoef d) (dexp d)"

definition dec_sub :: "dec \<Rightarrow> dec \<Rightarrow> dec res" where
  "dec_sub a b = dec_add a (dec_neg b)"

definition dec_abs :: "dec \<Rightarrow> dec res" where
  "dec_abs d = dec_fix (Dec False (dcoef d) (dexp d))"

definition dec_mul :: "dec \<Rightarrow> dec \<Rightarrow> dec res" where
  "dec_mul a b = dec_fix (Dec (dneg a \<noteq> dneg b) (dcoef a * dcoef b) (dexp a + dexp b))"

text \<open>The quotient keeps trailing zeros down to the ideal exponent, as the loop of \<open>__truediv__\<close> does.\<close>

fun strip_zeros :: "nat \<Rightarrow> nat \<Rightarrow> int \<Rightarrow> nat \<times> int" where
  "strip_zeros 0 c e = (c, e)"
| "strip_zeros (Suc k) c e = (if c mod 10 = 0 then strip_zeros k (c div 10) (e + 1) else (c, e))"

definition dec_div :: "dec \<Rightarrow> dec \<Rightarrow> dec res" where
  "dec_div a b =
     (if dcoef b = 0 then Inl InvalidOperation
      else if dcoef a = 0 then dec_fix (Dec (dneg a \<noteq> dneg b) 0 (dexp a - dexp b))
      else let shift = int (num_digits (dcoef b)) - int (num_digits (dcoef a)) + int prec + 1;
               ideal = dexp a - dexp b;
               num = dcoef a * 10 ^ nat shift;
               den = dcoef b * 10 ^ nat (- shift);
               c = num div den
           in if num mod den \<noteq> 0
              then dec_fix (Dec (dneg a \<noteq> dneg b) (if c mod 5 = 0 then c + 1 else c) (ideal - shift))
              else let (c', e') = strip_zeros (nat shift) c (ideal - shift)
                   in dec_fix (Dec (dneg a \<noteq> dneg b) c' e'))"

section \<open>Text\<close>

definition signed_text :: "int \<Rightarrow> string" where
  "signed_text i = (if i < 0 then str_int i else CHR ''+'' # str_int i)"

definition dec_str :: "dec \<Rightarrow> string" where
  "dec_str d =
     (let ds = str_nat (dcoef d); n = int (length ds);
          left = dexp d + n;
          dot = (if dexp d \<le> 0 \<and> left > -6 then left else 1);
          body = (if dot \<le> 0 then ''0.'' @ replicate (nat (- dot)) CHR ''0'' @ ds
                  else if dot \<ge> n then ds @ replicate (nat (dot - n)) CHR ''0''
                  else take (nat dot) ds @ CHR ''.'' # drop (nat dot) ds);
          ex = (if left = dot then [] else CHR ''E'' # signed_text (left - dot))
      in (if dneg d then ''-'' else []) @ body @ ex)"

text \<open>
  \<open>Decimal(text)\<close>: surrounding whitespace and underscores are dropped, then an optional sign, digits
  with an optional fraction, an optional exponent.  Any other text is \<open>None\<close>
  (\<open>InvalidOperation\<close>).
\<close>

definition parse_exponent :: "string \<Rightarrow> int option" where
  "parse_exponent t =
     (case t of
        [] \<Rightarrow> Some 0
      | c # cs \<Rightarrow>
          if c = CHR ''e'' \<or> c = CHR ''E''
          then let (neg, ds) = sign_and_body cs
               in if ds \<noteq> [] \<and> list_all is_decimal ds
                  then Some (if neg then - int (int_of_digits ds) else int (int_of_digits ds))
                  else None
          else None)"

definition dec_of_string :: "string \<Rightarrow> dec option" where
  "dec_of_string s =
     (let t = filter (\<lambda>c. c \<noteq> CHR ''_'') (py_strip s);
          (neg, u) = sign_and_body t;
          ip = takeWhile is_decimal u; r = dropWhile is_decimal u;
          (fp, r') = (case r of
                        [] \<Rightarrow> ([], [])
                      | c # cs \<Rightarrow> if c = CHR ''.'' then (takeWhile is_decimal cs, dropWhile is_decimal cs)
                                    else ([], r))
      in if ip = [] \<and> fp = [] then None
         else case parse_exponent r' of
                None \<Rightarrow> None
              | Some e \<Rightarrow> Some (Dec neg (int_of_digits (ip @ fp)) (e - int (length fp))))"

lemmas dec_defs [eval_simps] =
  pow10_def sgn_coef_def dec_val_def dec_le_def dec_lt_def dec_eq_def prec_def num_digits_def
  round_half_even_def EMAX_def ETINY_def dec_fix_def align_def dec_add_def dec_neg_def dec_sub_def dec_abs_def
  dec_mul_def dec_div_def signed_text_def dec_str_def parse_exponent_def dec_of_string_def str_nat.simps

lemma strip_zeros_numeral [eval_simps]:
  "strip_zeros (numeral k) c e =
     (if c mod 10 = 0 then strip_zeros (pred_numeral k) (c div 10) (e + 1) else (c, e))"
  unfolding numeral_eq_Suc [of k] by (rule strip_zeros.simps)

section \<open>Exactness below the precision\<close>

lemma num_digits_le_iff: "0 < k \<Longrightarrow> num_digits n \<le> k \<longleftrightarrow> n < 10 ^ k"
proof (induction n arbitrary: k rule: str_nat.induct)
  case (1 n)
  show ?case
  proof (cases "n < 10")
    case True
    have "(10 :: nat) ^ 1 \<le> 10 ^ k" using 1 by (intro power_increasing) auto
    with True 1 show ?thesis by (simp add: num_digits_def)
  next
    case False
    then have step: "num_digits n = Suc (num_digits (n div 10))"
      by (simp add: num_digits_def str_nat_step)
    have pos: "0 < num_digits (n div 10)" by (simp add: num_digits_def)
    show ?thesis
    proof (cases "k = 1")
      case True
      with False step pos show ?thesis by simp
    next
      case k: False
      then obtain j where j: "k = Suc j" "0 < j" using 1(2) by (cases k) auto
      then have "num_digits (n div 10) \<le> j \<longleftrightarrow> n div 10 < 10 ^ j" using 1(1) False by blast
      also have "n div 10 < 10 ^ j \<longleftrightarrow> n < 10 ^ k"
        by (simp add: j div_less_iff_less_mult mult.commute)
      finally show ?thesis by (simp add: step j)
    qed
  qed
qed

lemma round_half_even_one [simp]: "round_half_even c 1 = c" "round_half_even c (Suc 0) = c"
  by (simp_all add: round_half_even_def)

text \<open>A value that fits is unchanged.\<close>

definition dec_fits :: "dec \<Rightarrow> bool" where
  "dec_fits d \<longleftrightarrow> dcoef d < 10 ^ 28 \<and> ETINY \<le> dexp d \<and> dexp d + 27 \<le> EMAX"

lemma dec_fix_id: "dec_fits d \<Longrightarrow> dec_fix d = Inr d"
  using num_digits_le_iff [of prec "dcoef d"]
  by (cases d) (auto simp: dec_fix_def dec_fits_def prec_def EMAX_def ETINY_def Let_def)

lemma pow10_add: "pow10 (a + b) = pow10 a * pow10 b"
proof -
  have *: "pow10 e = 10 powi e" for e
    by (simp add: pow10_def power_int_def inverse_eq_divide power_one_over)
  show ?thesis unfolding * by (rule power_int_add) simp
qed

lemma pow10_pos: "0 < pow10 e"
  by (simp add: pow10_def)

lemma pow10_nat: "0 \<le> e \<Longrightarrow> pow10 e = of_int (10 ^ nat e)"
  by (simp add: pow10_def)

lemma align_val: "e \<le> dexp d \<Longrightarrow> of_int (align d e) * pow10 e = dec_val d"
  using pow10_add [of "dexp d - e" e] pow10_nat [of "dexp d - e"]
  by (simp add: align_def dec_val_def)

lemma dec_val_signed:
  "dec_val (Dec (s < 0 \<or> s = 0 \<and> b) (nat \<bar>s\<bar>) e) = of_int s * pow10 e"
  by (auto simp: dec_val_def sgn_coef_def)

text \<open>Exponents of ordinary size.\<close>

definition exp_ok :: "int \<Rightarrow> bool" where
  "exp_ok e \<longleftrightarrow> \<bar>e\<bar> \<le> 1000"

lemma fits_exp_ok: "exp_ok e \<Longrightarrow> c < 10 ^ 28 \<Longrightarrow> dec_fits (Dec n c e)"
  by (auto simp: exp_ok_def dec_fits_def EMAX_def ETINY_def)

lemma dec_add_exact:
  assumes "\<bar>align a (min (dexp a) (dexp b)) + align b (min (dexp a) (dexp b))\<bar> < 10 ^ 28"
    and "exp_ok (dexp a)" "exp_ok (dexp b)"
  obtains d where "dec_add a b = Inr d" and "dec_val d = dec_val a + dec_val b" and "dexp d = min (dexp a) (dexp b)"
    and "sgn_coef d = align a (min (dexp a) (dexp b)) + align b (min (dexp a) (dexp b))"
proof -
  define e where "e = min (dexp a) (dexp b)"
  define s where "s = align a e + align b e"
  define d where "d = Dec (s < 0 \<or> s = 0 \<and> dneg a \<and> dneg b) (nat \<bar>s\<bar>) e"
  have "nat \<bar>s\<bar> < 10 ^ 28" "exp_ok e" using assms by (simp_all add: s_def e_def min_def)
  then have "dec_add a b = Inr d"
    by (simp add: dec_add_def Let_def e_def [symmetric] s_def [symmetric] dec_fix_id fits_exp_ok d_def)
  moreover have "dec_val d = of_int s * pow10 e" unfolding d_def by (rule dec_val_signed)
  moreover have "of_int s * pow10 e = dec_val a + dec_val b"
    using align_val [of e a] align_val [of e b] by (simp add: s_def e_def distrib_right)
  moreover have "sgn_coef d = s" by (auto simp: d_def sgn_coef_def)
  moreover have "dexp d = e" by (simp add: d_def)
  ultimately show ?thesis by (intro that) (simp_all only: s_def e_def)
qed

lemma dec_neg_props [simp]:
  "dec_val (dec_neg d) = - dec_val d" "dexp (dec_neg d) = dexp d" "align (dec_neg d) e = - align d e"
  by (auto simp: dec_neg_def dec_val_def sgn_coef_def align_def)

lemma dec_abs_exact:
  assumes "dcoef d < 10 ^ 28" "exp_ok (dexp d)"
  shows "\<exists>r. dec_abs d = Inr r \<and> dec_val r = \<bar>dec_val d\<bar>"
  using assms by (auto simp: dec_abs_def dec_fix_id fits_exp_ok dec_val_def sgn_coef_def abs_mult pow10_pos less_imp_le)

lemma dec_sub_abs_exact:
  assumes "\<bar>align a (min (dexp a) (dexp b)) - align b (min (dexp a) (dexp b))\<bar> < 10 ^ 28"
    and "exp_ok (dexp a)" "exp_ok (dexp b)"
  shows "\<exists>d r. dec_sub a b = Inr d \<and> dec_abs d = Inr r \<and> dec_val r = \<bar>dec_val a - dec_val b\<bar>"
proof -
  have h: "\<bar>align a (min (dexp a) (dexp (dec_neg b))) + align (dec_neg b) (min (dexp a) (dexp (dec_neg b)))\<bar>
      < 10 ^ 28" "exp_ok (dexp (dec_neg b))" using assms by simp_all
  obtain d where d: "dec_add a (dec_neg b) = Inr d" "dec_val d = dec_val a + dec_val (dec_neg b)"
      "dexp d = min (dexp a) (dexp (dec_neg b))"
      "sgn_coef d = align a (min (dexp a) (dexp (dec_neg b))) + align (dec_neg b) (min (dexp a) (dexp (dec_neg b)))"
    using dec_add_exact [OF h(1) assms(2) h(2)] by blast
  have "\<bar>sgn_coef d\<bar> < 10 ^ 28" using d(4) h(1) by simp
  then have "dcoef d < 10 ^ 28" by (simp add: sgn_coef_def split: if_splits)
  moreover have "exp_ok (dexp d)" using d(3) assms by (simp add: min_def)
  ultimately show ?thesis using dec_abs_exact [of d] d(1,2) by (auto simp: dec_sub_def)
qed

lemma dec_mul_exact:
  assumes "dcoef a * dcoef b < 10 ^ 28" "exp_ok (dexp a + dexp b)"
  shows "dec_mul a b = Inr (Dec (dneg a \<noteq> dneg b) (dcoef a * dcoef b) (dexp a + dexp b))"
    and "dec_val (Dec (dneg a \<noteq> dneg b) (dcoef a * dcoef b) (dexp a + dexp b)) = dec_val a * dec_val b"
  using assms by (simp_all add: dec_mul_def dec_fix_id fits_exp_ok) (auto simp: dec_val_def sgn_coef_def pow10_add)

lemma strip_zeros_val:
  "strip_zeros k c e = (c', e') \<Longrightarrow> of_nat c' * pow10 e' = of_nat c * pow10 e \<and> e \<le> e' \<and> e' \<le> e + int k"
proof (induction k arbitrary: c e)
  case 0
  then show ?case by simp
next
  case (Suc k)
  show ?case
  proof (cases "c mod 10 = 0")
    case True
    then obtain q where q: "c = 10 * q" by (metis dvdE mod_0_imp_dvd)
    then have IH: "of_nat c' * pow10 e' = of_nat q * pow10 (e + 1) \<and> e + 1 \<le> e' \<and> e' \<le> e + 1 + int k"
      using Suc.IH [of q "e + 1"] Suc.prems by simp
    then show ?thesis by (simp add: q pow10_add) (simp add: pow10_def)
  next
    case False
    with Suc.prems show ?thesis by simp
  qed
qed

lemma strip_zeros_le:
  "strip_zeros k (c * 10 ^ j) e = (c', e') \<Longrightarrow> j \<le> k \<Longrightarrow> c' \<le> c \<and> e + int j \<le> e'"
proof (induction j arbitrary: k e)
  case 0
  then have "strip_zeros k c e = (c', e')" by simp
  moreover have "strip_zeros k c e = (c', e') \<Longrightarrow> c' \<le> c \<and> e \<le> e'" for c k e
  proof (induction k arbitrary: c e)
    case 0
    then show ?case by simp
  next
    case (Suc k)
    show ?case
    proof (cases "c mod 10 = 0")
      case True
      then have "c' \<le> c div 10 \<and> e + 1 \<le> e'" using Suc.prems by (intro Suc.IH) simp
      then show ?thesis by auto
    next
      case False
      with Suc.prems show ?thesis by simp
    qed
  qed
  ultimately show ?case by simp
next
  case (Suc j)
  then obtain i where i: "k = Suc i" "j \<le> i" by (cases k) auto
  with Suc.prems have "strip_zeros i (c * 10 ^ j) (e + 1) = (c', e')" by simp
  from Suc.IH [OF this i(2)] show ?case by simp
qed

lemma dec_div_hundred_exact:
  assumes "dcoef a < 10 ^ 28" "exp_ok (dexp a - 2)" "exp_ok (dexp a)"
  obtains q where "dec_div a (Dec False 100 0) = Inr q" and "dec_val q = dec_val a / 100"
    and "dcoef q \<le> dcoef a" and "dexp a - 2 \<le> dexp q" and "dexp q \<le> dexp a"
proof (cases "dcoef a = 0")
  case True
  then show ?thesis
    using assms(3) fits_exp_ok [of "dexp a" 0 "dneg a"]
    by (intro that [of "Dec (dneg a) 0 (dexp a)"])
       (simp_all add: dec_div_def dec_fix_id dec_val_def sgn_coef_def)
next
  case False
  define sh where "sh = 32 - num_digits (dcoef a)"
  have nd: "num_digits (dcoef a) \<le> 28"
    using assms(1) num_digits_le_iff [of 28 "dcoef a"] by simp
  have shift: "int (num_digits 100) - int (num_digits (dcoef a)) + int prec + 1 = int sh"
    using nd by (simp add: sh_def prec_def num_digits_def str_nat.simps)
  have "2 \<le> sh" using nd by (simp add: sh_def)
  then obtain j where j: "sh = Suc (Suc j)" by (metis add_2_eq_Suc le_Suc_ex)
  have quot: "dcoef a * 10 ^ sh div 100 = dcoef a * 10 ^ j" "dcoef a * 10 ^ sh mod 100 = 0"
    by (simp_all add: j)
  obtain c' e' where sz: "strip_zeros sh (dcoef a * 10 ^ j) (dexp a - int sh) = (c', e')"
    by (cases "strip_zeros sh (dcoef a * 10 ^ j) (dexp a - int sh)")
  have c': "c' \<le> dcoef a" "dexp a - 2 \<le> e'"
    using strip_zeros_le [OF sz] by (simp_all add: j)
  have val: "of_nat c' * pow10 e' = of_nat (dcoef a * 10 ^ j) * pow10 (dexp a - int sh)"
    and e': "e' \<le> dexp a"
    using strip_zeros_val [OF sz] by simp_all
  have "pow10 (dexp a) = pow10 (dexp a - int sh) * pow10 (int sh)"
    using pow10_add [of "dexp a - int sh" "int sh"] by simp
  then have "of_nat (dcoef a * 10 ^ j) * pow10 (dexp a - int sh) = of_nat (dcoef a) * pow10 (dexp a) / 100"
    by (simp add: j pow10_nat nat_add_distrib)
  then have "dec_val (Dec (dneg a) c' e') = dec_val a / 100"
    using val by (simp add: dec_val_def sgn_coef_def)
  moreover have "dec_div a (Dec False 100 0) = Inr (Dec (dneg a) c' e')"
    using False c' e' assms by (simp add: dec_div_def Let_def shift quot sz dec_fix_id fits_exp_ok exp_ok_def)
  ultimately show ?thesis using that c' e' by simp
qed

section \<open>Results that do not overflow\<close>

definition magnitude :: "dec \<Rightarrow> rat" where
  "magnitude d = of_nat (dcoef d) * pow10 (dexp d)"

lemma magnitude_val: "magnitude d = \<bar>dec_val d\<bar>"
  by (simp add: magnitude_def dec_val_def sgn_coef_def abs_mult pow10_pos less_imp_le)

lemma pow10_mono: "a \<le> b \<Longrightarrow> pow10 a \<le> pow10 b"
proof -
  have *: "pow10 e = 10 powi e" for e
    by (simp add: pow10_def power_int_def inverse_eq_divide power_one_over)
  show "a \<le> b \<Longrightarrow> ?thesis" unfolding * by (rule power_int_increasing) simp_all
qed

lemma pow10_less_iff: "pow10 a < pow10 b \<longleftrightarrow> a < b"
proof -
  have "pow10 a < pow10 (a + 1)" for a using pow10_pos [of a] by (simp add: pow10_add) (simp add: pow10_def)
  then have "a < b \<Longrightarrow> pow10 a < pow10 b" for a b
    using pow10_mono [of "a + 1" b] by (metis less_le_trans zless_imp_add1_zle)
  then show ?thesis using pow10_mono by (meson leD le_less_linear)
qed

text \<open>A bound by a power of ten is a bound on the coefficient.\<close>

lemma magnitude_le_iff:
  assumes "e \<le> k"
  shows "of_nat c * pow10 e \<le> pow10 k \<longleftrightarrow> c \<le> 10 ^ nat (k - e)"
proof -
  have "pow10 k = of_nat (10 ^ nat (k - e)) * pow10 e"
    using pow10_add [of "k - e" e] pow10_nat [of "k - e"] assms by simp
  then have "of_nat c * pow10 e \<le> pow10 k \<longleftrightarrow> of_nat c * pow10 e \<le> of_nat (10 ^ nat (k - e)) * pow10 e" by simp
  also have "\<dots> \<longleftrightarrow> c \<le> 10 ^ nat (k - e)"
    using mult_le_cancel_right_pos [OF pow10_pos, of "of_nat c" e "of_nat (10 ^ nat (k - e))"] by (metis of_nat_le_iff)
  finally show ?thesis .
qed

lemma num_digits_lower: "0 < c \<Longrightarrow> 10 ^ (num_digits c - 1) \<le> c"
proof (cases "num_digits c = 1")
  case False
  moreover have "0 < num_digits c" by (simp add: num_digits_def)
  ultimately have "\<not> num_digits c \<le> num_digits c - 1" "0 < num_digits c - 1" by simp_all
  then show ?thesis using num_digits_le_iff [of "num_digits c - 1" c] by simp
qed simp

lemma magnitude_exp:
  assumes "0 < c" "of_nat c * pow10 e \<le> pow10 k"
  shows "e + int (num_digits c) \<le> k + 1"
proof -
  define n where "n = num_digits c"
  have n: "0 < n" by (simp add: n_def num_digits_def)
  have "10 ^ (n - 1) \<le> c" using num_digits_lower [OF assms(1)] by (simp add: n_def)
  then have "pow10 (int (n - 1)) \<le> of_nat c"
    by (simp add: pow10_def)
  then have "pow10 (int (n - 1)) * pow10 e \<le> of_nat c * pow10 e"
    by (rule mult_right_mono) (simp add: pow10_pos less_imp_le)
  also note assms(2)
  finally have "pow10 (int (n - 1) + e) \<le> pow10 k" by (simp add: pow10_add)
  then have "int (n - 1) + e \<le> k" using pow10_less_iff by (meson leD le_less_linear)
  then show ?thesis using n by (simp add: n_def)
qed

lemma round_half_even_le: "0 < m \<Longrightarrow> c \<le> b * m \<Longrightarrow> round_half_even c m \<le> b"
proof -
  assume m: "0 < m" and c: "c \<le> b * m"
  show ?thesis
  proof (cases "c = b * m")
    case True
    then show ?thesis using m by (simp add: round_half_even_def)
  next
    case False
    then have "c div m < b" using c m by (simp add: div_less_iff_less_mult)
    then show ?thesis by (auto simp: round_half_even_def Let_def)
  qed
qed

text \<open>Rounding keeps a bound by a power of ten, and below \<open>10 ^ Emax\<close> nothing overflows.\<close>

lemma dec_fix_bounded:
  assumes "magnitude d \<le> pow10 k" "ETINY \<le> k" "k \<le> EMAX"
  obtains d' where "dec_fix d = Inr d'" and "magnitude d' \<le> pow10 k"
proof (cases "dcoef d = 0")
  case True
  then show ?thesis using that by (simp add: dec_fix_def magnitude_def pow10_pos less_imp_le)
next
  case False
  define c where "c = dcoef d"
  define sh where "sh = nat (max (int (num_digits c) - int prec) (ETINY - dexp d))"
  define q where "q = round_half_even c (10 ^ sh)"
  define e where "e = dexp d + int sh"
  define d' where "d' = (if prec < num_digits q then Dec (dneg d) (q div 10) (e + 1) else Dec (dneg d) q e)"
  have digits: "dexp d + int (num_digits c) \<le> k + 1"
    using magnitude_exp [of c "dexp d" k] False assms(1) by (simp add: magnitude_def c_def)
  moreover have "0 < num_digits c" by (simp add: num_digits_def)
  ultimately have e: "dexp d \<le> k" "e \<le> k"
    using assms(2) by (auto simp: e_def sh_def prec_def max_def)
  have "c \<le> 10 ^ nat (k - dexp d)"
    using magnitude_le_iff [OF e(1), of c] assms(1) by (simp add: magnitude_def c_def)
  also have "\<dots> = 10 ^ nat (k - e) * 10 ^ sh"
    using e by (simp add: e_def nat_add_distrib [symmetric] flip: power_add)
  finally have q: "q \<le> 10 ^ nat (k - e)" unfolding q_def by (intro round_half_even_le) simp_all
  have mag: "magnitude d' \<le> of_nat q * pow10 e"
  proof (cases "prec < num_digits q")
    case True
    have "10 * (q div 10) \<le> q" by simp
    then have "of_nat (10 * (q div 10)) * pow10 e \<le> of_nat q * pow10 e"
      by (intro mult_right_mono) (simp_all only: of_nat_le_iff pow10_pos less_imp_le)
    moreover have "pow10 (e + 1) = 10 * pow10 e" by (simp add: pow10_add) (simp add: pow10_def)
    ultimately show ?thesis using True by (simp add: d'_def magnitude_def)
  qed (simp add: d'_def magnitude_def)
  then have bound: "magnitude d' \<le> pow10 k"
    using q magnitude_le_iff [OF e(2), of q] by linarith
  have "dexp d' + int (num_digits (dcoef d')) - 1 \<le> EMAX"
  proof (cases "dcoef d' = 0")
    case True
    then have "num_digits q \<le> prec \<or> q < 10" by (auto simp: d'_def split: if_splits)
    then have "num_digits q \<le> prec" using num_digits_le_iff [of prec q] by (auto simp: prec_def)
    then have "dexp d' = e" by (simp add: d'_def)
    then show ?thesis using True e assms(3) by (simp add: num_digits_def str_nat.simps)
  next
    case False
    then show ?thesis using magnitude_exp [of "dcoef d'" "dexp d'" k] bound assms(3) by (simp add: magnitude_def)
  qed
  then have "dec_fix d = Inr d'"
    using False unfolding dec_fix_def Let_def c_def [symmetric] sh_def [symmetric] q_def [symmetric] e_def [symmetric]
      d'_def [symmetric] by (simp add: c_def)
  then show ?thesis using that bound by blast
qed

text \<open>Numbers of at most \<open>10 ^ k\<close> in size, and how each operation changes the bound.\<close>

definition below :: "int \<Rightarrow> dec \<Rightarrow> bool" where
  "below k d \<longleftrightarrow> magnitude d \<le> pow10 k"

lemma below_mono: "below j d \<Longrightarrow> j \<le> k \<Longrightarrow> below k d"
  unfolding below_def using pow10_mono by (meson order_trans)

lemma dec_fix_below: "below k d \<Longrightarrow> 0 \<le> k \<Longrightarrow> k \<le> EMAX \<Longrightarrow> \<exists>r. dec_fix d = Inr r \<and> below k r"
  unfolding below_def using dec_fix_bounded [of d k] by (metis ETINY_def neg_numeral_le_zero order_trans)

lemma dec_add_below:
  assumes "below k a" "below k b" "0 \<le> k" "k < EMAX"
  shows "\<exists>r. dec_add a b = Inr r \<and> below (k + 1) r"
proof -
  define e where "e = min (dexp a) (dexp b)"
  define s where "s = align a e + align b e"
  define d where "d = Dec (s < 0 \<or> s = 0 \<and> dneg a \<and> dneg b) (nat \<bar>s\<bar>) e"
  have "dec_val d = dec_val a + dec_val b"
    using dec_val_signed [of s "dneg a \<and> dneg b" e] align_val [of e a] align_val [of e b]
    by (simp add: s_def e_def d_def distrib_right)
  then have "magnitude d \<le> pow10 k + pow10 k"
    using assms(1,2) abs_triangle_ineq [of "dec_val a" "dec_val b"] unfolding below_def magnitude_val by linarith
  also have "\<dots> \<le> pow10 (k + 1)" using pow10_pos [of k] by (simp add: pow10_add) (simp add: pow10_def)
  finally have "below (k + 1) d" by (simp add: below_def)
  then show ?thesis
    using assms(3,4) dec_fix_below [of "k + 1" d] unfolding dec_add_def Let_def e_def [symmetric] s_def [symmetric] d_def [symmetric]
    by simp
qed

lemma below_neg [simp]: "below k (dec_neg d) = below k d"
  by (simp add: below_def magnitude_val)

lemma dec_sub_abs_below:
  assumes "below k a" "below k b" "0 \<le> k" "k < EMAX"
  shows "\<exists>d r. dec_sub a b = Inr d \<and> dec_abs d = Inr r"
proof -
  obtain d where d: "dec_sub a b = Inr d" "below (k + 1) d"
    using dec_add_below [of k a "dec_neg b"] assms by (auto simp: dec_sub_def)
  then have "below (k + 1) (Dec False (dcoef d) (dexp d))" by (simp add: below_def magnitude_def)
  then show ?thesis using dec_fix_below [of "k + 1"] d(1) assms(3,4) by (fastforce simp: dec_abs_def)
qed

lemma dec_mul_below:
  assumes "below j a" "below k b" "0 \<le> j + k" "j + k \<le> EMAX"
  shows "\<exists>r. dec_mul a b = Inr r \<and> below (j + k) r"
proof -
  have "magnitude a * magnitude b \<le> pow10 j * pow10 k"
    using assms(1,2) unfolding below_def
    by (intro mult_mono) (simp_all add: magnitude_def pow10_pos less_imp_le)
  then have "below (j + k) (Dec (dneg a \<noteq> dneg b) (dcoef a * dcoef b) (dexp a + dexp b))"
    by (simp add: below_def magnitude_def pow10_add mult_ac)
  then show ?thesis using dec_fix_below assms(3,4) by (simp add: dec_mul_def)
qed

lemma dec_div_hundred_below:
  assumes "below k a" "0 \<le> k" "k \<le> EMAX"
  shows "\<exists>r. dec_div a (Dec False 100 0) = Inr r \<and> below k r"
proof (cases "dcoef a = 0")
  case True
  then show ?thesis by (simp add: dec_div_def dec_fix_def below_def magnitude_def pow10_pos less_imp_le)
next
  case False
  define shift where "shift = int (num_digits 100) - int (num_digits (dcoef a)) + int prec + 1"
  define t where "t = (10 :: nat) ^ nat (- shift)"
  define num where "num = dcoef a * 10 ^ nat shift"
  define c where "c = num div (100 * t)"
  have "t \<le> num"
  proof (cases "0 \<le> shift")
    case False
    then have "t \<le> 10 ^ (num_digits (dcoef a) - 1)"
      unfolding t_def by (intro power_increasing) (auto simp: shift_def prec_def)
    then show ?thesis using num_digits_lower [of "dcoef a"] \<open>dcoef a \<noteq> 0\<close> False by (simp add: num_def)
  qed (use False in \<open>simp add: t_def num_def\<close>)
  moreover have "c * t * 100 \<le> num"
    using div_times_less_eq_dividend [of num "100 * t"] by (simp add: c_def mult.assoc mult.commute [of t])
  ultimately have "t + c * t \<le> num"
  proof (cases "c = 0")
    case False
    then have "t \<le> c * t" by simp
    then show ?thesis using \<open>c * t * 100 \<le> num\<close> by linarith
  qed simp
  then have x: "x * t \<le> num" if "x = c \<or> x = c + 1" for x
    using that by auto
  have num: "of_nat num = of_nat (dcoef a) * pow10 shift * of_nat t"
    by (simp add: num_def t_def pow10_def)
  have scaled: "of_nat x * pow10 (dexp a - shift) \<le> pow10 k" if "x * t \<le> num" for x
  proof -
    have "of_nat x * of_nat t \<le> of_nat (dcoef a) * pow10 shift * (of_nat t :: rat)"
      using that num by (metis of_nat_le_iff of_nat_mult)
    then have "of_nat x \<le> of_nat (dcoef a) * pow10 shift" by (simp add: t_def)
    then have "of_nat x * pow10 (dexp a - shift) \<le> of_nat (dcoef a) * pow10 shift * pow10 (dexp a - shift)"
      by (rule mult_right_mono) (simp add: pow10_pos less_imp_le)
    also have "\<dots> = magnitude a" using pow10_add [of shift "dexp a - shift"] by (simp add: magnitude_def)
    also have "\<dots> \<le> pow10 k" using assms(1) by (simp add: below_def)
    finally show ?thesis .
  qed
  have fits: "\<exists>r. dec_fix (Dec n x (dexp a - shift)) = Inr r \<and> below k r" if "x = c \<or> x = c + 1" for n x
    using dec_fix_below [of k "Dec n x (dexp a - shift)"] scaled [OF x [OF that]] assms(2,3)
    by (auto simp: below_def magnitude_def)
  obtain c' e' where sz: "strip_zeros (nat shift) c (dexp a - shift) = (c', e')"
    by (cases "strip_zeros (nat shift) c (dexp a - shift)")
  have "of_nat c' * pow10 e' \<le> pow10 k"
    using strip_zeros_val [OF sz] scaled [OF x, of c] by simp
  then have "\<exists>r. dec_fix (Dec n c' e') = Inr r \<and> below k r" for n
    using dec_fix_below [of k "Dec n c' e'"] assms(2,3) by (auto simp: below_def magnitude_def)
  then show ?thesis
    using False fits [of c] fits [of "c + 1"] sz
    by (simp add: dec_div_def Let_def shift_def [symmetric] t_def [symmetric] num_def [symmetric] c_def [symmetric])
qed

text \<open>A result whose leading digit is above \<open>10 ^ Emax\<close> does overflow; here for a power of ten plus zero.\<close>

lemma num_digits_ge: "0 < k \<Longrightarrow> 10 ^ k \<le> n \<Longrightarrow> k < num_digits n"
  using num_digits_le_iff [of k n] by linarith

lemma dec_fix_overflow:
  assumes "10 ^ 27 \<le> dcoef d" "EMAX < dexp d + int (num_digits (dcoef d)) - 1" "ETINY \<le> dexp d"
  shows "dec_fix d = Inl DecimalOverflow"
proof -
  define c where "c = dcoef d"
  define n where "n = num_digits c"
  define q where "q = round_half_even c (10 ^ (n - 28))"
  have n: "27 < n" unfolding n_def by (rule num_digits_ge) (use assms(1) in \<open>simp_all add: c_def\<close>)
  have c: "0 < c" using assms(1) by (simp add: c_def)
  have sh: "nat (max (int n - 28) (ETINY - dexp d)) = n - 28" using n assms(3) by simp
  have "10 ^ 27 * 10 ^ (n - 28) = (10 :: nat) ^ (n - 1)" unfolding power_add [symmetric] using n by (intro arg_cong [of _ _ "power 10"]) simp
  also have "\<dots> \<le> c" using num_digits_lower [OF c] by (simp add: n_def)
  finally have "10 ^ 27 \<le> c div 10 ^ (n - 28)" by (subst less_eq_div_iff_mult_less_eq) simp_all
  also have "\<dots> \<le> q" by (simp add: q_def round_half_even_def Let_def)
  finally have q: "10 ^ 27 \<le> q" .
  then have dq: "27 < num_digits q" by (intro num_digits_ge) simp_all
  have "27 < num_digits (q div 10)" if "28 < num_digits q"
  proof -
    have "10 ^ 28 \<le> q" using that num_digits_le_iff [of 28 q] by simp
    then show ?thesis by (intro num_digits_ge) simp_all
  qed
  then show ?thesis
    using assms(2) c n dq
    unfolding dec_fix_def Let_def c_def [symmetric] n_def [symmetric] prec_def of_nat_numeral sh q_def [symmetric]
    by auto
qed

lemma dec_add_overflow: "EMAX < int k \<Longrightarrow> dec_add (Dec False 1 (int k)) (Dec False 0 0) = Inl DecimalOverflow"
proof -
  assume k: "EMAX < int k"
  have "(10 :: nat) ^ 27 \<le> 10 ^ k" using k by (intro power_increasing) (auto simp: EMAX_def)
  moreover have "k < num_digits (10 ^ k)" using k by (intro num_digits_ge) (auto simp: EMAX_def)
  moreover have "nat (10 ^ k) = 10 ^ k" by (simp add: nat_power_eq)
  ultimately show ?thesis
    using k dec_fix_overflow [of "Dec False (10 ^ k) 0"]
    by (simp add: dec_add_def align_def sgn_coef_def Let_def ETINY_def nat_power_eq)
qed

lemma length_str_nat_le: "0 < k \<Longrightarrow> n < 10 ^ k \<Longrightarrow> length (str_nat n) \<le> k"
  using num_digits_le_iff [of k n] by (simp add: num_digits_def)

end
