(* ===== verification/Py_Value.thy ===== *)
theory Py_Value
  imports Py_Decimal
begin

text \<open>
  Python values as the services see them: what \<open>json.loads\<close> and \<open>yaml.safe_load\<close> return and what
  is put into a response.  A dict is an association list in insertion order, its keys are strings;
  a float is represented by the text of its \<open>repr\<close>, so that \<open>str()\<close> is immediate and its value is
  read with the decimal parser (\<open>inf\<close> and \<open>nan\<close> have no value).  Lookup, truth value,
  \<open>int()\<close>, \<open>str()\<close> and \<open>repr()\<close> follow.
\<close>

datatype pyval =
    PNone
  | PBool bool
  | PInt int
  | PFloat string
  | PStr string
  | PList "pyval list"
  | PDict "(string \<times> pyval) list"

type_synonym pydict = "(string \<times> pyval) list"

section \<open>Lookup and truth\<close>

text \<open>\<open>d.get(k)\<close> and \<open>d[k]\<close>.\<close>

definition dget :: "pydict \<Rightarrow> string \<Rightarrow> pyval" where
  "dget d k = (case map_of d k of None \<Rightarrow> PNone | Some v \<Rightarrow> v)"

definition dsub :: "pydict \<Rightarrow> string \<Rightarrow> pyval res" where
  "dsub d k = (case map_of d k of None \<Rightarrow> Inl KeyError | Some v \<Rightarrow> Inr v)"

definition float_val :: "string \<Rightarrow> rat option" where
  "float_val t = map_option dec_val (dec_of_string t)"

fun truthy :: "pyval \<Rightarrow> bool" where
  "truthy PNone \<longleftrightarrow> False"
| "truthy (PBool b) \<longleftrightarrow> b"
| "truthy (PInt i) \<longleftrightarrow> i \<noteq> 0"
| "truthy (PFloat t) \<longleftrightarrow> float_val t \<noteq> Some 0"
| "truthy (PStr s) \<longleftrightarrow> s \<noteq> []"
| "truthy (PList xs) \<longleftrightarrow> xs \<noteq> []"
| "truthy (PDict d) \<longleftrightarrow> d \<noteq> []"

text \<open>\<open>a or b\<close>.\<close>

definition py_or :: "pyval \<Rightarrow> pyval \<Rightarrow> pyval" where
  "py_or a b = (if truthy a then a else b)"

text \<open>An optional string field and the expression \<open>value or ""\<close>.\<close>

definition opt_str :: "string option \<Rightarrow> pyval" where
  "opt_str v = (case v of None \<Rightarrow> PNone | Some s \<Rightarrow> PStr s)"

definition or_empty :: "string option \<Rightarrow> string" where
  "or_empty v = (case v of None \<Rightarrow> [] | Some s \<Rightarrow> s)"

section \<open>Conversions\<close>

definition trunc_rat :: "rat \<Rightarrow> int" where
  "trunc_rat q = (if 0 \<le> q then \<lfloor>q\<rfloor> else \<lceil>q\<rceil>)"

fun py_int_of :: "pyval \<Rightarrow> int res" where
  "py_int_of (PInt i) = Inr i"
| "py_int_of (PBool b) = Inr (if b then 1 else 0)"
| "py_int_of (PFloat t) = (case float_val t of None \<Rightarrow> Inl OverflowError | Some q \<Rightarrow> Inr (trunc_rat q))"
| "py_int_of (PStr s) = py_int s"
| "py_int_of _ = Inl TypeError"

text \<open>
  \<open>Decimal(text)\<close>, and \<open>float(text)\<close> where an underscore must stand between two digits; the values
  \<open>inf\<close> and \<open>nan\<close> are outside the model.
\<close>

definition py_decimal :: "string \<Rightarrow> dec res" where
  "py_decimal s = (case dec_of_string s of None \<Rightarrow> Inl InvalidOperation | Some d \<Rightarrow> Inr d)"

fun underscores_ok :: "bool \<Rightarrow> string \<Rightarrow> bool" where
  "underscores_ok after_digit [] \<longleftrightarrow> True"
| "underscores_ok after_digit (c # cs) \<longleftrightarrow>
     (if c = CHR ''_'' then after_digit \<and> cs \<noteq> [] \<and> is_decimal (hd cs) \<and> underscores_ok False cs
      else underscores_ok (is_decimal c) cs)"

definition float_of_string :: "string \<Rightarrow> rat option" where
  "float_of_string s = (if underscores_ok False s then map_option dec_val (dec_of_string s) else None)"

text \<open>
  Whether the double nearest to a rational is positive: the smallest positive one is \<open>2 ^ -1074\<close>, and half of it is
  rounded to even, that is to zero.
\<close>

definition float_positive :: "rat \<Rightarrow> bool" where
  "float_positive q \<longleftrightarrow> 1 / 2 ^ 1075 < q"

fun py_float_of :: "pyval \<Rightarrow> rat res" where
  "py_float_of (PFloat t) = (case float_val t of None \<Rightarrow> Inl OverflowError | Some q \<Rightarrow> Inr q)"
| "py_float_of (PInt i) = Inr (of_int i)"
| "py_float_of (PBool b) = Inr (if b then 1 else 0)"
| "py_float_of (PStr s) = (case float_of_string s of None \<Rightarrow> Inl ValueError | Some q \<Rightarrow> Inr q)"
| "py_float_of _ = Inl TypeError"

definition hex_digit :: "nat \<Rightarrow> char" where
  "hex_digit n = ''0123456789abcdef'' ! n"

definition hex2 :: "char \<Rightarrow> string" where
  "hex2 c = [hex_digit (code c div 16), hex_digit (code c mod 16)]"

definition printable :: "char \<Rightarrow> bool" where
  "printable c \<longleftrightarrow> 32 \<le> code c \<and> code c \<noteq> 127 \<and> \<not> (128 \<le> code c \<and> code c \<le> 160) \<and> code c \<noteq> 173"

definition repr_char :: "char \<Rightarrow> char \<Rightarrow> string" where
  "repr_char q c =
     (if c = q \<or> c = CHR 0x5C then [CHR 0x5C, c]
      else if c = CHR 0x0A then CHR 0x5C # ''n''
      else if c = CHR 0x0D then CHR 0x5C # ''r''
      else if c = CHR 0x09 then CHR 0x5C # ''t''
      else if printable c then [c]
      else CHR 0x5C # CHR ''x'' # hex2 c)"

definition repr_str :: "string \<Rightarrow> string" where
  "repr_str s =
     (let q = (if CHR 0x27 \<in> set s \<and> CHR 0x22 \<notin> set s then CHR 0x22 else CHR 0x27)
      in q # concat (map (repr_char q) s) @ [q])"

fun join :: "string \<Rightarrow> string list \<Rightarrow> string" where
  "join sep [] = []"
| "join sep [x] = x"
| "join sep (x # y # ys) = x @ sep @ join sep (y # ys)"

fun py_repr :: "pyval \<Rightarrow> string" where
  "py_repr PNone = ''None''"
| "py_repr (PBool b) = (if b then ''True'' else ''False'')"
| "py_repr (PInt i) = str_int i"
| "py_repr (PFloat t) = t"
| "py_repr (PStr s) = repr_str s"
| "py_repr (PList xs) = ''['' @ join '', '' (map py_repr xs) @ '']''"
| "py_repr (PDict d) = CHR 0x7B # join '', '' (map (\<lambda>(k, v). repr_str k @ '': '' @ py_repr v) d) @ [CHR 0x7D]"

fun py_str :: "pyval \<Rightarrow> string" where
  "py_str (PStr s) = s"
| "py_str v = py_repr v"

lemmas value_defs [eval_simps] =
  dget_def dsub_def py_decimal_def float_of_string_def float_val_def py_or_def opt_str_def or_empty_def trunc_rat_def hex_digit_def
  hex2_def printable_def repr_char_def repr_str_def

lemma dget_Nil [simp]: "dget [] k = PNone"
  by (simp add: dget_def)

lemma dget_Cons: "dget ((k', v) # d) k = (if k = k' then v else dget d k)"
  by (simp add: dget_def)

lemma dsub_Cons: "dsub ((k', v) # d) k = (if k = k' then Inr v else dsub d k)"
  by (simp add: dsub_def)

lemma or_empty_simps [simp]: "or_empty None = []" "or_empty (Some s) = s"
  by (simp_all add: or_empty_def)

end
