(* ===== verification/Http.thy ===== *)
theory Http
  imports Py_Value
begin

text \<open>
  What the HTTP services share: an exception a handler ends with is either an \<open>HTTPException\<close>, which carries its
  status and detail, or any other exception; and \<open>hmac.compare_digest\<close> on two strings, which refuses
  strings that are not ASCII.  \<open>post_outcome\<close> is what \<open>httpx.post\<close> followed by \<open>raise_for_status\<close> does: it
  returns, raises an \<open>httpx.HTTPError\<close> (the only exception the callers catch) or another exception.
\<close>

datatype post_outcome = Delivered | HTTPError | OtherError py_error

datatype http_error = HTTPException int string | Unhandled py_error

definition compare_digest :: "string \<Rightarrow> string \<Rightarrow> bool res" where
  "compare_digest a b = (if list_all (\<lambda>c. code c < 128) (a @ b) then Inr (a = b) else Inl TypeError)"

lemmas http_defs [eval_simps] = compare_digest_def

lemma compare_digest_true: "compare_digest a b = Inr True \<longleftrightarrow> a = b \<and> list_all (\<lambda>c. code c < 128) b"
  by (auto simp: compare_digest_def)

end
