(* ===== verification/Py_Path.thy ===== *)
theory Py_Path
  imports Py_Value
begin

text \<open>
  What the services use of \<open>pathlib.Path\<close> (POSIX, Python 3.12) and of the file system.  A path is the
  list of its components; the components \<open>""\<close> and \<open>"."\<close> are dropped when a string is parsed, \<open>".."\<close>
  is kept until \<open>resolve\<close>.  The file system maps absolute paths to files and directories and holds
  no symbolic links; limits on the length of a name are not modelled.  Bytes are values of
  type \<open>char\<close>, which has exactly the 256 values of a byte.
\<close>

type_synonym bytes = "char list"

type_synonym path = "string list"

section \<open>Pure paths\<close>

definition path_parts :: "string \<Rightarrow> path" where
  "path_parts s = filter (\<lambda>c. c \<noteq> [] \<and> c \<noteq> ''.'') (split_on CHR ''/'' s)"

text \<open>\<open>p / s\<close>: an absolute right operand replaces the left one.\<close>

definition path_join :: "path \<Rightarrow> string \<Rightarrow> path" where
  "path_join p s = (if prefix ''/'' s then path_parts s else p @ path_parts s)"

text \<open>Exactly two leading slashes are a root of their own.\<close>

definition double_slash :: "string \<Rightarrow> bool" where
  "double_slash s \<longleftrightarrow> prefix ''//'' s \<and> \<not> prefix ''///'' s"

definition path_name :: "string \<Rightarrow> string" where
  "path_name s = (case path_parts s of [] \<Rightarrow> [] | p # ps \<Rightarrow> last (p # ps))"

text \<open>\<open>Path(s).suffix\<close>: from the last dot of the name, which is neither its first nor its last character.\<close>

definition path_suffix :: "string \<Rightarrow> string" where
  "path_suffix s =
     (let name = path_name s;
          ext = takeWhile (\<lambda>c. c \<noteq> CHR ''.'') (rev name);
          dot = length name - length ext
      in if CHR ''.'' \<in> set name \<and> 1 < dot \<and> dot < length name then drop (dot - 1) name else [])"

definition as_posix :: "path \<Rightarrow> string" where
  "as_posix p = (if p = [] then ''.'' else join ''/'' p)"

text \<open>\<open>resolve()\<close> of an absolute path.\<close>

fun resolve_onto :: "path \<Rightarrow> path \<Rightarrow> path" where
  "resolve_onto done [] = done"
| "resolve_onto done (c # cs) = resolve_onto (if c = ''..'' then butlast done else done @ [c]) cs"

definition resolve :: "path \<Rightarrow> path" where
  "resolve p = resolve_onto [] p"

text \<open>\<open>p.relative_to(vol)\<close>.\<close>

definition relative_to :: "path \<Rightarrow> path \<Rightarrow> path res" where
  "relative_to p vol = (if prefix vol p then Inr (drop (length vol) p) else Inl ValueError)"

section \<open>The file system\<close>

datatype node = File bytes | Dir

type_synonym filesystem = "path \<rightharpoonup> node"

fun is_file :: "node option \<Rightarrow> bool" where
  "is_file (Some (File _)) = True"
| "is_file _ = False"

text \<open>A file in the place of a directory of the path.\<close>

definition file_above :: "filesystem \<Rightarrow> path \<Rightarrow> bool" where
  "file_above fs p \<longleftrightarrow> list_ex (\<lambda>n. is_file (fs (take n p))) [0..<length p]"

text \<open>\<open>mkdir(parents=True, exist_ok=True)\<close>.\<close>

definition mkdir_parents :: "filesystem \<Rightarrow> path \<Rightarrow> unit res \<times> filesystem" where
  "mkdir_parents fs p =
     (if file_above fs p \<or> is_file (fs p) then (Inl OSError, fs)
      else (Inr (), \<lambda>q. if prefix q p then Some Dir else fs q))"

definition path_exists :: "filesystem \<Rightarrow> path \<Rightarrow> bool" where
  "path_exists fs p \<longleftrightarrow> \<not> file_above fs p \<and> fs p \<noteq> None"

definition read_bytes :: "filesystem \<Rightarrow> path \<Rightarrow> bytes res" where
  "read_bytes fs p =
     (if file_above fs p then Inl OSError
      else case fs p of
        None \<Rightarrow> Inl FileNotFoundError
      | Some Dir \<Rightarrow> Inl OSError
      | Some (File data) \<Rightarrow> Inr data)"

lemmas path_defs [eval_simps] =
  path_parts_def path_join_def double_slash_def path_name_def path_suffix_def as_posix_def resolve_def
  relative_to_def file_above_def mkdir_parents_def path_exists_def read_bytes_def

section \<open>Lemmas\<close>

text \<open>A path whose components are plain names.\<close>

definition plain_name :: "string \<Rightarrow> bool" where
  "plain_name c \<longleftrightarrow> c \<noteq> [] \<and> c \<noteq> ''.'' \<and> c \<noteq> ''..'' \<and> CHR ''/'' \<notin> set c"

definition plain_path :: "path \<Rightarrow> bool" where
  "plain_path p \<longleftrightarrow> list_all plain_name p"

lemma plain_path_append [simp]: "plain_path (p @ q) \<longleftrightarrow> plain_path p \<and> plain_path q"
  by (simp add: plain_path_def)

lemma plain_path_Cons [simp]: "plain_path (c # p) \<longleftrightarrow> plain_name c \<and> plain_path p"
  by (simp add: plain_path_def)

lemma plain_path_Nil [simp]: "plain_path []"
  by (simp add: plain_path_def)

lemma path_parts_plain: "plain_name s \<Longrightarrow> path_parts s = [s]"
  by (simp add: path_parts_def split_on_single plain_name_def)

lemma path_join_plain: "plain_name s \<Longrightarrow> path_join p s = p @ [s]"
  by (auto simp: path_join_def path_parts_plain) (auto simp: plain_name_def prefix_def)

lemma split_on_join:
  assumes "ps \<noteq> []" and "list_all (\<lambda>c. sep \<notin> set c) ps"
  shows "split_on sep (join [sep] ps) = ps"
  using assms by (induction "[sep]" ps rule: join.induct) (auto simp: split_on_single split_on_append)

lemma path_parts_join:
  assumes "ps \<noteq> []" and "plain_path ps"
  shows "path_parts (join ''/'' ps) = ps"
proof -
  have "split_on CHR ''/'' (join ''/'' ps) = ps"
    using assms by (intro split_on_join) (auto simp: plain_path_def plain_name_def list_all_iff)
  then show ?thesis
    using assms(2) by (auto simp: path_parts_def plain_path_def plain_name_def list_all_iff filter_id_conv)
qed

lemma resolve_onto_plain: "plain_path p \<Longrightarrow> resolve_onto acc p = acc @ p"
  by (induction acc p rule: resolve_onto.induct) (auto simp: plain_name_def)

lemma resolve_plain: "plain_path p \<Longrightarrow> resolve p = p"
  by (simp add: resolve_def resolve_onto_plain)

lemma dotdot_free_resolve_onto: "''..'' \<notin> set acc \<Longrightarrow> ''..'' \<notin> set (resolve_onto acc p)"
proof (induction p arbitrary: acc)
  case (Cons c p)
  have "''..'' \<notin> set (butlast acc)" using Cons.prems by (auto dest: in_set_butlastD)
  then show ?case using Cons by simp
qed simp

lemma file_above_iff: "file_above fs p \<longleftrightarrow> (\<exists>q. strict_prefix q p \<and> is_file (fs q))"
proof
  assume "file_above fs p"
  then obtain n where "n < length p" "is_file (fs (take n p))"
    by (auto simp: file_above_def list_ex_iff)
  moreover from this have "strict_prefix (take n p) p"
    by (auto simp: strict_prefix_def take_is_prefix)
  ultimately show "\<exists>q. strict_prefix q p \<and> is_file (fs q)" by blast
next
  assume "\<exists>q. strict_prefix q p \<and> is_file (fs q)"
  then obtain q r where "p = q @ r" "r \<noteq> []" "is_file (fs q)"
    by (auto simp: strict_prefix_def prefix_def)
  then show "file_above fs p"
    by (auto simp: file_above_def list_ex_iff intro!: bexI [of _ "length q"])
qed

lemma file_above_butlast:
  assumes "p \<noteq> []" "file_above fs (butlast p) \<or> is_file (fs (butlast p))"
  shows "file_above fs p"
proof -
  have "strict_prefix (butlast p) p"
    using assms(1) by (metis append_butlast_last_id not_Cons_self2 self_append_conv strict_prefixI')
  then show ?thesis using assms(2) unfolding file_above_iff by (meson prefix_order.less_trans)
qed

end
