(* ===== verification/Magic.thy ===== *)
theory Magic
  imports Py_Path Http
begin

text \<open>
  \<open>p02_doc_service/magic.py\<close>, the type of an upload from its first bytes, and
  \<open>p02_doc_service/intake.py\<close>, the optional webhook that announces a new document.
\<close>

section \<open>magic.py\<close>

definition MIME_PDF :: string where "MIME_PDF = ''application/pdf''"
definition MIME_PNG :: string where "MIME_PNG = ''image/png''"
definition MIME_JPEG :: string where "MIME_JPEG = ''image/jpeg''"

definition PDF_MAGIC :: bytes where "PDF_MAGIC = ''%PDF''"

definition PNG_MAGIC :: bytes where
  "PNG_MAGIC = [CHR 0x89, CHR ''P'', CHR ''N'', CHR ''G'', CHR 0x0D, CHR 0x0A, CHR 0x1A, CHR 0x0A]"

definition JPEG_MAGIC :: bytes where "JPEG_MAGIC = [CHR 0xFF, CHR 0xD8, CHR 0xFF]"

definition SUFFIX_TO_MIME :: "string \<rightharpoonup> string" where
  "SUFFIX_TO_MIME =
     [''.pdf'' \<mapsto> MIME_PDF, ''.png'' \<mapsto> MIME_PNG, ''.jpg'' \<mapsto> MIME_JPEG, ''.jpeg'' \<mapsto> MIME_JPEG]"

definition detect_mime :: "bytes \<Rightarrow> string option" where
  "detect_mime data =
     (if prefix PDF_MAGIC data then Some MIME_PDF
      else if prefix PNG_MAGIC data then Some MIME_PNG
      else if prefix JPEG_MAGIC data then Some MIME_JPEG
      else None)"

definition filename_matches_mime :: "string \<Rightarrow> string \<Rightarrow> bool" where
  "filename_matches_mime filename mime =
     (let suffix = py_lower (path_name filename);
          ext = path_suffix suffix
      in case SUFFIX_TO_MIME ext of None \<Rightarrow> True | Some expected \<Rightarrow> expected = mime)"

section \<open>intake.py\<close>

datatype intake = NullIntake | HttpIntake string string

text \<open>The request: url, body and header.\<close>

record intake_post =
  post_url :: string
  post_document_id :: string
  post_sha256 :: string
  post_token :: string

text \<open>\<open>notify\<close> returns the requests it sent; the network is the argument \<open>post\<close>.\<close>

definition notify :: "(intake_post \<Rightarrow> post_outcome) \<Rightarrow> intake \<Rightarrow> string \<Rightarrow> string \<Rightarrow> unit res \<times> intake_post list" where
  "notify post intake document_id sha =
     (case intake of
        NullIntake \<Rightarrow> (Inr (), [])
      | HttpIntake url token \<Rightarrow>
          let req = \<lparr>post_url = url, post_document_id = document_id, post_sha256 = sha, post_token = token\<rparr>
          in ((case post req of Delivered \<Rightarrow> Inr () | HTTPError \<Rightarrow> Inr () | OtherError e \<Rightarrow> Inl e), [req]))"

lemmas magic_defs [eval_simps] =
  MIME_PDF_def MIME_PNG_def MIME_JPEG_def PDF_MAGIC_def PNG_MAGIC_def JPEG_MAGIC_def SUFFIX_TO_MIME_def
  detect_mime_def filename_matches_mime_def notify_def

lemma detect_mime_nonempty: "detect_mime data = Some m \<Longrightarrow> data \<noteq> []"
  by (auto simp: detect_mime_def PDF_MAGIC_def PNG_MAGIC_def JPEG_MAGIC_def split: if_splits)

lemma detect_mime_range: "detect_mime data = Some m \<Longrightarrow> m \<in> {''application/pdf'', ''image/png'', ''image/jpeg''}"
  by (auto simp: detect_mime_def MIME_PDF_def MIME_PNG_def MIME_JPEG_def split: if_splits)

end
