(* ===== verification/P02_Storage.thy ===== *)
theory P02_Storage
  imports Py_Path
begin

text \<open>
  \<open>p02_doc_service/storage.py\<close>: content-addressed files.  The protocol \<open>Storage\<close> is the locale
  \<open>content_store\<close>; \<open>MemoryStorage\<close> and \<open>FilesystemStorage\<close> are shown to implement it.  The root of the
  volume, \<open>vol\<close> below, is an absolute path.
\<close>

section \<open>FilesystemStorage\<close>

definition fs_abs :: "path \<Rightarrow> string \<Rightarrow> path" where
  "fs_abs vol digest =
     path_join (path_join (path_join vol (take 2 digest)) (take 2 (drop 2 digest))) digest"

definition fs_init :: "path \<Rightarrow> filesystem \<Rightarrow> unit res \<times> filesystem" where
  "fs_init vol fs = mkdir_parents fs vol"

definition fs_put :: "path \<Rightarrow> filesystem \<Rightarrow> string \<Rightarrow> bytes \<Rightarrow> string res \<times> filesystem" where
  "fs_put vol fs digest data =
     (let dest = fs_abs vol digest in
      case mkdir_parents fs (resolve (butlast dest)) of
        (Inl e, fs') \<Rightarrow> (Inl e, fs')
      | (Inr _, fs') \<Rightarrow>
          let fs'' = (if \<not> path_exists fs' (resolve dest) then fs'(resolve dest \<mapsto> File data) else fs')
          in (rbind (relative_to dest vol) (\<lambda>p. Inr (as_posix p)), fs''))"

definition fs_get :: "path \<Rightarrow> filesystem \<Rightarrow> string \<Rightarrow> bytes res" where
  "fs_get vol fs storage_path =
     (if CHR 0x00 \<in> set storage_path then Inl ValueError
      else let vol' = resolve vol;
               p = resolve (path_join vol storage_path)
      in if double_slash storage_path then Inl FileNotFoundError
      else case relative_to p vol' of
        Inl _ \<Rightarrow> Inl FileNotFoundError
      | Inr _ \<Rightarrow> read_bytes fs p)"

definition fs_exists :: "path \<Rightarrow> filesystem \<Rightarrow> string \<Rightarrow> bool" where
  "fs_exists vol fs digest \<longleftrightarrow>
     (let dest = resolve (fs_abs vol digest) in \<not> file_above fs dest \<and> is_file (fs dest))"

section \<open>MemoryStorage\<close>

type_synonym memory_storage = "string \<rightharpoonup> bytes"

definition memory_storage_put :: "memory_storage \<Rightarrow> string \<Rightarrow> bytes \<Rightarrow> string res \<times> memory_storage" where
  "memory_storage_put files digest data =
     (Inr digest, if digest \<in> dom files then files else files(digest \<mapsto> data))"

definition memory_storage_get :: "memory_storage \<Rightarrow> string \<Rightarrow> bytes res" where
  "memory_storage_get files storage_path =
     (case files storage_path of None \<Rightarrow> Inl FileNotFoundError | Some data \<Rightarrow> Inr data)"

definition memory_storage_exists :: "memory_storage \<Rightarrow> string \<Rightarrow> bool" where
  "memory_storage_exists files digest \<longleftrightarrow> digest \<in> dom files"

lemmas storage_defs [eval_simps] =
  fs_abs_def fs_init_def fs_put_def fs_get_def fs_exists_def
  memory_storage_put_def memory_storage_get_def memory_storage_exists_def

section \<open>The protocol Storage\<close>

text \<open>
  \<open>location\<close> is the storage path of a digest and \<open>files\<close> the contents by digest; the laws speak of the
  digests \<open>good\<close> allows.
\<close>

locale content_store =
  fixes put :: "'s \<Rightarrow> string \<Rightarrow> bytes \<Rightarrow> string res \<times> 's"
    and get :: "'s \<Rightarrow> string \<Rightarrow> bytes res"
    and exists :: "'s \<Rightarrow> string \<Rightarrow> bool"
    and files :: "'s \<Rightarrow> string \<rightharpoonup> bytes"
    and location :: "string \<Rightarrow> string"
    and good :: "string \<Rightarrow> bool"
    and invar :: "'s \<Rightarrow> bool"
  assumes put_ok: "invar st \<Longrightarrow> good h \<Longrightarrow> \<exists>st'. put st h data = (Inr (location h), st') \<and> invar st'
      \<and> (\<forall>g. good g \<longrightarrow> files st' g = (if g = h \<and> files st h = None then Some data else files st g))"
    and get_location: "invar st \<Longrightarrow> good h \<Longrightarrow>
      get st (location h) = (case files st h of None \<Rightarrow> Inl FileNotFoundError | Some data \<Rightarrow> Inr data)"
    and exists_iff: "invar st \<Longrightarrow> good h \<Longrightarrow> exists st h \<longleftrightarrow> files st h \<noteq> None"
begin

text \<open>What was stored first under a digest is what is read back; no later \<open>put\<close> changes it.\<close>

lemma get_after_put:
  assumes "invar st" "good h" "put st h data = (r, st')"
  shows "r = Inr (location h)" "invar st'"
    "get st' (location h) = Inr (case files st h of None \<Rightarrow> data | Some old \<Rightarrow> old)"
  using put_ok [OF assms(1,2), of data] get_location [of st' h] assms
  by (auto split: option.splits)

lemma put_keeps:
  assumes "invar st" "good h" "good g" "put st h data = (r, st')" "get st (location g) = Inr old"
  shows "get st' (location g) = Inr old"
  using put_ok [OF assms(1,2), of data] get_location [of st' g] get_location [of st g] assms
  by (auto split: option.splits if_splits)

end

section \<open>Both implementations satisfy the protocol\<close>

interpretation mstore: content_store memory_storage_put memory_storage_get memory_storage_exists
    "\<lambda>files. files" "\<lambda>h. h" "\<lambda>_. True" "\<lambda>_. True"
  by unfold_locales (auto simp: memory_storage_put_def memory_storage_get_def memory_storage_exists_def)

text \<open>The digests \<open>hashlib.sha256(...).hexdigest()\<close> returns.\<close>

definition hex_char :: "char \<Rightarrow> bool" where
  "hex_char c \<longleftrightarrow> is_decimal c \<or> c \<in> set ''abcdef''"

definition hex_digest :: "string \<Rightarrow> bool" where
  "hex_digest h \<longleftrightarrow> length h = 64 \<and> list_all hex_char h"

definition digest_parts :: "string \<Rightarrow> path" where
  "digest_parts h = [take 2 h, take 2 (drop 2 h), h]"

definition fs_files :: "path \<Rightarrow> filesystem \<Rightarrow> string \<rightharpoonup> bytes" where
  "fs_files vol fs h = (case fs (vol @ digest_parts h) of Some (File data) \<Rightarrow> Some data | _ \<Rightarrow> None)"

definition fs_location :: "string \<Rightarrow> string" where
  "fs_location h = join ''/'' (digest_parts h)"

text \<open>No file is in the place of a directory of the volume, and no directory in the place of a file.\<close>

definition fs_invar :: "path \<Rightarrow> filesystem \<Rightarrow> bool" where
  "fs_invar vol fs \<longleftrightarrow>
     (\<forall>h. hex_digest h \<longrightarrow> \<not> file_above fs (vol @ digest_parts h) \<and> fs (vol @ digest_parts h) \<noteq> Some Dir)"


lemma hex_char_plain: "hex_char c \<Longrightarrow> c \<noteq> CHR ''/'' \<and> c \<noteq> CHR ''.'' \<and> c \<noteq> CHR 0x00"
  by (auto simp: hex_char_def is_decimal_def)

lemma hex_plain_name: "s \<noteq> [] \<Longrightarrow> list_all hex_char s \<Longrightarrow> plain_name s"
  using hex_char_plain by (cases s) (auto simp: plain_name_def list_all_iff)

lemma hex_sublists: "list_all hex_char h \<Longrightarrow> list_all hex_char (take n h) \<and> list_all hex_char (take n (drop m h))"
  unfolding list_all_iff by (blast dest: in_set_takeD in_set_dropD)

lemma digest_parts_plain: "hex_digest h \<Longrightarrow> plain_path (digest_parts h)"
  using hex_sublists [of h] by (auto simp: digest_parts_def hex_digest_def intro!: hex_plain_name)

lemma digest_parts_inject [simp]: "digest_parts g = digest_parts h \<longleftrightarrow> g = h"
  by (auto simp: digest_parts_def)

lemma length_digest_parts [simp]: "length (digest_parts h) = 3"
  by (simp add: digest_parts_def)

lemma fs_abs_digest: "hex_digest h \<Longrightarrow> fs_abs vol h = vol @ digest_parts h"
  using digest_parts_plain [of h] by (simp add: fs_abs_def digest_parts_def path_join_plain)

lemma fs_location_parts: "hex_digest h \<Longrightarrow> path_parts (fs_location h) = digest_parts h"
  unfolding fs_location_def by (intro path_parts_join digest_parts_plain) (simp_all add: digest_parts_def)

lemma fs_location_chars:
  assumes "hex_digest h"
  shows "CHR 0x00 \<notin> set (fs_location h)" "\<not> prefix ''/'' (fs_location h)"
proof -
  have loc: "fs_location h = take 2 h @ ''/'' @ take 2 (drop 2 h) @ ''/'' @ h"
    by (simp add: fs_location_def digest_parts_def)
  have hex: "list_all hex_char h" "take 2 h \<noteq> []" using assms by (auto simp: hex_digest_def)
  have no: "list_all hex_char t \<Longrightarrow> CHR 0x00 \<notin> set t \<and> CHR ''/'' \<notin> set t" for t
    using hex_char_plain by (auto simp: list_all_iff)
  then show "CHR 0x00 \<notin> set (fs_location h)"
    using hex_sublists [OF hex(1)] hex(1) by (simp add: loc)
  have "CHR ''/'' \<notin> set (take 2 h)" using no hex_sublists [OF hex(1)] by blast
  then show "\<not> prefix ''/'' (fs_location h)"
    using hex(2) unfolding loc by (cases "take 2 h") auto
qed

text \<open>Writing the file of one digest keeps the layout and the files of the others.\<close>

lemma mkdir_parents_volume:
  assumes "fs_invar vol fs" "hex_digest h"
  defines "p \<equiv> vol @ digest_parts h"
  obtains fs' where "mkdir_parents fs (butlast p) = (Inr (), fs')" "fs_invar vol fs'"
    "\<And>g. hex_digest g \<Longrightarrow> fs' (vol @ digest_parts g) = fs (vol @ digest_parts g)"
proof -
  define fs' where "fs' = (\<lambda>q. if prefix q (butlast p) then Some Dir else fs q)"
  have bl: "butlast p = vol @ [take 2 h, take 2 (drop 2 h)]" by (simp add: p_def digest_parts_def butlast_append)
  have "\<not> file_above fs p" using assms by (simp add: fs_invar_def)
  then have "\<not> file_above fs (butlast p)" "\<not> is_file (fs (butlast p))"
    using file_above_butlast [of p fs] by (auto simp: p_def digest_parts_def)
  then have mk: "mkdir_parents fs (butlast p) = (Inr (), fs')"
    by (simp add: mkdir_parents_def fs'_def)
  have same: "fs' (vol @ digest_parts g) = fs (vol @ digest_parts g)" for g
    by (auto simp: fs'_def bl digest_parts_def dest: prefix_length_le)
  have "file_above fs' q \<Longrightarrow> file_above fs q" for q
    unfolding file_above_iff fs'_def by (auto split: if_splits)
  then have "fs_invar vol fs'" using assms(1) same by (auto simp: fs_invar_def)
  then show ?thesis using that [OF mk] same by blast
qed

lemma fs_invar_write:
  assumes "fs_invar vol fs" "hex_digest h"
  shows "fs_invar vol (fs(vol @ digest_parts h \<mapsto> File data))"
proof -
  have "\<not> file_above (fs(vol @ digest_parts h \<mapsto> File data)) (vol @ digest_parts g)" if "hex_digest g" for g
  proof
    assume "file_above (fs(vol @ digest_parts h \<mapsto> File data)) (vol @ digest_parts g)"
    then obtain q where q: "strict_prefix q (vol @ digest_parts g)"
        "is_file ((fs(vol @ digest_parts h \<mapsto> File data)) q)"
      by (auto simp: file_above_iff)
    from prefix_length_less [OF q(1)] have "q \<noteq> vol @ digest_parts h" by auto
    with q have "file_above fs (vol @ digest_parts g)" by (auto simp: file_above_iff)
    with assms(1) that show False by (simp add: fs_invar_def)
  qed
  with assms(1) show ?thesis by (auto simp: fs_invar_def)
qed

lemma fs_put_digest:
  assumes "plain_path vol" "fs_invar vol fs" "hex_digest h"
  shows "\<exists>fs'. fs_put vol fs h data = (Inr (fs_location h), fs') \<and> fs_invar vol fs'
     \<and> (\<forall>g. hex_digest g \<longrightarrow>
          fs_files vol fs' g = (if g = h \<and> fs_files vol fs h = None then Some data else fs_files vol fs g))"
proof -
  define p where "p = vol @ digest_parts h"
  have p: "fs_abs vol h = p" "resolve p = p" "resolve (butlast p) = butlast p"
    using fs_abs_digest [OF assms(3)] digest_parts_plain [OF assms(3)] assms(1)
    by (auto simp: p_def resolve_plain butlast_append digest_parts_def)
  obtain fs' where fs': "mkdir_parents fs (butlast p) = (Inr (), fs')" "fs_invar vol fs'"
      "\<And>g. hex_digest g \<Longrightarrow> fs' (vol @ digest_parts g) = fs (vol @ digest_parts g)"
    using mkdir_parents_volume [OF assms(2,3)] unfolding p_def by blast
  have rel: "rbind (relative_to p vol) (\<lambda>p. Inr (as_posix p)) = Inr (fs_location h)"
    by (simp add: relative_to_def p_def as_posix_def fs_location_def digest_parts_def)
  have ex: "path_exists fs' p \<longleftrightarrow> fs_files vol fs h \<noteq> None"
    using fs'(2,3) assms(3) by (auto simp: path_exists_def fs_files_def fs_invar_def p_def split: option.splits node.splits)
  show ?thesis
  proof (cases "path_exists fs' p")
    case True
    then show ?thesis
      using fs' rel ex by (auto simp: fs_put_def p fs_files_def Let_def)
  next
    case False
    then show ?thesis
      using fs'(1) rel fs_invar_write [OF fs'(2) assms(3), folded p_def] ex
      by (simp add: fs_put_def p Let_def) (simp add: fs_files_def p_def fs'(3))
  qed
qed

lemma fs_get_digest:
  assumes "plain_path vol" "fs_invar vol fs" "hex_digest h"
  shows "fs_get vol fs (fs_location h) =
     (case fs_files vol fs h of None \<Rightarrow> Inl FileNotFoundError | Some data \<Rightarrow> Inr data)"
proof -
  have p: "path_join vol (fs_location h) = vol @ digest_parts h" "resolve (vol @ digest_parts h) = vol @ digest_parts h"
    using fs_location_chars [OF assms(3)] fs_location_parts [OF assms(3)] digest_parts_plain [OF assms(3)] assms(1)
    by (auto simp: path_join_def resolve_plain)
  have "\<not> double_slash (fs_location h)"
    using fs_location_chars(2) [OF assms(3)] by (auto simp: double_slash_def prefix_def)
  moreover have "\<not> file_above fs (vol @ digest_parts h)" "fs (vol @ digest_parts h) \<noteq> Some Dir"
    using assms(2,3) by (auto simp: fs_invar_def)
  ultimately show ?thesis
    using fs_location_chars(1) [OF assms(3)] assms(1)
    by (auto simp: fs_get_def p resolve_plain relative_to_def read_bytes_def fs_files_def
        split: option.splits node.splits)
qed

lemma fs_content_store:
  assumes "plain_path vol"
  shows "content_store (fs_put vol) (fs_get vol) (fs_exists vol) (fs_files vol) fs_location hex_digest (fs_invar vol)"
proof
  fix fs h data
  assume h: "fs_invar vol fs" "hex_digest h"
  then show "\<exists>st'. fs_put vol fs h data = (Inr (fs_location h), st') \<and> fs_invar vol st'
      \<and> (\<forall>g. hex_digest g \<longrightarrow>
          fs_files vol st' g = (if g = h \<and> fs_files vol fs h = None then Some data else fs_files vol fs g))"
    by (rule fs_put_digest [OF assms])
  show "fs_get vol fs (fs_location h) =
      (case fs_files vol fs h of None \<Rightarrow> Inl FileNotFoundError | Some data \<Rightarrow> Inr data)"
    by (rule fs_get_digest [OF assms h])
  show "fs_exists vol fs h \<longleftrightarrow> fs_files vol fs h \<noteq> None"
    using h digest_parts_plain [OF h(2)] assms
    by (auto simp: fs_exists_def fs_abs_digest resolve_plain fs_files_def fs_invar_def elim: is_file.elims
        split: option.splits node.splits)
qed

text \<open>The volume of the deployment, the default of \<open>P02_STORAGE_DIR\<close>.\<close>

definition STORAGE_DIR :: path where
  "STORAGE_DIR = [''data'', ''documents'']"

interpretation fstore: content_store "fs_put STORAGE_DIR" "fs_get STORAGE_DIR" "fs_exists STORAGE_DIR"
    "fs_files STORAGE_DIR" fs_location hex_digest "fs_invar STORAGE_DIR"
  by (rule fs_content_store) (simp add: STORAGE_DIR_def plain_name_def)

section \<open>Properties\<close>

text \<open>
  C13: Whatever path a caller passes, \<open>FilesystemStorage.get\<close> returns only the bytes of a file below the
  root of the volume, reached without \<open>..\<close>: no storage path escapes the volume.
\<close>

theorem filesystem_get_contained:
  assumes "fs_get vol fs storage_path = Inr data"
  shows "\<exists>rel. ''..'' \<notin> set rel \<and> fs (resolve vol @ rel) = Some (File data)"
proof -
  define p where "p = resolve (path_join vol storage_path)"
  have "prefix (resolve vol) p" "read_bytes fs p = Inr data"
    using assms by (auto simp: fs_get_def p_def relative_to_def Let_def split: if_splits)
  then obtain rel where "p = resolve vol @ rel" "fs p = Some (File data)"
    by (auto simp: read_bytes_def prefix_def split: if_splits option.splits node.splits)
  moreover have "''..'' \<notin> set p"
    unfolding p_def resolve_def by (rule dotdot_free_resolve_onto) simp
  ultimately show ?thesis by auto
qed

theorem filesystem_get_contained_witness:
  "fs_get [''data''] [[''data'', ''a''] \<mapsto> File ''x''] ''b/../a'' = Inr ''x''
   \<and> (\<exists>rel. ''..'' \<notin> set rel \<and> ([[''data'', ''a''] \<mapsto> File ''x'']) (resolve [''data''] @ rel) = Some (File ''x''))"
proof -
  have get: "fs_get [''data''] [[''data'', ''a''] \<mapsto> File ''x''] ''b/../a'' = Inr ''x''"
    by (simp add: eval_simps upt_rec)
  from filesystem_get_contained [OF get] get show ?thesis by blast
qed

lemma mkdir_parents_outside:
  "mkdir_parents fs p = (r, fs') \<Longrightarrow> \<not> prefix q p \<Longrightarrow> fs' q = fs q"
  by (auto simp: mkdir_parents_def split: if_splits)

text \<open>
  C14: For every root and every digest that \<open>hexdigest\<close> can return, \<open>FilesystemStorage.put\<close> succeeds with the
  digest's path, \<open>get\<close> of that path then returns what was stored first under the digest, the files of
  all other digests are unchanged, and nothing outside the volume changes.
\<close>

theorem filesystem_put_get:
  assumes "plain_path vol" and "fs_invar vol fs" and "hex_digest h"
  shows "\<exists>fs'. fs_put vol fs h data = (Inr (fs_location h), fs') \<and> fs_invar vol fs'
     \<and> fs_get vol fs' (fs_location h) = Inr (case fs_files vol fs h of None \<Rightarrow> data | Some old \<Rightarrow> old)
     \<and> (\<forall>g. hex_digest g \<longrightarrow> g \<noteq> h \<longrightarrow> fs_get vol fs' (fs_location g) = fs_get vol fs (fs_location g))
     \<and> (\<forall>q. \<not> prefix q vol \<longrightarrow> \<not> prefix vol q \<longrightarrow> fs' q = fs q)"
proof -
  obtain fs' where fs': "fs_put vol fs h data = (Inr (fs_location h), fs')" "fs_invar vol fs'"
      "\<And>g. hex_digest g \<Longrightarrow>
        fs_files vol fs' g = (if g = h \<and> fs_files vol fs h = None then Some data else fs_files vol fs g)"
    using fs_put_digest [OF assms] by blast
  have "fs' q = fs q" if "\<not> prefix q vol" "\<not> prefix vol q" for q
  proof -
    define p where "p = vol @ digest_parts h"
    have p: "fs_abs vol h = p" "resolve p = p" "resolve (butlast p) = butlast p" "prefix vol p" "q \<noteq> p"
        "\<not> prefix q (butlast p)"
      using fs_abs_digest [OF assms(3)] digest_parts_plain [OF assms(3)] assms(1) that
      by (auto simp: p_def resolve_plain butlast_append digest_parts_def prefix_append prefix_Cons)
    show ?thesis
      using fs'(1) p(5) mkdir_parents_outside [OF _ p(6)]
      by (auto simp: fs_put_def p(1-3) Let_def split: prod.splits sum.splits)
  qed
  with fs' assms show ?thesis
    using fs_get_digest [OF assms(1) fs'(2)] fs_get_digest [OF assms(1,2)]
    by (intro exI [of _ fs']) (auto split: option.splits)
qed

theorem filesystem_put_get_witness:
  "\<exists>fs'. fs_put STORAGE_DIR Map.empty (replicate 64 CHR ''a'') ''%PDF''
          = (Inr (fs_location (replicate 64 CHR ''a'')), fs')
     \<and> fs_invar STORAGE_DIR fs'
     \<and> fs_get STORAGE_DIR fs' (fs_location (replicate 64 CHR ''a'')) = Inr ''%PDF''"
  using filesystem_put_get [of STORAGE_DIR Map.empty "replicate 64 CHR ''a''" "''%PDF''"]
  by (auto simp: STORAGE_DIR_def plain_name_def fs_invar_def file_above_iff hex_digest_def hex_char_def
      fs_files_def list_all_iff)

end
