(* ===== verification/Documents.thy ===== *)
theory Documents
  imports Py_Value
begin

text \<open>
  \<open>p02_doc_service/documents.py\<close>: the metadata store.  The protocol \<open>DocumentRepository\<close> is the
  locale \<open>document_repository\<close>; \<open>MemoryDocuments\<close> and \<open>PostgresDocuments\<close> (the table
  \<open>p02.documents\<close> with its unique column \<open>sha256\<close> and its check constraints) are interpretations of
  it.  The value of \<open>uuid4()\<close>, or of the column default \<open>gen_random_uuid()\<close>, is an argument of
  \<open>put\<close>; that it is new is a hypothesis.  Each call runs under the lock, or in one transaction,
  so a history of calls is a sequence.
\<close>

section \<open>Data\<close>

type_synonym uuid = string

record new_document =
  new_sha256 :: string
  new_filename :: string
  new_mime_type :: string
  new_size_bytes :: int
  new_storage_path :: string
  new_source :: string

record stored_document =
  doc_id :: uuid
  sha256 :: string
  original_filename :: string
  mime_type :: string
  size_bytes :: int
  storage_path :: string
  doc_source :: string
  status :: string
  deduplicated :: bool

text \<open>The document \<open>put\<close> builds for a new hash.\<close>

definition received :: "uuid \<Rightarrow> new_document \<Rightarrow> stored_document" where
  "received uid d =
     \<lparr>doc_id = uid, sha256 = new_sha256 d, original_filename = new_filename d, mime_type = new_mime_type d,
      size_bytes = new_size_bytes d, storage_path = new_storage_path d, doc_source = new_source d,
      status = ''received'', deduplicated = False\<rparr>"

section \<open>MemoryDocuments\<close>

record memory_documents =
  by_id :: "uuid \<rightharpoonup> stored_document"
  by_hash :: "string \<rightharpoonup> uuid"

definition empty_memory_documents :: memory_documents where
  "empty_memory_documents = \<lparr>by_id = Map.empty, by_hash = Map.empty\<rparr>"

definition memory_put ::
    "memory_documents \<Rightarrow> uuid \<Rightarrow> new_document \<Rightarrow> (stored_document \<times> memory_documents) res" where
  "memory_put st uid d =
     (case by_hash st (new_sha256 d) of
        Some existing_id \<Rightarrow>
          (case by_id st existing_id of
             None \<Rightarrow> Inl KeyError
           | Some current \<Rightarrow> Inr (current\<lparr>deduplicated := True\<rparr>, st))
      | None \<Rightarrow>
          let stored = received uid d
          in Inr (stored, st\<lparr>by_id := (by_id st)(doc_id stored \<mapsto> stored),
                           by_hash := (by_hash st)(sha256 stored \<mapsto> doc_id stored)\<rparr>))"

definition memory_get :: "memory_documents \<Rightarrow> uuid \<Rightarrow> stored_document option" where
  "memory_get st uid = by_id st uid"

section \<open>PostgresDocuments\<close>

record document_row =
  row_id :: uuid
  row_sha256 :: string
  row_filename :: string
  row_mime_type :: string
  row_size_bytes :: int
  row_storage_path :: string
  row_source :: string
  row_status :: string

type_synonym documents_table = "document_row list"

definition from_row :: "document_row \<Rightarrow> bool \<Rightarrow> stored_document" where
  "from_row row dedup =
     \<lparr>doc_id = row_id row, sha256 = row_sha256 row, original_filename = row_filename row,
      mime_type = row_mime_type row, size_bytes = row_size_bytes row, storage_path = row_storage_path row,
      doc_source = row_source row, status = row_status row, deduplicated = dedup\<rparr>"

text \<open>The check constraints of \<open>p02.documents\<close> that an insert can violate, and the NUL character, which the driver
  refuses in a text value.\<close>

definition row_allowed :: "new_document \<Rightarrow> bool" where
  "row_allowed d \<longleftrightarrow>
     new_mime_type d \<in> {''application/pdf'', ''image/png'', ''image/jpeg''}
     \<and> 0 < new_size_bytes d \<and> new_size_bytes d \<le> 10485760 \<and> CHR 0x00 \<notin> set (new_filename d)
     \<and> new_source d \<in> {''upload'', ''email''}"

definition new_row :: "uuid \<Rightarrow> new_document \<Rightarrow> document_row" where
  "new_row uid d =
     \<lparr>row_id = uid, row_sha256 = new_sha256 d, row_filename = new_filename d, row_mime_type = new_mime_type d,
      row_size_bytes = new_size_bytes d, row_storage_path = new_storage_path d, row_source = new_source d,
      row_status = ''received''\<rparr>"

text \<open>\<open>INSERT ... ON CONFLICT (sha256) DO NOTHING RETURNING ...\<close>: the row, if one was inserted.\<close>

definition insert_on_conflict_do_nothing ::
    "documents_table \<Rightarrow> uuid \<Rightarrow> new_document \<Rightarrow> (document_row option \<times> documents_table) res" where
  "insert_on_conflict_do_nothing tab uid d =
     (if \<not> row_allowed d then Inl DatabaseError
      else if \<exists>r \<in> set tab. row_sha256 r = new_sha256 d then Inr (None, tab)
      else if \<exists>r \<in> set tab. row_id r = uid then Inl DatabaseError
      else Inr (Some (new_row uid d), tab @ [new_row uid d]))"

definition select_by_sha256 :: "documents_table \<Rightarrow> string \<Rightarrow> document_row option" where
  "select_by_sha256 tab h = find (\<lambda>r. row_sha256 r = h) tab"

definition postgres_put ::
    "documents_table \<Rightarrow> uuid \<Rightarrow> new_document \<Rightarrow> (stored_document \<times> documents_table) res" where
  "postgres_put tab uid d =
     rbind (insert_on_conflict_do_nothing tab uid d) (\<lambda>(row, tab').
       case row of
         Some r \<Rightarrow> Inr (from_row r False, tab')
       | None \<Rightarrow>
           (case select_by_sha256 tab' (new_sha256 d) of
              None \<Rightarrow> Inl (RuntimeError ''document insert conflicted but no row for sha256'')
            | Some r \<Rightarrow> Inr (from_row r True, tab')))"

definition postgres_get :: "documents_table \<Rightarrow> uuid \<Rightarrow> stored_document option" where
  "postgres_get tab uid = map_option (\<lambda>r. from_row r False) (find (\<lambda>r. row_id r = uid) tab)"

lemmas document_defs [eval_simps] =
  received_def empty_memory_documents_def memory_put_def memory_get_def from_row_def row_allowed_def
  new_row_def insert_on_conflict_do_nothing_def select_by_sha256_def postgres_put_def postgres_get_def

section \<open>The protocol DocumentRepository\<close>

text \<open>A history of \<open>put\<close> calls, each with the identifier drawn for it; the first exception ends it.\<close>

fun put_all ::
    "('s \<Rightarrow> uuid \<Rightarrow> new_document \<Rightarrow> (stored_document \<times> 's) res) \<Rightarrow> 's \<Rightarrow> (uuid \<times> new_document) list
       \<Rightarrow> (stored_document list \<times> 's) res" where
  "put_all put st [] = Inr ([], st)"
| "put_all put st ((uid, d) # calls) =
     rbind (put st uid d) (\<lambda>(r, st'). rbind (put_all put st' calls) (\<lambda>(rs, st''). Inr (r # rs, st'')))"

text \<open>The abstract behaviour: documents by hash; the first \<open>put\<close> of a hash decides.\<close>

definition spec_put ::
    "(string \<rightharpoonup> stored_document) \<Rightarrow> uuid \<Rightarrow> new_document \<Rightarrow> stored_document \<times> (string \<rightharpoonup> stored_document)" where
  "spec_put m uid d =
     (case m (new_sha256 d) of
        Some cur \<Rightarrow> (cur\<lparr>deduplicated := True\<rparr>, m)
      | None \<Rightarrow> (received uid d, m(new_sha256 d \<mapsto> received uid d)))"

fun spec_put_all ::
    "(string \<rightharpoonup> stored_document) \<Rightarrow> (uuid \<times> new_document) list
       \<Rightarrow> stored_document list \<times> (string \<rightharpoonup> stored_document)" where
  "spec_put_all m [] = ([], m)"
| "spec_put_all m ((uid, d) # calls) =
     (let (r, m') = spec_put m uid d; (rs, m'') = spec_put_all m' calls in (r # rs, m''))"

locale document_repository =
  fixes put :: "'s \<Rightarrow> uuid \<Rightarrow> new_document \<Rightarrow> (stored_document \<times> 's) res"
    and get :: "'s \<Rightarrow> uuid \<Rightarrow> stored_document option"
    and docs :: "'s \<Rightarrow> string \<rightharpoonup> stored_document"
    and allowed :: "new_document \<Rightarrow> bool"
    and invar :: "'s \<Rightarrow> bool"
  assumes put_refines: "invar st \<Longrightarrow> allowed d \<Longrightarrow> get st uid = None \<Longrightarrow>
      \<exists>st'. put st uid d = Inr (fst (spec_put (docs st) uid d), st') \<and> invar st'
            \<and> docs st' = snd (spec_put (docs st) uid d)"
    and docs_sound: "invar st \<Longrightarrow> docs st h = Some x \<Longrightarrow>
      get st (doc_id x) = Some x \<and> sha256 x = h \<and> \<not> deduplicated x"
    and docs_complete: "invar st \<Longrightarrow> get st uid = Some x \<Longrightarrow> docs st (sha256 x) = Some x \<and> doc_id x = uid"
begin

text \<open>A repeated \<open>put\<close> returns the first document, marked, and changes nothing.\<close>

lemma put_known:
  assumes "invar st" "allowed d" "get st uid = None" "docs st (new_sha256 d) = Some x"
  shows "\<exists>st'. put st uid d = Inr (x\<lparr>deduplicated := True\<rparr>, st') \<and> invar st' \<and> docs st' = docs st"
  using put_refines [OF assms(1-3)] assms(4) by (simp add: spec_put_def)

lemma put_unknown:
  assumes "invar st" "allowed d" "get st uid = None" "docs st (new_sha256 d) = None"
  shows "\<exists>st'. put st uid d = Inr (received uid d, st') \<and> invar st'
     \<and> docs st' = (docs st)(new_sha256 d \<mapsto> received uid d)"
  using put_refines [OF assms(1-3)] assms(4) by (simp add: spec_put_def)

text \<open>The identifiers in use after a \<open>put\<close>.\<close>

lemma get_after_put:
  assumes "invar st" "allowed d" "get st uid = None" "put st uid d = Inr (r, st')" "get st' u \<noteq> None"
  shows "u = uid \<or> get st u \<noteq> None"
proof -
  obtain x where x: "get st' u = Some x" using assms(5) by auto
  have st': "invar st'" "docs st' = snd (spec_put (docs st) uid d)"
    using put_refines [OF assms(1-3)] assms(4) by auto
  from docs_complete [OF st'(1) x] have "docs st' (sha256 x) = Some x" "doc_id x = u" by auto
  then consider "docs st (sha256 x) = Some x" | "x = received uid d"
    unfolding st'(2) by (auto simp: spec_put_def split: option.splits if_splits)
  then show ?thesis
  proof cases
    case 1
    then show ?thesis using docs_sound [OF assms(1) 1] \<open>doc_id x = u\<close> by auto
  next
    case 2
    then show ?thesis using \<open>doc_id x = u\<close> by (simp add: received_def)
  qed
qed

text \<open>Any history of calls with fresh identifiers behaves as the abstract store does.\<close>

lemma put_all_refines:
  assumes "invar st" "list_all (\<lambda>(uid, d). allowed d \<and> get st uid = None) calls" "distinct (map fst calls)"
  shows "\<exists>st'. put_all put st calls = Inr (fst (spec_put_all (docs st) calls), st') \<and> invar st'
     \<and> docs st' = snd (spec_put_all (docs st) calls)"
  using assms
proof (induction calls arbitrary: st)
  case Nil
  then show ?case by simp
next
  case (Cons call calls)
  obtain uid d where call: "call = (uid, d)" by (cases call)
  have ok: "allowed d" "get st uid = None" using Cons.prems(2) call by auto
  obtain st' where st': "put st uid d = Inr (fst (spec_put (docs st) uid d), st')" "invar st'"
      "docs st' = snd (spec_put (docs st) uid d)"
    using put_refines [OF Cons.prems(1) ok] by blast
  have "list_all (\<lambda>(u, d). allowed d \<and> get st' u = None) calls"
    unfolding list_all_iff
  proof (clarify, intro conjI)
    fix u e
    assume mem: "(u, e) \<in> set calls"
    then show "allowed e" using Cons.prems(2) by (auto simp: list_all_iff)
    have "get st u = None" "u \<noteq> uid"
      using mem Cons.prems(2,3) call by (auto simp: list_all_iff image_iff)
    then show "get st' u = None"
      using get_after_put [OF Cons.prems(1) ok st'(1)] by blast
  qed
  then obtain st'' where "put_all put st' calls = Inr (fst (spec_put_all (docs st') calls), st'')" "invar st''"
      "docs st'' = snd (spec_put_all (docs st') calls)"
    using Cons.IH [OF st'(2)] Cons.prems(3) by auto
  then show ?case using st' by (simp add: call Let_def split_beta)
qed

text \<open>What \<open>get\<close> answers is determined by the abstract store.\<close>

lemma get_iff: "invar st \<Longrightarrow> get st uid = Some x \<longleftrightarrow> docs st (sha256 x) = Some x \<and> doc_id x = uid"
  using docs_sound docs_complete by blast

lemma get_put:
  assumes "invar st" "allowed d" "get st uid = None" "put st uid d = Inr (r, st')"
  shows "get st' = (if deduplicated r then get st else (get st)(uid \<mapsto> r))"
proof -
  have st': "invar st'" "docs st' = snd (spec_put (docs st) uid d)" "r = fst (spec_put (docs st) uid d)"
    using put_refines [OF assms(1-3)] assms(4) by auto
  have "get st' u = Some x \<longleftrightarrow> (if deduplicated r then get st else (get st)(uid \<mapsto> r)) u = Some x" for u x
  proof (cases "docs st (new_sha256 d)")
    case None
    then have r: "r = received uid d" "\<not> deduplicated r" "docs st' = (docs st)(new_sha256 d \<mapsto> r)"
      using st' by (auto simp: spec_put_def received_def)
    have "get st u = Some x \<Longrightarrow> sha256 x \<noteq> new_sha256 d" using None get_iff [OF assms(1)] by auto
    moreover have "get st uid \<noteq> Some x" using assms(3) by simp
    ultimately show ?thesis
      using get_iff [OF st'(1), of u x] get_iff [OF assms(1), of u x] r
      by (auto simp: received_def)
  next
    case (Some y)
    then have "deduplicated r" "docs st' = docs st" using st' by (auto simp: spec_put_def)
    then show ?thesis using get_iff [OF st'(1), of u x] get_iff [OF assms(1), of u x] by simp
  qed
  then show ?thesis by (intro ext) (metis not_Some_eq option.exhaust)
qed

end

section \<open>Both implementations satisfy the protocol\<close>

definition memory_docs :: "memory_documents \<Rightarrow> string \<rightharpoonup> stored_document" where
  "memory_docs st h = Option.bind (by_hash st h) (by_id st)"

definition memory_invar :: "memory_documents \<Rightarrow> bool" where
  "memory_invar st \<longleftrightarrow>
     (\<forall>h u. by_hash st h = Some u \<longrightarrow> (\<exists>x. by_id st u = Some x \<and> sha256 x = h))
     \<and> (\<forall>u x. by_id st u = Some x \<longrightarrow> doc_id x = u \<and> by_hash st (sha256 x) = Some u \<and> \<not> deduplicated x)"

interpretation mem: document_repository memory_put memory_get memory_docs "\<lambda>_. True" memory_invar
proof
  fix st d uid
  assume inv: "memory_invar st" and fresh: "memory_get st uid = None"
  show "\<exists>st'. memory_put st uid d = Inr (fst (spec_put (memory_docs st) uid d), st') \<and> memory_invar st'
      \<and> memory_docs st' = snd (spec_put (memory_docs st) uid d)"
  proof (cases "by_hash st (new_sha256 d)")
    case None
    have "memory_docs (st\<lparr>by_id := (by_id st)(uid \<mapsto> received uid d),
        by_hash := (by_hash st)(new_sha256 d \<mapsto> uid)\<rparr>) = (memory_docs st)(new_sha256 d \<mapsto> received uid d)"
      using inv fresh by (fastforce simp: memory_docs_def memory_invar_def memory_get_def bind_eq_None_conv
          split: Option.bind_splits)
    moreover have "memory_invar (st\<lparr>by_id := (by_id st)(uid \<mapsto> received uid d),
        by_hash := (by_hash st)(new_sha256 d \<mapsto> uid)\<rparr>)"
      unfolding memory_invar_def
    proof (intro conjI allI impI; clarsimp simp: received_def split: if_splits)
    qed (use inv fresh None in \<open>fastforce simp: memory_invar_def memory_get_def\<close>)+
    ultimately show ?thesis
      using None by (simp add: memory_put_def spec_put_def memory_docs_def received_def Let_def)
  next
    case (Some u)
    then obtain x where "by_id st u = Some x" using inv unfolding memory_invar_def by blast
    with Some inv show ?thesis by (simp add: memory_put_def spec_put_def memory_docs_def)
  qed
next
  fix st h x
  assume "memory_invar st" "memory_docs st h = Some x"
  then show "memory_get st (doc_id x) = Some x \<and> sha256 x = h \<and> \<not> deduplicated x"
    by (fastforce simp: memory_docs_def memory_invar_def memory_get_def bind_eq_Some_conv)
next
  fix st uid x
  assume "memory_invar st" "memory_get st uid = Some x"
  then show "memory_docs st (sha256 x) = Some x \<and> doc_id x = uid"
    by (auto simp: memory_docs_def memory_invar_def memory_get_def)
qed

definition postgres_docs :: "documents_table \<Rightarrow> string \<rightharpoonup> stored_document" where
  "postgres_docs tab h = map_option (\<lambda>r. from_row r False) (select_by_sha256 tab h)"

text \<open>The table's unique constraints.\<close>

definition postgres_invar :: "documents_table \<Rightarrow> bool" where
  "postgres_invar tab \<longleftrightarrow> distinct (map row_sha256 tab) \<and> distinct (map row_id tab)"

lemma find_unique:
  assumes "distinct (map f xs)" "x \<in> set xs"
  shows "find (\<lambda>y. f y = f x) xs = Some x"
  using assms
proof (induction xs)
  case Nil
  then show ?case by simp
next
  case (Cons a xs)
  then show ?case by (auto simp: image_iff)
qed

lemma find_key_Some: "find (\<lambda>y. f y = k) xs = Some x \<Longrightarrow> x \<in> set xs \<and> f x = k"
  by (auto simp: find_Some_iff)

lemma find_append: "find P (xs @ ys) = (case find P xs of None \<Rightarrow> find P ys | Some x \<Rightarrow> Some x)"
  by (induction xs) auto

interpretation pg: document_repository postgres_put postgres_get postgres_docs row_allowed postgres_invar
proof
  fix tab d uid
  assume inv: "postgres_invar tab" and ok: "row_allowed d" and fresh: "postgres_get tab uid = None"
  have no_id: "\<not> (\<exists>r \<in> set tab. row_id r = uid)"
    using fresh by (auto simp: postgres_get_def find_None_iff)
  show "\<exists>st'. postgres_put tab uid d = Inr (fst (spec_put (postgres_docs tab) uid d), st') \<and> postgres_invar st'
      \<and> postgres_docs st' = snd (spec_put (postgres_docs tab) uid d)"
  proof (cases "select_by_sha256 tab (new_sha256 d)")
    case None
    then have no_sha: "\<not> (\<exists>r \<in> set tab. row_sha256 r = new_sha256 d)"
      by (auto simp: select_by_sha256_def find_None_iff)
    have row: "from_row (new_row uid d) False = received uid d"
      by (simp add: from_row_def new_row_def received_def)
    have row_key: "row_sha256 (new_row uid d) = new_sha256 d" by (simp add: new_row_def)
    have "postgres_docs (tab @ [new_row uid d]) = (postgres_docs tab)(new_sha256 d \<mapsto> received uid d)"
      using None row_key
      by (auto simp: postgres_docs_def select_by_sha256_def find_append row fun_eq_iff split: option.splits)
    moreover have "postgres_invar (tab @ [new_row uid d])"
      using inv no_sha no_id by (auto simp: postgres_invar_def new_row_def)
    ultimately show ?thesis
      using None no_sha no_id ok row
      by (simp add: postgres_put_def insert_on_conflict_do_nothing_def spec_put_def postgres_docs_def)
  next
    case (Some r)
    then have "\<exists>r \<in> set tab. row_sha256 r = new_sha256 d"
      by (auto simp: select_by_sha256_def dest: find_key_Some)
    with Some ok inv show ?thesis
      by (simp add: postgres_put_def insert_on_conflict_do_nothing_def spec_put_def postgres_docs_def from_row_def)
  qed
next
  fix tab h x
  assume "postgres_invar tab" "postgres_docs tab h = Some x"
  then show "postgres_get tab (doc_id x) = Some x \<and> sha256 x = h \<and> \<not> deduplicated x"
    using find_unique [of row_id tab]
    by (auto simp: postgres_docs_def postgres_get_def postgres_invar_def select_by_sha256_def from_row_def
        dest!: find_key_Some)
next
  fix tab uid x
  assume "postgres_invar tab" "postgres_get tab uid = Some x"
  then show "postgres_docs tab (sha256 x) = Some x \<and> doc_id x = uid"
    using find_unique [of row_sha256 tab]
    by (auto simp: postgres_docs_def postgres_get_def postgres_invar_def select_by_sha256_def from_row_def
        dest!: find_key_Some)
qed


section \<open>Properties\<close>

lemma memory_invar_empty: "memory_invar empty_memory_documents"
  by (simp add: memory_invar_def empty_memory_documents_def)

lemma postgres_invar_empty: "postgres_invar []"
  by (simp add: postgres_invar_def)

text \<open>
  C12: From empty stores, every history of \<open>put\<close> calls with distinct identifiers and documents the
  table's constraints allow gives the same answers from \<open>MemoryDocuments\<close> and
  \<open>PostgresDocuments\<close>, namely those of the abstract store in which the first \<open>put\<close> of a hash
  decides; none of the calls raises, and afterwards \<open>get\<close> answers alike for every identifier.
\<close>

theorem repositories_agree:
  assumes "distinct (map fst calls)" and "list_all (row_allowed \<circ> snd) calls"
  shows "\<exists>ms tab. put_all memory_put empty_memory_documents calls = Inr (fst (spec_put_all Map.empty calls), ms)
     \<and> put_all postgres_put [] calls = Inr (fst (spec_put_all Map.empty calls), tab)
     \<and> memory_get ms = postgres_get tab"
proof -
  have empty: "memory_docs empty_memory_documents = Map.empty" "postgres_docs [] = Map.empty"
    by (auto simp: memory_docs_def empty_memory_documents_def postgres_docs_def select_by_sha256_def)
  have "list_all (\<lambda>(uid, d). True \<and> memory_get empty_memory_documents uid = None) calls"
    "list_all (\<lambda>(uid, d). row_allowed d \<and> postgres_get [] uid = None) calls"
    using assms(2)
    by (auto simp: list_all_iff memory_get_def empty_memory_documents_def postgres_get_def)
  from mem.put_all_refines [OF memory_invar_empty this(1) assms(1)]
    pg.put_all_refines [OF postgres_invar_empty this(2) assms(1)]
  obtain ms tab where ms: "put_all memory_put empty_memory_documents calls = Inr (fst (spec_put_all Map.empty calls), ms)"
      "memory_invar ms" "memory_docs ms = snd (spec_put_all Map.empty calls)"
    and tab: "put_all postgres_put [] calls = Inr (fst (spec_put_all Map.empty calls), tab)"
      "postgres_invar tab" "postgres_docs tab = snd (spec_put_all Map.empty calls)"
    unfolding empty by blast
  have "memory_get ms uid = Some x \<longleftrightarrow> postgres_get tab uid = Some x" for uid x
    using mem.get_iff [OF ms(2)] pg.get_iff [OF tab(2)] ms(3) tab(3) by simp
  then have "memory_get ms = postgres_get tab"
    by (metis (no_types) ext not_Some_eq option.exhaust)
  then show ?thesis using ms tab by blast
qed

definition example_document :: "string \<Rightarrow> new_document" where
  "example_document h =
     \<lparr>new_sha256 = h, new_filename = ''lasku.pdf'', new_mime_type = ''application/pdf'', new_size_bytes = 4,
      new_storage_path = h, new_source = ''upload''\<rparr>"

theorem repositories_agree_witness:
  "\<exists>ms tab.
     put_all memory_put empty_memory_documents
       [(''u1'', example_document ''aa''), (''u2'', example_document ''bb''), (''u3'', example_document ''aa'')]
       = Inr ([received ''u1'' (example_document ''aa''), received ''u2'' (example_document ''bb''),
               (received ''u1'' (example_document ''aa''))\<lparr>deduplicated := True\<rparr>], ms)
     \<and> put_all postgres_put []
       [(''u1'', example_document ''aa''), (''u2'', example_document ''bb''), (''u3'', example_document ''aa'')]
       = Inr ([received ''u1'' (example_document ''aa''), received ''u2'' (example_document ''bb''),
               (received ''u1'' (example_document ''aa''))\<lparr>deduplicated := True\<rparr>], tab)
     \<and> memory_get ms = postgres_get tab"
  using repositories_agree [of "[(''u1'', example_document ''aa''), (''u2'', example_document ''bb''),
      (''u3'', example_document ''aa'')]"]
  by (simp add: spec_put_def Let_def example_document_def row_allowed_def)

end
