(* ===== verification/Checksum.thy ===== *)
theory Checksum
  imports Py_Value
begin

text \<open>
  What the document validators share: the result record of \<open>validators/result.py\<close> and the algebra
  of a weighted checksum.  The locale \<open>weighted_checksum\<close> states the interface every check-digit
  scheme offers (a modulus and weights invertible modulo it) and derives once that no single wrong
  digit goes unnoticed; \<open>transposition_checksum\<close> adds the law under which no swap of two digits
  does (the weights of different positions differ by an invertible amount).  The validators' theories interpret them on the weights of the code.
\<close>

section \<open>Result of a rule (validators/result.py)\<close>

record rule_result =
  rule :: string
  field :: string
  passed :: bool
  details :: pydict

section \<open>Weighted sums\<close>

definition wsum :: "(nat \<Rightarrow> int) \<Rightarrow> int list \<Rightarrow> int" where
  "wsum w ds = (\<Sum>i<length ds. w i * ds ! i)"

lemma wsum_Nil [simp]: "wsum w [] = 0"
  by (simp add: wsum_def)

lemma wsum_snoc: "wsum w (ds @ [d]) = wsum w ds + w (length ds) * d"
  by (simp add: wsum_def nth_append)

lemma wsum_Cons: "wsum w (d # ds) = w 0 * d + wsum (\<lambda>i. w (Suc i)) ds"
  unfolding wsum_def by (simp add: sum.lessThan_Suc_shift del: sum.lessThan_Suc)

lemma wsum_update:
  assumes "i < length ds"
  shows "wsum w (ds[i := d]) = wsum w ds + w i * (d - ds ! i)"
proof -
  let ?R = "{..<length ds} - {i}"
  have split: "sum f {..<length ds} = f i + sum f ?R" for f :: "nat \<Rightarrow> int"
    using assms by (intro sum.remove) auto
  have "sum (\<lambda>j. w j * ds[i := d] ! j) ?R = sum (\<lambda>j. w j * ds ! j) ?R"
    by (rule sum.cong) auto
  then show ?thesis
    using split [of "\<lambda>j. w j * ds[i := d] ! j"] split [of "\<lambda>j. w j * ds ! j"] assms
    by (simp add: wsum_def algebra_simps)
qed

section \<open>Error detection\<close>

lemma coprime_inverse:
  fixes a v m :: int
  assumes "(a * v) mod m = 1"
  shows "coprime a m"
proof (rule coprimeI)
  fix k
  assume "k dvd a" and "k dvd m"
  then have "k dvd a * v mod m" by (simp add: dvd_mod_iff)
  with assms show "is_unit k" by simp
qed

locale weighted_checksum =
  fixes m :: int and weight :: "nat \<Rightarrow> int"
  assumes modulus: "10 \<le> m"
    and weight_invertible: "coprime (weight i) m"
begin

lemma small_multiple:
  assumes "m dvd weight i * k" and "\<bar>k\<bar> < 10"
  shows "k = 0"
proof (rule ccontr)
  assume "k \<noteq> 0"
  have "m dvd k"
    using assms(1) weight_invertible [of i] by (metis coprime_commute coprime_dvd_mult_right_iff)
  then have "\<bar>m\<bar> \<le> \<bar>k\<bar>" using \<open>k \<noteq> 0\<close> by (rule dvd_imp_le_int [rotated])
  with assms(2) modulus show False by simp
qed

lemma substitution_detected:
  assumes "i < length ds" and "\<bar>d - ds ! i\<bar> < 10"
    and "wsum weight ds mod m = wsum weight (ds[i := d]) mod m"
  shows "d = ds ! i"
proof -
  have "m dvd wsum weight (ds[i := d]) - wsum weight ds"
    using assms(3) by (simp add: mod_eq_dvd_iff [symmetric])
  then have "m dvd weight i * (d - ds ! i)"
    by (simp add: wsum_update [OF assms(1)])
  then have "d - ds ! i = 0" using assms(2) by (rule small_multiple)
  then show ?thesis by simp
qed

end

locale transposition_checksum = weighted_checksum +
  fixes span :: nat
  assumes weights_distinct: "i < j \<Longrightarrow> j < span \<Longrightarrow> coprime (weight i - weight j) m"
begin

lemma transposition_detected:
  assumes "i < j" "j < length ds" "length ds \<le> span" and "\<bar>ds ! j - ds ! i\<bar> < 10"
    and "wsum weight ds mod m = wsum weight (ds[i := ds ! j, j := ds ! i]) mod m"
  shows "ds ! i = ds ! j"
proof -
  have "wsum weight (ds[i := ds ! j, j := ds ! i]) - wsum weight ds
      = (weight i - weight j) * (ds ! j - ds ! i)"
    using assms(1,2) by (simp add: wsum_update algebra_simps)
  then have "m dvd (weight i - weight j) * (ds ! j - ds ! i)"
    using assms(5) by (metis mod_eq_dvd_iff)
  then have d: "m dvd ds ! j - ds ! i"
    using weights_distinct [of i j] assms(1-3)
    by (metis coprime_commute coprime_dvd_mult_right_iff less_le_trans)
  show ?thesis
  proof (rule ccontr)
    assume "ds ! i \<noteq> ds ! j"
    then have "\<bar>m\<bar> \<le> \<bar>ds ! j - ds ! i\<bar>" using d by (intro dvd_imp_le_int) auto
    with assms(4) modulus show False by simp
  qed
qed

end

text \<open>The digits of a string as numbers.\<close>

definition digit_ints :: "string \<Rightarrow> int list" where
  "digit_ints s = map (\<lambda>c. int (digit_val c)) s"

lemma length_digit_ints [simp]: "length (digit_ints s) = length s"
  by (simp add: digit_ints_def)

lemma digit_ints_nth [simp]: "i < length s \<Longrightarrow> digit_ints s ! i = int (digit_val (s ! i))"
  by (simp add: digit_ints_def)

lemma digit_ints_update: "digit_ints (s[i := c]) = (digit_ints s)[i := int (digit_val c)]"
  by (simp add: digit_ints_def map_update)

lemma digit_ints_append [simp]: "digit_ints (s @ t) = digit_ints s @ digit_ints t"
  by (simp add: digit_ints_def)

text \<open>The two usual errors of copying a code: one digit changed, two different digits swapped.\<close>

inductive digit_subst :: "string \<Rightarrow> string \<Rightarrow> bool" where
  "i < length s \<Longrightarrow> is_decimal (s ! i) \<Longrightarrow> is_decimal d \<Longrightarrow> d \<noteq> s ! i \<Longrightarrow> digit_subst s (s[i := d])"

inductive digit_swap :: "string \<Rightarrow> string \<Rightarrow> bool" where
  "i < j \<Longrightarrow> j < length s \<Longrightarrow> is_decimal (s ! i) \<Longrightarrow> is_decimal (s ! j) \<Longrightarrow> s ! i \<noteq> s ! j \<Longrightarrow>
   digit_swap s (s[i := s ! j, j := s ! i])"

definition digit_typo :: "string \<Rightarrow> string \<Rightarrow> bool" where
  "digit_typo s s' \<longleftrightarrow> digit_subst s s' \<or> digit_swap s s'"

lemma digit_diff_less_10:
  "is_decimal c \<Longrightarrow> is_decimal d \<Longrightarrow> \<bar>int (digit_val c) - int (digit_val d)\<bar> < 10"
  using digit_val_less_10 [of c] digit_val_less_10 [of d] by simp

end
