(* ===== verification/Business_Id.thy ===== *)
theory Business_Id
  imports Checksum
begin

text \<open>
  \<open>validators/business_id.py\<close>: the checksum of a Finnish business identity code (Y-tunnus),
  seven digits, a hyphen and a check digit.  The acceptance test is characterised as a weighted sum
  modulo 11, from which the interpretation of \<open>transposition_checksum\<close> gives that every wrong digit
  and every swap of two different digits of an accepted code is rejected.
\<close>

section \<open>The code\<close>

definition RULE_business_id :: string where
  "RULE_business_id = ''business_id_checksum''"

definition FIELD_business_id :: string where
  "FIELD_business_id = ''supplier_business_id''"

definition WEIGHTS :: "nat list" where
  "WEIGHTS = [7, 9, 10, 5, 8, 4, 2]"

text \<open>\<open>PATTERN.fullmatch(raw)\<close> with its two groups.\<close>

definition business_id_match :: "string \<Rightarrow> (string \<times> string) option" where
  "business_id_match raw =
     (if length raw = 9 \<and> list_all is_decimal (take 7 raw) \<and> raw ! 7 = CHR ''-'' \<and> is_decimal (raw ! 8)
      then Some (take 7 raw, drop 8 raw) else None)"

definition weighted_total :: "string \<Rightarrow> nat" where
  "weighted_total body = sum_list (map2 (\<lambda>digit weight. digit_val digit * weight) body WEIGHTS)"

definition business_id_result :: "bool \<Rightarrow> pydict \<Rightarrow> rule_result" where
  "business_id_result ok ds =
     \<lparr>rule = RULE_business_id, field = FIELD_business_id, passed = ok, details = ds\<rparr>"

definition business_id_checksum :: "string option \<Rightarrow> rule_result" where
  "business_id_checksum value =
     (let raw = py_strip (or_empty value)
      in if raw = [] then business_id_result False [(''reason'', PStr ''empty'')]
         else case business_id_match raw of
           None \<Rightarrow> business_id_result False
                     [(''reason'', PStr ''format''), (''expected'', PStr ''NNNNNNN-N'')]
         | Some (body, check_s) \<Rightarrow>
             let total = weighted_total body; remainder = total mod 11
             in if remainder = 1
                then business_id_result False
                       [(''reason'', PStr ''remainder_1''), (''remainder'', PInt (int remainder)),
                        (''sum'', PInt (int total))]
                else let expected = (if remainder = 0 then 0 else 11 - remainder);
                         actual = int_of_digits check_s
                     in if actual \<noteq> expected
                        then business_id_result False
                               [(''reason'', PStr ''checksum''),
                                (''expected_check_digit'', PInt (int expected)),
                                (''actual_check_digit'', PInt (int actual)),
                                (''remainder'', PInt (int remainder))]
                        else business_id_result True
                               [(''check_digit'', PInt (int actual)),
                                (''remainder'', PInt (int remainder))])"

lemmas business_id_defs [eval_simps] =
  RULE_business_id_def FIELD_business_id_def WEIGHTS_def business_id_match_def weighted_total_def
  business_id_result_def business_id_checksum_def

section \<open>The checksum as a weighted sum\<close>

definition bid_weight :: "nat \<Rightarrow> int" where
  "bid_weight i = [7, 9, 10, 5, 8, 4, 2, 1] ! (i mod 8)"

text \<open>Modulo 11 the inverse of a number is its ninth power.\<close>

interpretation bid: transposition_checksum 11 bid_weight 8
proof
  fix i :: nat
  have "i mod 8 \<in> {0, 1, 2, 3, 4, 5, 6, 7}" by auto
  then have "(bid_weight i * bid_weight i ^ 9) mod 11 = 1"
    by (auto simp: bid_weight_def)
  then show "coprime (bid_weight i) 11" by (rule coprime_inverse)
next
  fix i j :: nat
  assume "i < j" "j < 8"
  then have "i \<in> {0, 1, 2, 3, 4, 5, 6}" "j \<in> {1, 2, 3, 4, 5, 6, 7}" by auto
  then have "((bid_weight i - bid_weight j) * (bid_weight i - bid_weight j) ^ 9) mod 11 = 1"
    using \<open>i < j\<close> by (auto simp: bid_weight_def)
  then show "coprime (bid_weight i - bid_weight j) 11" by (rule coprime_inverse)
qed simp

text \<open>The eight digits of a code without its hyphen.\<close>

definition bid_digits :: "string \<Rightarrow> int list" where
  "bid_digits s = digit_ints (take 7 s @ drop 8 s)"

definition bid_shape :: "string \<Rightarrow> bool" where
  "bid_shape s \<longleftrightarrow> business_id_match s \<noteq> None"

lemma list_of_length_9:
  assumes "length s = 9"
  obtains a b c d e f g h k where "s = [a, b, c, d, e, f, g, h, k]"
  using assms by (auto simp: eval_nat_numeral length_Suc_conv)

lemma bid_shape_nonempty: "bid_shape s \<Longrightarrow> s \<noteq> []"
  by (auto simp: bid_shape_def business_id_match_def)

lemma bid_shape_strip: "bid_shape s \<Longrightarrow> py_strip s = s"
proof -
  assume h: "bid_shape s"
  then have "length s = 9" by (auto simp: bid_shape_def business_id_match_def split: if_splits)
  then obtain a b c d e f g h k where s: "s = [a, b, c, d, e, f, g, h, k]" by (rule list_of_length_9)
  have "is_decimal a" "is_decimal k"
    using h by (auto simp: bid_shape_def business_id_match_def s split: if_splits)
  then show ?thesis by (intro py_strip_id) (auto simp: s digit_not_space)
qed

lemma check_digit_iff:
  fixes t c :: nat
  assumes "c < 10"
  shows "(t mod 11 \<noteq> 1 \<and> c = (if t mod 11 = 0 then 0 else 11 - t mod 11)) \<longleftrightarrow> (t + c) mod 11 = 0"
proof -
  have window: "n mod 11 = 0 \<longleftrightarrow> n = 0 \<or> n = 11" if "n < 22" for n :: nat
    using that by (cases "n < 11") (auto simp: mod_if)
  define r where "r = t mod 11"
  have r: "r < 11" by (simp add: r_def)
  have "(t + c) mod 11 = (r + c) mod 11" by (simp add: r_def mod_add_left_eq)
  also have "(r + c) mod 11 = 0 \<longleftrightarrow> r + c = 0 \<or> r + c = 11"
    using r assms by (intro window) simp
  finally show ?thesis unfolding r_def [symmetric] using r assms by auto
qed

lemma business_id_checksum_shape:
  assumes "bid_shape s"
  shows "passed (business_id_checksum (Some s)) \<longleftrightarrow> wsum bid_weight (bid_digits s) mod 11 = 0"
proof -
  have "length s = 9" using assms by (auto simp: bid_shape_def business_id_match_def split: if_splits)
  then obtain a b c d e f g h k where s: "s = [a, b, c, d, e, f, g, h, k]" by (rule list_of_length_9)
  define t where "t = weighted_total (take 7 s)"
  have m: "business_id_match s = Some (take 7 s, [k])" and k: "digit_val k < 10"
    using assms by (auto simp: bid_shape_def business_id_match_def s digit_val_less_10 split: if_splits)
  have "passed (business_id_checksum (Some s))
      \<longleftrightarrow> t mod 11 \<noteq> 1 \<and> digit_val k = (if t mod 11 = 0 then 0 else 11 - t mod 11)"
    using bid_shape_strip [OF assms] bid_shape_nonempty [OF assms]
    by (auto simp: business_id_checksum_def Let_def m business_id_result_def int_of_digits_def t_def)
  also have "\<dots> \<longleftrightarrow> (t + digit_val k) mod 11 = 0" by (rule check_digit_iff [OF k])
  finally have "passed (business_id_checksum (Some s)) \<longleftrightarrow> (t + digit_val k) mod 11 = 0" .
  moreover have sum: "wsum bid_weight (bid_digits s) = int (t + digit_val k)"
    by (simp add: t_def s weighted_total_def WEIGHTS_def bid_digits_def digit_ints_def wsum_Cons bid_weight_def)
  moreover have "wsum bid_weight (bid_digits s) mod 11 = int ((t + digit_val k) mod 11)"
    unfolding sum by (simp only: zmod_int of_nat_numeral)
  ultimately show ?thesis by (simp only: of_nat_eq_0_iff)
qed

lemma business_id_checksum_not_shape:
  "\<not> bid_shape (py_strip (or_empty v)) \<Longrightarrow> \<not> passed (business_id_checksum v)"
  by (cases "business_id_match (py_strip (or_empty v))")
     (simp_all add: business_id_checksum_def bid_shape_def business_id_result_def Let_def)

lemma business_id_checksum_strip:
  "business_id_checksum v = business_id_checksum (Some (py_strip (or_empty v)))"
  by (simp add: business_id_checksum_def)

lemma bid_shape_parts:
  assumes "bid_shape s"
  shows "length s = 9" and "i < 9 \<Longrightarrow> i \<noteq> 7 \<Longrightarrow> is_decimal (s ! i)" and "s ! 7 = CHR ''-''"
proof -
  show "length s = 9" and "s ! 7 = CHR ''-''"
    using assms by (auto simp: bid_shape_def business_id_match_def split: if_splits)
  have "\<forall>j<7. is_decimal (s ! j)" and "is_decimal (s ! 8)"
    using assms by (auto simp: bid_shape_def business_id_match_def list_all_length split: if_splits)
  moreover assume "i < 9" "i \<noteq> 7"
  then have "i < 7 \<or> i = 8" by auto
  ultimately show "is_decimal (s ! i)" by auto
qed

lemma bid_shapeI:
  assumes "length s = 9" "\<And>i. i < 9 \<Longrightarrow> i \<noteq> 7 \<Longrightarrow> is_decimal (s ! i)" "s ! 7 = CHR ''-''"
  shows "bid_shape s"
  using assms by (auto simp: bid_shape_def business_id_match_def list_all_length)

lemma bid_shape_update:
  assumes "bid_shape s" "i \<noteq> 7" "is_decimal d"
  shows "bid_shape (s[i := d])"
proof (rule bid_shapeI)
  note s = bid_shape_parts [OF assms(1)]
  show "length (s[i := d]) = 9" and "s[i := d] ! 7 = CHR ''-''"
    using s assms(2) by (simp_all add: nth_list_update)
  show "is_decimal (s[i := d] ! j)" if "j < 9" "j \<noteq> 7" for j
    using s(1) s(2) [OF that] that assms(3) by (cases "i = j") simp_all
qed

text \<open>Replacing the digit at position \<open>i\<close> of the code replaces one entry of the digit list.\<close>

definition bid_index :: "nat \<Rightarrow> nat" where
  "bid_index i = (if i < 7 then i else i - 1)"

lemma bid_digits_update:
  assumes "length s = 9" "i < 9" "i \<noteq> 7"
  shows "bid_digits (s[i := d]) = (bid_digits s)[bid_index i := int (digit_val d)]"
    and "bid_digits s ! bid_index i = int (digit_val (s ! i))" and "bid_index i < length (bid_digits s)"
proof -
  obtain a b c p e f g h k where s: "s = [a, b, c, p, e, f, g, h, k]"
    using assms(1) by (rule list_of_length_9)
  have "i \<in> {0, 1, 2, 3, 4, 5, 6, 8}" using assms(2,3) by auto
  then show "bid_digits (s[i := d]) = (bid_digits s)[bid_index i := int (digit_val d)]"
    and "bid_digits s ! bid_index i = int (digit_val (s ! i))" and "bid_index i < length (bid_digits s)"
    by (auto simp: s bid_digits_def digit_ints_def bid_index_def)
qed

lemma bid_rejects_subst:
  assumes "bid_shape s" "wsum bid_weight (bid_digits s) mod 11 = 0" "digit_subst s s'"
  shows "\<not> passed (business_id_checksum (Some s'))"
  using assms(3)
proof cases
  case (1 i d)
  note s = bid_shape_parts [OF assms(1)]
  have i: "i < 9" "i \<noteq> 7" using 1 s by (auto simp: is_decimal_def)
  have shape: "bid_shape s'" unfolding 1(1) using assms(1) i(2) 1(4) by (rule bid_shape_update)
  note upd = bid_digits_update [OF s(1) i]
  show ?thesis
  proof
    assume "passed (business_id_checksum (Some s'))"
    then have "wsum bid_weight (bid_digits s') mod 11 = 0"
      by (simp add: business_id_checksum_shape [OF shape])
    then have "int (digit_val d) = bid_digits s ! bid_index i"
      using assms(2) upd(1) [of d] upd(2) 1 digit_diff_less_10 [of d "s ! i"]
      by (intro bid.substitution_detected [OF upd(3)]) simp_all
    then show False using 1 upd(2) by (simp add: digit_val_inject)
  qed
qed

lemma bid_rejects_swap:
  assumes "bid_shape s" "wsum bid_weight (bid_digits s) mod 11 = 0" "digit_swap s s'"
  shows "\<not> passed (business_id_checksum (Some s'))"
  using assms(3)
proof cases
  case (1 i j)
  note s = bid_shape_parts [OF assms(1)]
  have i: "i < 9" "i \<noteq> 7" and j: "j < 9" "j \<noteq> 7" using 1 s by (auto simp: is_decimal_def)
  have shape: "bid_shape s'" unfolding 1(1) using assms(1) i j 1 by (intro bid_shape_update) auto
  have len: "length (s[i := s ! j]) = 9" using s(1) by simp
  note di = bid_digits_update [OF s(1) i] and dj = bid_digits_update [OF s(1) j]
  have upd: "bid_digits s' = (bid_digits s)[bid_index i := bid_digits s ! bid_index j,
      bid_index j := bid_digits s ! bid_index i]"
    unfolding 1(1) using bid_digits_update(1) [OF len j] di dj by simp
  have order: "bid_index i < bid_index j" using i j 1(2) by (auto simp: bid_index_def)
  have eight: "length (bid_digits s) \<le> 8" using s(1) by (simp add: bid_digits_def)
  show ?thesis
  proof
    assume "passed (business_id_checksum (Some s'))"
    then have "wsum bid_weight (bid_digits s') mod 11 = 0"
      by (simp add: business_id_checksum_shape [OF shape])
    then have "bid_digits s ! bid_index i = bid_digits s ! bid_index j"
      using assms(2) upd di dj 1 digit_diff_less_10 [of "s ! j" "s ! i"]
      by (intro bid.transposition_detected [OF order dj(3) eight]) simp_all
    then show False using 1 di dj by (simp add: digit_val_inject)
  qed
qed

section \<open>Properties\<close>

text \<open>
  C4: A business id is accepted exactly when its stripped text is seven digits, a hyphen and a check
  digit whose weighted sum, with weights 7, 9, 10, 5, 8, 4, 2 and 1 for the check digit, is divisible
  by 11.  In particular no code whose remainder is 1 has a valid check digit.
\<close>

theorem business_id_accepts_iff:
  "passed (business_id_checksum v) \<longleftrightarrow>
     bid_shape (py_strip (or_empty v)) \<and> wsum bid_weight (bid_digits (py_strip (or_empty v))) mod 11 = 0"
  using business_id_checksum_shape business_id_checksum_not_shape business_id_checksum_strip
  by metis

text \<open>
  C5: Changing any one digit of an accepted business id to another digit, or swapping two
  different digits of it, makes it rejected.
\<close>

theorem business_id_detects_typos:
  assumes "passed (business_id_checksum (Some s))" and "py_strip s = s" and "digit_typo s s'"
  shows "\<not> passed (business_id_checksum (Some s'))"
proof -
  have shape: "bid_shape s" using assms(1,2) business_id_checksum_not_shape [of "Some s"] by auto
  moreover have "wsum bid_weight (bid_digits s) mod 11 = 0"
    using assms(1) business_id_checksum_shape [OF shape] by simp
  ultimately show ?thesis
    using assms(3) bid_rejects_subst bid_rejects_swap unfolding digit_typo_def by metis
qed

theorem business_id_detects_typos_witness:
  "passed (business_id_checksum (Some ''2617416-4'')) \<and>
   \<not> passed (business_id_checksum (Some ''2617461-4''))"
proof -
  have ok: "passed (business_id_checksum (Some ''2617416-4''))"
    by (simp add: eval_simps)
  moreover have "py_strip ''2617416-4'' = ''2617416-4''" by (simp add: eval_simps)
  moreover have "digit_typo ''2617416-4'' ''2617461-4''"
    using digit_swap.intros [of 5 6 "''2617416-4''"] by (simp add: digit_typo_def char_simps)
  ultimately show ?thesis using business_id_detects_typos by blast
qed

end
