(* ===== verification/Iban.thy ===== *)
theory Iban
  imports Checksum
begin

text \<open>
  \<open>validators/iban.py\<close>: the ISO 13616 checksum.  \<open>mod97\<close> is the routine \<open>_mod97\<close> that
  the creditor reference of \<open>validators/reference.py\<close> uses too; it can raise, because
  \<open>str.isdigit\<close> accepts superscript digits that \<open>int()\<close> does not.  Shown here: which texts are
  accepted, exactly when the validator raises, that the ISO check digits of any account number are
  accepted, and that every wrong digit and every swap of two digits is rejected.
\<close>

section \<open>The code\<close>

definition RULE_iban :: string where
  "RULE_iban = ''iban_checksum''"

definition FIELD_iban :: string where
  "FIELD_iban = ''iban''"

definition FI_LENGTH :: nat where
  "FI_LENGTH = 18"

definition iban_compact :: "string \<Rightarrow> string" where
  "iban_compact value = py_upper (concat (py_split value))"

text \<open>The loop of \<open>_mod97\<close>; \<open>None\<close> stands for its early \<open>return -1\<close>.\<close>

fun mod97_digits :: "string \<Rightarrow> string option" where
  "mod97_digits [] = Some []"
| "mod97_digits (c # cs) =
     (if is_digit c then map_option (\<lambda>ds. c # ds) (mod97_digits cs)
      else if is_upper_az c then map_option (\<lambda>ds. str_nat (code c - 55) @ ds) (mod97_digits cs)
      else None)"

definition mod97 :: "string \<Rightarrow> int res" where
  "mod97 iban =
     (case mod97_digits (drop 4 iban @ take 4 iban) of
        None \<Rightarrow> Inr (-1)
      | Some digits \<Rightarrow> rbind (py_int digits) (\<lambda>n. Inr (n mod 97)))"

definition iban_result :: "bool \<Rightarrow> pydict \<Rightarrow> rule_result" where
  "iban_result ok ds = \<lparr>rule = RULE_iban, field = FIELD_iban, passed = ok, details = ds\<rparr>"

definition iban_checksum :: "string option \<Rightarrow> rule_result res" where
  "iban_checksum value =
     (let raw = py_strip (or_empty value)
      in if raw = [] then Inr (iban_result False [(''reason'', PStr ''empty'')])
         else let c = iban_compact raw
         in if length c < 15 \<or> length c > 34
            then Inr (iban_result False [(''reason'', PStr ''length''), (''length'', PInt (int (length c)))])
            else if \<not> py_isalpha (take 2 c) \<or> \<not> py_isdigit (take 2 (drop 2 c))
            then Inr (iban_result False [(''reason'', PStr ''format'')])
            else if prefix ''FI'' c \<and> length c \<noteq> FI_LENGTH
            then Inr (iban_result False
                   [(''reason'', PStr ''fi_length''), (''length'', PInt (int (length c))),
                    (''expected'', PInt (int FI_LENGTH))])
            else rbind (mod97 c) (\<lambda>remainder.
              if remainder < 0 then Inr (iban_result False [(''reason'', PStr ''charset'')])
              else if remainder \<noteq> 1
              then Inr (iban_result False
                     [(''reason'', PStr ''checksum''), (''remainder'', PInt remainder)])
              else Inr (iban_result True
                     [(''country'', PStr (take 2 c)), (''length'', PInt (int (length c)))])))"

lemmas iban_defs [eval_simps] =
  RULE_iban_def FIELD_iban_def FI_LENGTH_def iban_compact_def mod97_def iban_result_def iban_checksum_def

section \<open>The number behind an IBAN\<close>

definition iban_char :: "char \<Rightarrow> bool" where
  "iban_char c \<longleftrightarrow> is_decimal c \<or> is_upper_az c"

definition expand_char :: "char \<Rightarrow> string" where
  "expand_char c = (if is_digit c then [c] else str_nat (code c - 55))"

definition expand :: "string \<Rightarrow> string" where
  "expand s = concat (map expand_char s)"

definition iban_number :: "string \<Rightarrow> nat" where
  "iban_number s = int_of_digits (expand (drop 4 s @ take 4 s))"

lemma upper_az_not_digit: "is_upper_az c \<Longrightarrow> \<not> is_digit c"
  by (simp add: alpha_not_digit)

lemma expand_Nil [simp]: "expand [] = []"
  by (simp add: expand_def)

lemma expand_Cons [simp]: "expand (c # s) = expand_char c @ expand s"
  by (simp add: expand_def)

lemma expand_append [simp]: "expand (s @ t) = expand s @ expand t"
  by (simp add: expand_def)

lemma mod97_digits_eq:
  "mod97_digits s = (if list_all (\<lambda>c. is_digit c \<or> is_upper_az c) s then Some (expand s) else None)"
  by (induction s) (auto simp: expand_char_def upper_az_not_digit)

lemma expand_upper_az:
  assumes "is_upper_az c"
  shows "list_all is_decimal (expand_char c)" and "length (expand_char c) = 2"
proof -
  show "list_all is_decimal (expand_char c)"
    using assms by (simp add: expand_char_def upper_az_not_digit str_nat_decimal)
  have "10 \<le> code c - 55" "code c - 55 < 100" using assms by (auto simp: is_upper_az_def)
  then show "length (expand_char c) = 2"
    using assms by (simp add: expand_char_def upper_az_not_digit str_nat_step)
qed

lemma expand_decimal_iff:
  assumes "list_all (\<lambda>c. is_digit c \<or> is_upper_az c) s"
  shows "list_all is_decimal (expand s) \<longleftrightarrow> list_all iban_char s"
  using assms
proof (induction s)
  case Nil
  then show ?case by simp
next
  case (Cons c s)
  then show ?case
    by (cases "is_digit c") (auto simp: expand_upper_az iban_char_def expand_char_def upper_az_not_digit
        str_nat_decimal)
qed

lemma expand_is_digit:
  "list_all (\<lambda>c. is_digit c \<or> is_upper_az c) s \<Longrightarrow> list_all is_digit (expand s)"
proof (induction s)
  case Nil
  then show ?case by simp
next
  case (Cons c s)
  moreover have "is_upper_az c \<Longrightarrow> list_all is_digit (expand_char c)"
    using expand_upper_az [of c] by (auto simp: list_all_iff)
  ultimately show ?case by (auto simp: expand_char_def)
qed

lemma length_expand: "list_all (\<lambda>c. is_digit c \<or> is_upper_az c) s \<Longrightarrow>
    length s \<le> length (expand s) \<and> length (expand s) \<le> 2 * length s"
proof (induction s)
  case Nil
  then show ?case by simp
next
  case (Cons c s)
  then show ?case using expand_upper_az [of c] by (auto simp: expand_char_def)
qed

text \<open>What \<open>_mod97\<close> returns: -1 outside digits and A-Z, an exception on a superscript digit.\<close>

lemma mod97_cases:
  assumes "s \<noteq> []" "length s \<le> 2000"
  shows "mod97 s =
     (if list_all iban_char s then Inr (int (iban_number s) mod 97)
      else if list_all (\<lambda>c. is_digit c \<or> is_upper_az c) s then Inl ValueError
      else Inr (-1))"
proof -
  let ?r = "drop 4 s @ take 4 s"
  have perm: "list_all P ?r \<longleftrightarrow> list_all P s" for P
    by (metis append_take_drop_id list_all_append)
  have implies: "list_all iban_char s \<Longrightarrow> list_all (\<lambda>c. is_digit c \<or> is_upper_az c) s"
    by (auto simp: list_all_iff iban_char_def)
  have ne: "?r \<noteq> []" using assms(1) by (metis append_is_Nil_conv append_take_drop_id)
  show ?thesis
  proof (cases "list_all (\<lambda>c. is_digit c \<or> is_upper_az c) s")
    case True
    then have T: "list_all (\<lambda>c. is_digit c \<or> is_upper_az c) ?r" by (simp only: perm)
    have len: "length (expand ?r) \<le> 4300" and "expand ?r \<noteq> []"
      using length_expand [OF T] assms ne by auto
    show ?thesis
    proof (cases "list_all iban_char s")
      case ok: True
      then have "list_all is_decimal (expand ?r)" using expand_decimal_iff [OF T] perm by simp
      then have "py_int (expand ?r) = Inr (int (iban_number s))"
        unfolding iban_number_def using \<open>expand ?r \<noteq> []\<close> len by (intro py_int_decimal)
      then show ?thesis using T ok by (simp add: mod97_def mod97_digits_eq)
    next
      case False
      then have "\<not> list_all is_decimal (expand ?r)" using expand_decimal_iff [OF T] perm by simp
      then have "py_int (expand ?r) = Inl ValueError" by (rule py_int_bad_digit [OF expand_is_digit [OF T]])
      then show ?thesis using T True False by (simp add: mod97_def mod97_digits_eq)
    qed
  next
    case False
    moreover have "\<not> list_all (\<lambda>c. is_digit c \<or> is_upper_az c) ?r"
      unfolding perm by (rule False)
    ultimately show ?thesis using implies by (auto simp: mod97_def mod97_digits_eq)
  qed
qed

section \<open>Acceptance\<close>

definition iban_format :: "string \<Rightarrow> bool" where
  "iban_format c \<longleftrightarrow> 15 \<le> length c \<and> length c \<le> 34 \<and> py_isalpha (take 2 c) \<and> py_isdigit (take 2 (drop 2 c))
     \<and> (prefix ''FI'' c \<longrightarrow> length c = FI_LENGTH)"

definition iban_text :: "string option \<Rightarrow> string" where
  "iban_text v = iban_compact (py_strip (or_empty v))"

lemma iban_compact_Nil [simp]: "iban_compact [] = []"
  by (simp add: iban_compact_def py_upper_def concat_py_split)

lemma iban_checksum_mod97:
  assumes "iban_format (iban_text v)"
  shows "iban_checksum v = rbind (mod97 (iban_text v)) (\<lambda>remainder.
     if remainder < 0 then Inr (iban_result False [(''reason'', PStr ''charset'')])
     else if remainder \<noteq> 1
     then Inr (iban_result False [(''reason'', PStr ''checksum''), (''remainder'', PInt remainder)])
     else Inr (iban_result True
            [(''country'', PStr (take 2 (iban_text v))), (''length'', PInt (int (length (iban_text v))))]))"
proof -
  have "py_strip (or_empty v) \<noteq> []"
    using assms by (auto simp: iban_format_def iban_text_def)
  then show ?thesis
    using assms unfolding iban_text_def by (auto simp: iban_checksum_def iban_format_def Let_def)
qed

lemma iban_checksum_bad_format:
  assumes "\<not> iban_format (iban_text v)"
  obtains r where "iban_checksum v = Inr r" and "\<not> passed r"
proof -
  have "\<exists>r. iban_checksum v = Inr r \<and> \<not> passed r"
    using assms
    by (auto simp: iban_checksum_def iban_format_def iban_text_def Let_def iban_result_def not_less)
  then show ?thesis using that by blast
qed

lemma iban_format_bounds: "iban_format c \<Longrightarrow> c \<noteq> [] \<and> length c \<le> 2000"
  by (auto simp: iban_format_def)

lemma iban_accepts_formatted:
  assumes "iban_format (iban_text v)"
  shows "(\<exists>r. iban_checksum v = Inr r \<and> passed r) \<longleftrightarrow>
     list_all iban_char (iban_text v) \<and> iban_number (iban_text v) mod 97 = 1"
proof -
  let ?c = "iban_text v"
  have m: "mod97 ?c = (if list_all iban_char ?c then Inr (int (iban_number ?c) mod 97)
      else if list_all (\<lambda>c. is_digit c \<or> is_upper_az c) ?c then Inl ValueError else Inr (-1))"
    using iban_format_bounds [OF assms] by (intro mod97_cases) auto
  have "\<not> int n mod 97 < 0" for n by (simp add: not_less)
  then show ?thesis
    unfolding iban_checksum_mod97 [OF assms] m
    by (simp add: iban_result_def int_mod_eq_1 del: of_nat_mod)
qed

section \<open>Error detection\<close>

text \<open>The divisors of the prime 97, and the powers of ten below its order.\<close>

lemma divisor_97:
  assumes "(d :: nat) dvd 97"
  shows "d = 1 \<or> d = 97"
proof -
  obtain k where k: "97 = d * k" using assms by (rule dvdE)
  have "d < 10 \<or> k < 10"
  proof (rule ccontr)
    assume "\<not> (d < 10 \<or> k < 10)"
    then have "10 * 10 \<le> d * k" by (intro mult_le_mono) auto
    with k show False by simp
  qed
  moreover have "n \<le> 1" if "n < 10" "97 = n * l" for n l :: nat
  proof -
    have "n \<in> {0, 1, 2, 3, 4, 5, 6, 7, 8, 9}" using that(1) by auto
    then show ?thesis using that(2) by (elim insertE emptyE) (simp_all, presburger+)
  qed
  ultimately have "d \<le> 1 \<or> k \<le> 1" using k by (metis mult.commute)
  then show ?thesis using k by (auto simp: le_Suc_eq)
qed

lemma coprime_97:
  assumes "x mod 97 \<noteq> (0 :: int)"
  shows "coprime x 97"
proof (rule coprimeI)
  fix k :: int
  assume k: "k dvd x" "k dvd 97"
  then have "nat \<bar>k\<bar> dvd 97" by (metis int_dvd_int_iff nat_0_le abs_dvd_iff abs_ge_zero of_nat_numeral)
  then have "nat \<bar>k\<bar> = 1 \<or> nat \<bar>k\<bar> = 97" by (rule divisor_97)
  then have "\<bar>k\<bar> = 1 \<or> \<bar>k\<bar> = 97" by linarith
  moreover have "\<bar>k\<bar> \<noteq> 97" using k(1) assms by (metis abs_dvd_iff dvd_eq_mod_eq_0)
  ultimately show "is_unit k" by simp
qed

fun no_unit_power :: "nat \<Rightarrow> int \<Rightarrow> bool" where
  "no_unit_power 0 x \<longleftrightarrow> True"
| "no_unit_power (Suc n) x \<longleftrightarrow> x \<noteq> 1 \<and> no_unit_power n (10 * x mod 97)"

lemma no_unit_power_numeral:
  "no_unit_power (numeral n) x \<longleftrightarrow> x \<noteq> 1 \<and> no_unit_power (pred_numeral n) (10 * x mod 97)"
  unfolding numeral_eq_Suc [of n] by (rule no_unit_power.simps)

lemma no_unit_power_sound:
  "no_unit_power n (10 ^ j mod 97) \<Longrightarrow> k < n \<Longrightarrow> 10 ^ (j + k) mod 97 \<noteq> (1 :: int)"
proof (induction n arbitrary: j k)
  case 0
  then show ?case by simp
next
  case (Suc n)
  have "10 * (10 ^ j mod 97) mod 97 = (10 ^ Suc j mod 97 :: int)" by (simp add: mod_mult_right_eq)
  with Suc show ?case by (cases k) (simp_all add: Suc.IH [of "Suc j", simplified])
qed

lemma power_ten_order: "0 < k \<Longrightarrow> k < 96 \<Longrightarrow> (10 ^ k - 1) mod 97 \<noteq> (0 :: int)"
proof -
  assume k: "0 < k" "k < 96"
  have "no_unit_power 95 (10 ^ 1 mod 97)" by (simp add: no_unit_power_numeral)
  then have "10 ^ (1 + (k - 1)) mod 97 \<noteq> (1 :: int)"
    by (rule no_unit_power_sound) (use k in simp)
  then have "10 ^ k mod 97 \<noteq> (1 mod 97 :: int)" using k(1) by simp
  then show ?thesis by (metis dvd_eq_mod_eq_0 mod_eq_dvd_iff)
qed

interpretation iban97: transposition_checksum 97 "\<lambda>i. 10 ^ i" 96
proof
  show "coprime (10 ^ i) (97 :: int)" for i
    by (rule coprime_power_left_iff [THEN iffD2]) (simp add: coprime_97)
  show "coprime (10 ^ i - 10 ^ j) (97 :: int)" if "i < j" "j < 96" for i j :: nat
  proof -
    have "10 ^ i - 10 ^ j = - (10 ^ i * (10 ^ (j - i) - 1) :: int)"
      using that by (simp add: right_diff_distrib flip: power_add)
    moreover have "coprime (10 ^ i * (10 ^ (j - i) - 1)) (97 :: int)"
      using that power_ten_order [of "j - i"]
      by (simp add: coprime_mult_left_iff coprime_97)
    ultimately show ?thesis by simp
  qed
qed simp

lemma int_of_digits_wsum:
  "int (int_of_digits s) = wsum (\<lambda>i. 10 ^ i) (rev (digit_ints s))"
proof (induction s)
  case Nil
  then show ?case by (simp add: digit_ints_def)
next
  case (Cons c s)
  then show ?case by (simp add: int_of_digits_Cons digit_ints_def wsum_snoc)
qed

text \<open>
  Replacing a digit of the account text replaces one digit of its number: \<open>digit_index s p\<close> is the
  power of ten that position \<open>p\<close> of the rearranged text has in the number.
\<close>

definition digit_index :: "string \<Rightarrow> nat \<Rightarrow> nat" where
  "digit_index s p = length (expand (drop (Suc p) s))"

lemma expand_update:
  assumes "p < length s" "is_decimal (s ! p)" "is_decimal d"
  shows "rev (digit_ints (expand (s[p := d])))
       = (rev (digit_ints (expand s)))[digit_index s p := int (digit_val d)]"
    and "rev (digit_ints (expand s)) ! digit_index s p = int (digit_val (s ! p))"
    and "digit_index s p < length (expand s)"
proof -
  have s: "s = take p s @ s ! p # drop (Suc p) s" using assms(1) by (rule id_take_nth_drop)
  have s': "s[p := d] = take p s @ d # drop (Suc p) s" using assms(1) by (rule upd_conv_take_nth_drop)
  have one: "expand_char c = [c]" if "is_decimal c" for c using that by (simp add: expand_char_def)
  let ?A = "rev (digit_ints (expand (take p s)))" and ?B = "rev (digit_ints (expand (drop (Suc p) s)))"
  have e: "rev (digit_ints (expand s)) = ?B @ int (digit_val (s ! p)) # ?A"
    by (subst s) (simp add: one assms(2) digit_ints_def)
  have e': "rev (digit_ints (expand (s[p := d]))) = ?B @ int (digit_val d) # ?A"
    by (subst s') (simp add: one assms(3) digit_ints_def)
  have len: "length ?B = digit_index s p" by (simp add: digit_index_def)
  show "rev (digit_ints (expand (s[p := d])))
      = (rev (digit_ints (expand s)))[digit_index s p := int (digit_val d)]"
    unfolding e e' using len by (simp add: list_update_append)
  show "rev (digit_ints (expand s)) ! digit_index s p = int (digit_val (s ! p))"
    unfolding e using len by (simp add: nth_append)
  have "length (rev (digit_ints (expand s))) = length ?B + 1 + length ?A" unfolding e by simp
  then show "digit_index s p < length (expand s)" using len by simp
qed

lemma digit_index_less:
  assumes "p < q" "q < length s" "is_decimal (s ! q)"
  shows "digit_index s q < digit_index s p"
proof -
  have "drop (Suc p) s = take (q - Suc p) (drop (Suc p) s) @ s ! q # drop (Suc q) s"
    using assms(1,2) id_take_nth_drop [of "q - Suc p" "drop (Suc p) s"] by simp
  then have "length (expand (drop (Suc p) s))
      = length (expand (take (q - Suc p) (drop (Suc p) s) @ s ! q # drop (Suc q) s))"
    by (rule arg_cong)
  then show ?thesis using assms(3) by (simp add: digit_index_def expand_char_def)
qed

lemma number_substitution:
  assumes "p < length s" "is_decimal (s ! p)" "is_decimal d" "d \<noteq> s ! p"
  shows "int_of_digits (expand (s[p := d])) mod 97 \<noteq> int_of_digits (expand s) mod 97"
proof
  assume "int_of_digits (expand (s[p := d])) mod 97 = int_of_digits (expand s) mod 97"
  then have eq: "int (int_of_digits (expand s)) mod 97 = int (int_of_digits (expand (s[p := d]))) mod 97"
    by (simp only: int_mod_numeral)
  note u = expand_update [OF assms(1-3)]
  have "int (digit_val d) = rev (digit_ints (expand s)) ! digit_index s p"
    using eq u digit_diff_less_10 [OF assms(3,2)]
    by (intro iban97.substitution_detected) (simp_all only: int_of_digits_wsum length_rev length_digit_ints)
  then show False using u(2) assms by (simp add: digit_val_inject)
qed

lemma number_swap:
  assumes "p < q" "q < length s" "is_decimal (s ! p)" "is_decimal (s ! q)" "s ! p \<noteq> s ! q"
    and "length (expand s) \<le> 96"
  shows "int_of_digits (expand (s[p := s ! q, q := s ! p])) mod 97 \<noteq> int_of_digits (expand s) mod 97"
proof
  let ?s' = "s[p := s ! q, q := s ! p]" and ?D = "rev (digit_ints (expand s))"
  let ?i = "digit_index s p" and ?j = "digit_index s q"
  assume "int_of_digits (expand ?s') mod 97 = int_of_digits (expand s) mod 97"
  then have eq: "int (int_of_digits (expand s)) mod 97 = int (int_of_digits (expand ?s')) mod 97"
    by (simp only: int_mod_numeral)
  note p = expand_update [of p s "s ! q"] and q = expand_update [of q s "s ! p"]
  have idx: "digit_index (s[p := s ! q]) q = ?j" using assms(1) by (simp add: digit_index_def)
  have "rev (digit_ints (expand ?s')) = ?D[?i := ?D ! ?j, ?j := ?D ! ?i]"
    using expand_update(1) [of q "s[p := s ! q]" "s ! p"] p q assms idx by simp
  also have "\<dots> = ?D[?j := ?D ! ?i, ?i := ?D ! ?j]"
    using digit_index_less [OF assms(1,2,4)] by (simp add: list_update_swap)
  finally have swapped: "rev (digit_ints (expand ?s')) = ?D[?j := ?D ! ?i, ?i := ?D ! ?j]" .
  have vals: "?D ! ?i = int (digit_val (s ! p))" "?D ! ?j = int (digit_val (s ! q))"
    using p q assms by simp_all
  have "?D ! ?j = ?D ! ?i"
  proof (rule iban97.transposition_detected)
    show "?j < ?i" by (rule digit_index_less [OF assms(1,2,4)])
    show "?i < length ?D" using p(3) assms by simp
    show "length ?D \<le> 96" using assms(6) by simp
    show "\<bar>?D ! ?i - ?D ! ?j\<bar> < 10" unfolding vals by (rule digit_diff_less_10 [OF assms(3,4)])
    show "wsum (\<lambda>i. 10 ^ i) ?D mod 97 = wsum (\<lambda>i. 10 ^ i) (?D[?j := ?D ! ?i, ?i := ?D ! ?j]) mod 97"
      using eq unfolding int_of_digits_wsum swapped .
  qed
  then show False using vals assms by (simp add: digit_val_inject)
qed

section \<open>Canonical account numbers\<close>

lemma iban_char_not_space: "iban_char c \<Longrightarrow> \<not> is_space c"
  by (auto simp: iban_char_def digit_not_space alpha_not_space)

lemma iban_text_canonical:
  assumes "list_all iban_char s"
  shows "iban_text (Some s) = s"
proof -
  have ns: "list_all (\<lambda>c. \<not> is_space c) s" using assms by (auto simp: list_all_iff iban_char_not_space)
  then have "concat (py_split s) = s" by (simp add: concat_py_split list_all_iff)
  moreover have "py_upper s = s" using assms by (intro py_upper_fixed) (simp add: list_all_iff iban_char_def)
  ultimately show ?thesis using ns by (simp add: iban_text_def iban_compact_def py_strip_no_space)
qed

lemma iban_format_nth:
  assumes "list_all iban_char s"
  shows "iban_format s \<longleftrightarrow> 15 \<le> length s \<and> length s \<le> 34 \<and> is_upper_az (s ! 0) \<and> is_upper_az (s ! 1)
     \<and> is_decimal (s ! 2) \<and> is_decimal (s ! 3)
     \<and> (s ! 0 = CHR ''F'' \<and> s ! 1 = CHR ''I'' \<longrightarrow> length s = FI_LENGTH)"
proof (cases "15 \<le> length s")
  case True
  then obtain a b c d rest where s: "s = a # b # c # d # rest"
    by (metis Suc_le_length_iff numeral_eq_Suc pred_numeral_simps(2,3) eval_nat_numeral(2,3) BitM.simps)
  have alpha: "is_alpha c \<longleftrightarrow> is_upper_az c" "is_digit c \<longleftrightarrow> is_decimal c" if "iban_char c" for c
    using that alpha_not_digit upper_az_not_digit by (auto simp: iban_char_def dest: decimal_is_digit)
  show ?thesis
    using assms by (auto simp: s iban_format_def py_isalpha_def py_isdigit_def all_chars_def alpha)
next
  case False
  then show ?thesis by (simp add: iban_format_def)
qed

lemma iban_format_update:
  assumes "list_all iban_char s" "iban_format s" "i < length s" "is_decimal (s ! i)" "is_decimal d"
  shows "list_all iban_char (s[i := d])" and "iban_format (s[i := d])"
proof -
  show chars: "list_all iban_char (s[i := d])"
    using assms(1,5) by (auto simp: list_all_iff iban_char_def dest: set_update_subset_insert [THEN subsetD])
  have "i \<noteq> 0" "i \<noteq> 1"
    using assms(2,4) iban_format_nth [OF assms(1)] decimal_is_digit upper_az_not_digit by metis+
  then show "iban_format (s[i := d])"
    using assms(2,3,5) unfolding iban_format_nth [OF assms(1)] iban_format_nth [OF chars]
    by (simp add: nth_list_update)
qed

text \<open>Position \<open>i\<close> of the account number after the first four characters have moved to the end.\<close>

definition moved :: "nat \<Rightarrow> nat \<Rightarrow> nat" where
  "moved n i = (if i < 4 then n - 4 + i else i - 4)"

lemma rearranged_update:
  assumes "i < length s" "4 \<le> length s"
  shows "drop 4 (s[i := d]) @ take 4 (s[i := d]) = (drop 4 s @ take 4 s)[moved (length s) i := d]"
    and "(drop 4 s @ take 4 s) ! moved (length s) i = s ! i"
    and "moved (length s) i < length (drop 4 s @ take 4 s)"
  using assms by (auto simp: moved_def list_update_append nth_append drop_update_swap take_update_swap
      drop_update_cancel list_update_beyond)

lemma iban_rejects_subst:
  assumes "list_all iban_char s" "iban_format s" "iban_number s mod 97 = 1" "digit_subst s s'"
  shows "list_all iban_char s' \<and> iban_format s' \<and> iban_number s' mod 97 \<noteq> 1"
  using assms(4)
proof cases
  case (1 i d)
  have "4 \<le> length s" using assms(2) by (auto simp: iban_format_def)
  note r = rearranged_update [OF 1(2) this]
  have "iban_number s' mod 97 \<noteq> iban_number s mod 97"
    unfolding iban_number_def 1(1) r(1) using r 1 by (intro number_substitution) simp_all
  then show ?thesis using iban_format_update [OF assms(1,2) 1(2-4)] 1(1) assms(3) by simp
qed

lemma iban_rejects_swap:
  assumes "list_all iban_char s" "iban_format s" "iban_number s mod 97 = 1" "digit_swap s s'"
  shows "list_all iban_char s' \<and> iban_format s' \<and> iban_number s' mod 97 \<noteq> 1"
  using assms(4)
proof cases
  case (1 i j)
  let ?r = "drop 4 s @ take 4 s" and ?i = "moved (length s) i" and ?j = "moved (length s) j"
  have len: "4 \<le> length s" "length s \<le> 34" and i: "i < length s" using assms(2) 1 by (auto simp: iban_format_def)
  note ri = rearranged_update [OF i len(1)] and rj = rearranged_update [OF 1(3) len(1)]
  have "drop 4 s' @ take 4 s' = ?r[?i := ?r ! ?j, ?j := ?r ! ?i]"
    unfolding 1(1) using rearranged_update(1) [of j "s[i := s ! j]" "s ! i"] ri rj 1 len by simp
  moreover have "?i \<noteq> ?j" using 1(2,3) len by (auto simp: moved_def)
  moreover have "length (expand ?r) \<le> 96"
  proof -
    have "list_all (\<lambda>c. is_digit c \<or> is_upper_az c) s"
      using assms(1) by (auto simp: list_all_iff iban_char_def)
    then have "list_all (\<lambda>c. is_digit c \<or> is_upper_az c) ?r"
      by (metis append_take_drop_id list_all_append)
    then show ?thesis using length_expand [of ?r] len by simp
  qed
  moreover have "?r[?i := ?r ! ?j, ?j := ?r ! ?i] = ?r[?j := ?r ! ?i, ?i := ?r ! ?j]"
    using \<open>?i \<noteq> ?j\<close> by (rule list_update_swap)
  ultimately have "iban_number s' mod 97 \<noteq> iban_number s mod 97"
    using number_swap [of ?i ?j ?r] number_swap [of ?j ?i ?r] ri rj 1
    unfolding iban_number_def by (cases "?i < ?j") (simp_all add: not_less)
  moreover have "list_all iban_char s'" and "iban_format s'"
    unfolding 1(1) using iban_format_update [OF assms(1,2) i 1(4) 1(5)] 1
    by (auto intro!: iban_format_update simp: nth_list_update)
  ultimately show ?thesis using assms(3) by simp
qed

section \<open>Properties\<close>

lemma iban_accepts_canonical:
  "(\<exists>r. iban_checksum v = Inr r \<and> passed r) \<longleftrightarrow>
     iban_format (iban_text v) \<and> list_all iban_char (iban_text v) \<and> iban_number (iban_text v) mod 97 = 1"
proof (cases "iban_format (iban_text v)")
  case True
  then show ?thesis using iban_accepts_formatted [OF True] by simp
next
  case False
  then obtain r where "iban_checksum v = Inr r" and "\<not> passed r" by (rule iban_checksum_bad_format)
  with False show ?thesis by simp
qed

text \<open>
  C1: An IBAN is accepted exactly when its text without whitespace, in upper case, has 15 to 34
  characters (18 for FI), starts with two letters and two digits, consists of digits and A-Z only, and
  the number it stands for (first four characters moved to the end, letters read as 10 to 35) leaves
  the remainder 1 modulo 97.  The text is one of Latin-1 characters, as all strings here; digits beyond them that
  \<open>str.isdigit\<close> and \<open>int()\<close> take, such as fullwidth ones, are outside the statement.
\<close>

theorem iban_accepts_iff:
  "(\<exists>r. iban_checksum v = Inr r \<and> passed r) \<longleftrightarrow>
     iban_format (iban_text v) \<and> list_all iban_char (iban_text v) \<and> iban_number (iban_text v) mod 97 = 1"
  by (rule iban_accepts_canonical)

text \<open>
  C3: For a text of Latin-1 characters, the validator raises (instead of returning a failed result) exactly when the
  well-formed text has only digits and A-Z characters in the sense of \<open>str.isdigit\<close> and one of them is a
  superscript digit, which \<open>int()\<close> does not take; the exception is always ValueError.  Beyond Latin-1 there are other
  characters of this kind, such as U+2460, which are outside the statement.
\<close>

theorem iban_raises_iff:
  "iban_checksum v = Inl e \<longleftrightarrow>
     e = ValueError \<and> iban_format (iban_text v) \<and> \<not> list_all iban_char (iban_text v)
     \<and> list_all (\<lambda>c. is_digit c \<or> is_upper_az c) (iban_text v)"
proof (cases "iban_format (iban_text v)")
  case True
  have "mod97 (iban_text v) = (if list_all iban_char (iban_text v) then Inr (int (iban_number (iban_text v)) mod 97)
      else if list_all (\<lambda>c. is_digit c \<or> is_upper_az c) (iban_text v) then Inl ValueError else Inr (-1))"
    using iban_format_bounds [OF True] by (intro mod97_cases) auto
  with True show ?thesis by (auto simp: iban_checksum_mod97)
next
  case False
  then obtain r where "iban_checksum v = Inr r" by (rule iban_checksum_bad_format)
  with False show ?thesis by simp
qed

text \<open>
  C2: Changing one digit of an accepted IBAN in canonical form, or swapping any two different digits of
  it (the check digits included), gives a text that the validator rejects without raising.
\<close>

theorem iban_detects_typos:
  assumes "iban_checksum (Some s) = Inr r" and "passed r" and "iban_text (Some s) = s" and "digit_typo s s'"
  shows "\<exists>r'. iban_checksum (Some s') = Inr r' \<and> \<not> passed r'"
proof -
  have s: "list_all iban_char s" "iban_format s" "iban_number s mod 97 = 1"
    using iban_accepts_canonical [of "Some s"] assms(1-3) by auto
  have s': "list_all iban_char s'" "iban_format s'" "iban_number s' mod 97 \<noteq> 1"
    using iban_rejects_subst [OF s] iban_rejects_swap [OF s] assms(4) unfolding digit_typo_def by metis+
  have canon: "iban_text (Some s') = s'" by (rule iban_text_canonical [OF s'(1)])
  have "mod97 s' = Inr (int (iban_number s') mod 97)"
    using mod97_cases [of s'] s'(1) iban_format_bounds [OF s'(2)] by simp
  then have "\<exists>r'. iban_checksum (Some s') = Inr r'"
    using iban_checksum_mod97 [of "Some s'"] s'(2) canon by simp
  then show ?thesis using iban_accepts_canonical [of "Some s'"] s'(3) canon by auto
qed

theorem iban_detects_typos_witness:
  "\<exists>r'. iban_checksum (Some ''FI2112345600000758'') = Inr r' \<and> \<not> passed r'"
proof -
  let ?s = "''FI2112345600000785''" and ?s' = "''FI2112345600000758''"
  have canon: "iban_text (Some ?s) = ?s"
    by (rule iban_text_canonical) (simp add: iban_char_def char_simps)
  have "\<exists>r. iban_checksum (Some ?s) = Inr r \<and> passed r"
    unfolding iban_accepts_canonical canon
    by (simp add: iban_format_def iban_char_def iban_number_def expand_def expand_char_def eval_simps)
  then obtain r where "iban_checksum (Some ?s) = Inr r" "passed r" by blast
  moreover have "digit_typo ?s ?s'"
    using digit_swap.intros [of 16 17 ?s] by (simp add: digit_typo_def char_simps)
  ultimately show ?thesis using iban_detects_typos canon by blast
qed

definition iso_check_digits :: "string \<Rightarrow> string \<Rightarrow> string" where
  "iso_check_digits country account = zpad 2 (98 - iban_number (country @ ''00'' @ account) mod 97)"

lemma zpad_2:
  assumes "k < 100"
  shows "zpad 2 k = [digit_char (k div 10), digit_char (k mod 10)]"
proof (cases "k < 10")
  case True
  moreover have "digit_char 0 = CHR ''0''" by (simp add: digit_char_def)
  ultimately show ?thesis by (simp add: zpad_def)
next
  case False
  with assms show ?thesis by (simp add: zpad_def str_nat_step)
qed

lemma int_of_digits_zpad_2: "k < 100 \<Longrightarrow> int_of_digits (zpad 2 k) = k"
  by (simp add: zpad_def)

lemma check_digits_remainder:
  fixes x :: nat
  shows "(x + (98 - x mod 97)) mod 97 = 1"
proof -
  have "x mod 97 < 97" by simp
  then have "x + (98 - x mod 97) = x div 97 * 97 + 98"
    using div_mult_mod_eq [of x 97] by linarith
  then show ?thesis by simp
qed

lemma expand_decimal: "list_all is_decimal s \<Longrightarrow> expand s = s"
  by (induction s) (simp_all add: expand_char_def)

lemma iban_number_parts:
  assumes "length cc = 2" "length kk = 2" "list_all is_decimal kk"
  shows "iban_number (cc @ kk @ account) = int_of_digits (expand (account @ cc)) * 100 + int_of_digits kk"
proof -
  have "drop 4 (cc @ kk @ account) @ take 4 (cc @ kk @ account) = (account @ cc) @ kk"
    using assms(1,2) by simp
  then have "iban_number (cc @ kk @ account) = int_of_digits (expand (account @ cc) @ kk)"
    by (simp only: iban_number_def expand_append expand_decimal [OF assms(3)])
  then show ?thesis using assms(2) by (simp add: int_of_digits_append del: expand_append)
qed

text \<open>
  Every account number has check digits the validator accepts: with the two digits of 98 minus the
  remainder (modulo 97) that the account has under the check digits 00, the validator passes.
\<close>

theorem iso_check_digits_accepted:
  assumes "length country = 2" "list_all is_upper_az country" "list_all iban_char account"
    and "11 \<le> length account" "length account \<le> 30" "country = ''FI'' \<Longrightarrow> length account = 14"
  shows "\<exists>r. iban_checksum (Some (country @ iso_check_digits country account @ account)) = Inr r \<and> passed r"
proof -
  define k where "k = 98 - iban_number (country @ ''00'' @ account) mod 97"
  let ?s = "country @ zpad 2 k @ account"
  have k: "k < 100" by (simp add: k_def)
  note z = zpad_2 [OF k]
  have dec: "list_all is_decimal (zpad 2 k)" using k by (simp add: z)
  then have chars: "list_all iban_char ?s" using assms(2,3) by (auto simp: list_all_iff iban_char_def)
  obtain c1 c2 where cc: "country = [c1, c2]" using assms(1) by (auto simp: eval_nat_numeral length_Suc_conv)
  have "iban_format ?s"
    unfolding iban_format_nth [OF chars] using assms dec by (auto simp: z cc FI_LENGTH_def)
  have "iban_number ?s = int_of_digits (expand (account @ country)) * 100 + k"
    using iban_number_parts [OF assms(1) _ dec] int_of_digits_zpad_2 [OF k] by (simp add: z)
  moreover have "iban_number (country @ ''00'' @ account) = int_of_digits (expand (account @ country)) * 100"
    using iban_number_parts [OF assms(1), of "''00''" account] by (simp add: char_simps int_of_digits_def digit_val_def)
  ultimately have "iban_number ?s mod 97 = 1" using check_digits_remainder by (simp add: k_def)
  then show ?thesis
    using iban_accepts_canonical [of "Some ?s"] iban_text_canonical [OF chars] chars \<open>iban_format ?s\<close>
    by (simp add: iso_check_digits_def k_def)
qed

theorem iso_check_digits_accepted_witness:
  "\<exists>r. iban_checksum (Some (''FI'' @ iso_check_digits ''FI'' ''12345600000785'' @ ''12345600000785'')) = Inr r
     \<and> passed r"
  by (rule iso_check_digits_accepted) (simp_all add: iban_char_def char_simps)

end
