(* ===== verification/Reference.thy ===== *)
theory Reference
  imports Iban
begin

text \<open>
  \<open>validators/reference.py\<close>: the Finnish reference number with its 7-3-1 check digit and the RF
  creditor reference of ISO 11649, which reuses \<open>_mod97\<close> of the IBAN validator.  The Finnish check is
  an instance of \<open>weighted_checksum\<close> modulo 10: a reference is accepted exactly when its weighted
  digit sum is divisible by 10, every body has exactly one valid check digit, and one wrong digit is
  always noticed.
\<close>

section \<open>The code\<close>

definition RULE_reference :: string where
  "RULE_reference = ''reference_number''"

definition FIELD_reference :: string where
  "FIELD_reference = ''reference_number''"

definition FI_WEIGHTS :: "nat list" where
  "FI_WEIGHTS = [7, 3, 1]"

definition FI_MIN_LEN :: nat where "FI_MIN_LEN = 4"
definition FI_MAX_LEN :: nat where "FI_MAX_LEN = 20"
definition RF_MIN_LEN :: nat where "RF_MIN_LEN = 5"
definition RF_MAX_LEN :: nat where "RF_MAX_LEN = 25"

definition reference_compact :: "string \<Rightarrow> string" where
  "reference_compact value = py_upper (concat (py_split value))"

definition reference_result :: "bool \<Rightarrow> pydict \<Rightarrow> rule_result" where
  "reference_result ok ds =
     \<lparr>rule = RULE_reference, field = FIELD_reference, passed = ok, details = ds\<rparr>"

text \<open>The loop over \<open>enumerate(reversed(body))\<close>; \<open>int(char)\<close> can raise.\<close>

fun finnish_total :: "nat \<Rightarrow> int \<Rightarrow> string \<Rightarrow> int res" where
  "finnish_total index tot [] = Inr tot"
| "finnish_total index tot (c # cs) =
     rbind (py_int [c]) (\<lambda>d. finnish_total (Suc index) (tot + d * int (FI_WEIGHTS ! (index mod 3))) cs)"

definition finnish_check_digit :: "string \<Rightarrow> int res" where
  "finnish_check_digit body =
     rbind (finnish_total 0 0 (rev body)) (\<lambda>total. Inr ((10 - total mod 10) mod 10))"

definition finnish_reference :: "string \<Rightarrow> rule_result res" where
  "finnish_reference c =
     (if \<not> py_isdigit c
      then Inr (reference_result False [(''reason'', PStr ''charset''), (''kind'', PStr ''finnish'')])
      else if \<not> (FI_MIN_LEN \<le> length c \<and> length c \<le> FI_MAX_LEN)
      then Inr (reference_result False
             [(''reason'', PStr ''length''), (''kind'', PStr ''finnish''), (''length'', PInt (int (length c)))])
      else rbind (py_int [last c]) (\<lambda>actual.
           rbind (finnish_check_digit (butlast c)) (\<lambda>expected.
             if actual \<noteq> expected
             then Inr (reference_result False
                    [(''reason'', PStr ''checksum''), (''kind'', PStr ''finnish''),
                     (''expected_check_digit'', PInt expected), (''actual_check_digit'', PInt actual)])
             else Inr (reference_result True
                    [(''kind'', PStr ''finnish''), (''check_digit'', PInt actual)]))))"

definition rf_reference :: "string \<Rightarrow> rule_result res" where
  "rf_reference c =
     (if \<not> (RF_MIN_LEN \<le> length c \<and> length c \<le> RF_MAX_LEN)
      then Inr (reference_result False
             [(''reason'', PStr ''length''), (''kind'', PStr ''rf''), (''length'', PInt (int (length c)))])
      else if \<not> py_isdigit (take 2 (drop 2 c))
      then Inr (reference_result False [(''reason'', PStr ''format''), (''kind'', PStr ''rf'')])
      else let payload = drop 4 c
      in if payload = [] \<or> \<not> py_isalnum payload
         then Inr (reference_result False [(''reason'', PStr ''charset''), (''kind'', PStr ''rf'')])
         else rbind (mod97 c) (\<lambda>remainder.
           if remainder < 0
           then Inr (reference_result False [(''reason'', PStr ''charset''), (''kind'', PStr ''rf'')])
           else if remainder \<noteq> 1
           then Inr (reference_result False
                  [(''reason'', PStr ''checksum''), (''kind'', PStr ''rf''), (''remainder'', PInt remainder)])
           else Inr (reference_result True
                  [(''kind'', PStr ''rf''), (''length'', PInt (int (length c)))])))"

definition reference_number :: "string option \<Rightarrow> rule_result res" where
  "reference_number value =
     (let raw = py_strip (or_empty value)
      in if raw = [] then Inr (reference_result False [(''reason'', PStr ''empty'')])
         else let c = reference_compact raw
              in if prefix ''RF'' c then rf_reference c else finnish_reference c)"

lemmas reference_defs [eval_simps] =
  RULE_reference_def FIELD_reference_def FI_WEIGHTS_def FI_MIN_LEN_def FI_MAX_LEN_def RF_MIN_LEN_def
  RF_MAX_LEN_def reference_compact_def reference_result_def finnish_check_digit_def
  finnish_reference_def rf_reference_def reference_number_def

section \<open>The Finnish check digit as a weighted sum\<close>

text \<open>Weights from the right, the check digit itself with weight 1.\<close>

definition fi_weight :: "nat \<Rightarrow> int" where
  "fi_weight i = (if i = 0 then 1 else int (FI_WEIGHTS ! ((i - 1) mod 3)))"

interpretation fi: weighted_checksum 10 fi_weight
proof
  fix i :: nat
  have "(i - 1) mod 3 \<in> {0, 1, 2}" by auto
  then have "(fi_weight i * fi_weight i ^ 3) mod 10 = 1"
    by (auto simp: fi_weight_def FI_WEIGHTS_def)
  then show "coprime (fi_weight i) 10" by (rule coprime_inverse)
qed simp

definition fi_digits :: "string \<Rightarrow> int list" where
  "fi_digits s = rev (digit_ints s)"

lemma py_int_digit: "is_decimal c \<Longrightarrow> py_int [c] = Inr (int (digit_val c))"
  using py_int_decimal [of "[c]"] by (simp add: int_of_digits_def)

lemma finnish_total_eq:
  "list_all is_decimal cs \<Longrightarrow>
   finnish_total index tot cs
     = Inr (tot + wsum (\<lambda>i. int (FI_WEIGHTS ! ((index + i) mod 3))) (digit_ints cs))"
proof (induction cs arbitrary: index tot)
  case Nil
  then show ?case by (simp add: digit_ints_def)
next
  case (Cons c cs)
  then show ?case by (simp add: py_int_digit digit_ints_def wsum_Cons algebra_simps)
qed

lemma check_digit_mod_10:
  fixes t a :: int
  assumes "0 \<le> a" "a < 10"
  shows "a = (10 - t mod 10) mod 10 \<longleftrightarrow> (a + t) mod 10 = 0"
proof -
  define r where "r = t mod 10"
  have r: "0 \<le> r" "r < 10" by (simp_all add: r_def)
  have window: "n mod 10 = 0 \<longleftrightarrow> n = 0 \<or> n = 10" if "0 \<le> n" "n < 20" for n :: int
  proof (cases "n < 10")
    case True
    with that show ?thesis by simp
  next
    case False
    with that have "(n - 10) mod 10 = n - 10" by (intro mod_pos_pos_trivial) simp_all
    with False that show ?thesis by simp
  qed
  have "(10 - r) mod 10 = (if r = 0 then 0 else 10 - r)"
  proof (cases "r = 0")
    case False
    with r have "(10 - r) mod 10 = 10 - r" by (intro mod_pos_pos_trivial) simp_all
    then show ?thesis by (simp only: False if_False)
  qed simp
  moreover have "(a + t) mod 10 = (a + r) mod 10" by (simp add: r_def mod_add_right_eq)
  moreover have "(a + r) mod 10 = 0 \<longleftrightarrow> a + r = 0 \<or> a + r = 10"
    using r assms by (intro window) simp_all
  ultimately show ?thesis unfolding r_def [symmetric] using r assms by auto
qed

lemma finnish_reference_decimal:
  assumes "list_all is_decimal s" "FI_MIN_LEN \<le> length s" "length s \<le> FI_MAX_LEN"
  shows "(\<exists>r. finnish_reference s = Inr r \<and> passed r) \<longleftrightarrow> wsum fi_weight (fi_digits s) mod 10 = 0"
    and "\<exists>r. finnish_reference s = Inr r"
proof -
  obtain body c where s: "s = body @ [c]"
    using assms(2) by (cases s rule: rev_cases) (auto simp: FI_MIN_LEN_def)
  have dec: "list_all is_decimal body" "is_decimal c" using assms(1) by (simp_all add: s)
  define t where "t = wsum (\<lambda>i. int (FI_WEIGHTS ! (i mod 3))) (digit_ints (rev body))"
  have total: "finnish_check_digit body = Inr ((10 - t mod 10) mod 10)"
    using dec(1) by (simp add: finnish_check_digit_def finnish_total_eq t_def)
  have digit: "py_isdigit s" using assms by (auto simp: py_isdigit_def all_chars_def list_all_iff s)
  have sum: "wsum fi_weight (fi_digits s) = int (digit_val c) + t"
    by (simp add: fi_digits_def s digit_ints_def wsum_Cons fi_weight_def t_def rev_map)
  have iff: "int (digit_val c) = (10 - t mod 10) mod 10 \<longleftrightarrow> (int (digit_val c) + t) mod 10 = 0"
    using digit_val_less_10 [OF dec(2)] by (intro check_digit_mod_10) simp_all
  have eval: "finnish_reference s =
      (if int (digit_val c) \<noteq> (10 - t mod 10) mod 10
       then Inr (reference_result False
              [(''reason'', PStr ''checksum''), (''kind'', PStr ''finnish''),
               (''expected_check_digit'', PInt ((10 - t mod 10) mod 10)),
               (''actual_check_digit'', PInt (int (digit_val c)))])
       else Inr (reference_result True
              [(''kind'', PStr ''finnish''), (''check_digit'', PInt (int (digit_val c)))]))"
    using digit assms(2,3) dec(2) total by (simp add: finnish_reference_def s py_int_digit)
  show "(\<exists>r. finnish_reference s = Inr r \<and> passed r) \<longleftrightarrow> wsum fi_weight (fi_digits s) mod 10 = 0"
    unfolding eval sum iff [symmetric] by (simp add: reference_result_def)
  show "\<exists>r. finnish_reference s = Inr r" unfolding eval by simp
qed

lemma reference_text_canonical:
  assumes "list_all is_decimal s"
  shows "reference_compact (py_strip s) = s" and "\<not> prefix ''RF'' s"
proof -
  have "iban_text (Some s) = s"
    using assms by (intro iban_text_canonical) (simp add: list_all_iff iban_char_def)
  then show "reference_compact (py_strip s) = s"
    by (simp add: iban_text_def iban_compact_def reference_compact_def)
  show "\<not> prefix ''RF'' s" using assms by (cases s) (auto simp: is_decimal_def)
qed

lemma reference_number_decimal:
  assumes "list_all is_decimal s" "s \<noteq> []"
  shows "reference_number (Some s) = finnish_reference s"
proof -
  have "py_strip s = s"
    using assms(1) by (intro py_strip_no_space) (auto simp: list_all_iff digit_not_space)
  with assms(2) reference_text_canonical [OF assms(1)] show ?thesis
    by (simp add: reference_number_def)
qed

lemma fi_digits_update:
  assumes "i < length s"
  shows "fi_digits (s[i := d]) = (fi_digits s)[length s - Suc i := int (digit_val d)]"
    and "fi_digits s ! (length s - Suc i) = int (digit_val (s ! i))"
  using assms by (simp_all add: fi_digits_def digit_ints_update rev_update rev_nth)

lemma fi_digits_snoc: "fi_digits (s @ [c]) = int (digit_val c) # fi_digits s"
  by (simp add: fi_digits_def digit_ints_def)

section \<open>Properties\<close>

text \<open>
  For every body of 3 to 19 digits there is exactly one check digit with which the Finnish
  reference number is accepted.
\<close>

theorem finnish_reference_unique_check_digit:
  assumes "list_all is_decimal body" "3 \<le> length body" "length body \<le> 19"
  shows "\<exists>!c. is_decimal c \<and> (\<exists>r. reference_number (Some (body @ [c])) = Inr r \<and> passed r)"
proof -
  define t where "t = wsum (\<lambda>i. fi_weight (Suc i)) (fi_digits body)"
  have iff: "(\<exists>r. reference_number (Some (body @ [c])) = Inr r \<and> passed r)
      \<longleftrightarrow> int (digit_val c) = (10 - t mod 10) mod 10" if "is_decimal c" for c
  proof -
    have d: "list_all is_decimal (body @ [c])" using assms(1) that by simp
    have "(\<exists>r. reference_number (Some (body @ [c])) = Inr r \<and> passed r)
        \<longleftrightarrow> wsum fi_weight (fi_digits (body @ [c])) mod 10 = 0"
      using finnish_reference_decimal(1) [OF d] assms(2,3) reference_number_decimal [OF d]
      by (simp add: FI_MIN_LEN_def FI_MAX_LEN_def)
    also have "wsum fi_weight (fi_digits (body @ [c])) = int (digit_val c) + t"
      by (simp add: fi_digits_snoc wsum_Cons t_def fi_weight_def)
    finally show ?thesis
      using check_digit_mod_10 [of "int (digit_val c)" t] digit_val_less_10 [OF that] by simp
  qed
  define k where "k = nat ((10 - t mod 10) mod 10)"
  have k: "k < 10" "int k = (10 - t mod 10) mod 10" by (simp_all add: k_def nat_less_iff)
  show ?thesis
  proof (rule ex1I [of _ "digit_char k"])
    show "is_decimal (digit_char k) \<and> (\<exists>r. reference_number (Some (body @ [digit_char k])) = Inr r \<and> passed r)"
      using k iff [of "digit_char k"] by simp
    show "c = digit_char k"
      if "is_decimal c \<and> (\<exists>r. reference_number (Some (body @ [c])) = Inr r \<and> passed r)" for c
    proof -
      have "int (digit_val c) = int k" using that iff [of c] k(2) by simp
      then show ?thesis using that digit_char_digit_val by (metis of_nat_eq_iff)
    qed
  qed
qed

theorem finnish_reference_unique_check_digit_witness:
  "\<exists>!c. is_decimal c \<and> (\<exists>r. reference_number (Some (''12345'' @ [c])) = Inr r \<and> passed r)"
  by (rule finnish_reference_unique_check_digit) (simp_all add: char_simps)

text \<open>
  C6: Changing one digit of an accepted Finnish reference number gives a number that is rejected without
  an exception.
\<close>

theorem finnish_reference_detects_wrong_digit:
  assumes "list_all is_decimal s" and "reference_number (Some s) = Inr r" "passed r" and "digit_subst s s'"
  shows "\<exists>r'. reference_number (Some s') = Inr r' \<and> \<not> passed r'"
  using assms(4)
proof cases
  case (1 i d)
  have ne: "s \<noteq> []" using 1 by auto
  have fin: "finnish_reference s = Inr r" using assms(2) reference_number_decimal [OF assms(1) ne] by simp
  have len: "FI_MIN_LEN \<le> length s" "length s \<le> FI_MAX_LEN"
    using fin assms(3) by (auto simp: finnish_reference_def reference_result_def split: if_splits)
  have s': "list_all is_decimal s'"
    unfolding 1(1) using assms(1) 1(4) by (auto simp: list_all_iff dest: set_update_subset_insert [THEN subsetD])
  have len': "FI_MIN_LEN \<le> length s'" "length s' \<le> FI_MAX_LEN" using len 1(1) by simp_all
  note u = fi_digits_update [OF 1(2)]
  have "wsum fi_weight (fi_digits s') mod 10 \<noteq> 0"
  proof
    assume "wsum fi_weight (fi_digits s') mod 10 = 0"
    moreover have "wsum fi_weight (fi_digits s) mod 10 = 0"
      using finnish_reference_decimal(1) [OF assms(1) len] fin assms(3) by blast
    ultimately have "int (digit_val d) = fi_digits s ! (length s - Suc i)"
      using u 1 digit_diff_less_10 [of d "s ! i"]
      by (intro fi.substitution_detected) (simp_all add: fi_digits_def)
    then show False using u 1 by (simp add: digit_val_inject)
  qed
  moreover have "s' \<noteq> []" using ne 1(1) by simp
  ultimately show ?thesis
    using finnish_reference_decimal [OF s' len'] reference_number_decimal [OF s'] by auto
qed

theorem finnish_reference_detects_wrong_digit_witness:
  "\<exists>r'. reference_number (Some ''123463'') = Inr r' \<and> \<not> passed r'"
proof -
  have d: "list_all is_decimal ''123453''" by (simp add: char_simps)
  have "\<exists>r. reference_number (Some ''123453'') = Inr r \<and> passed r"
    by (simp add: eval_simps)
  then obtain r where "reference_number (Some ''123453'') = Inr r" "passed r" by blast
  moreover have "digit_subst ''123453'' ''123463''"
    using digit_subst.intros [of 4 "''123453''" "CHR ''6''"] by (simp add: char_simps)
  ultimately show ?thesis using finnish_reference_detects_wrong_digit [OF d] by blast
qed

end
