(* ===== verification/Dates.thy ===== *)
theory Dates
  imports Checksum
begin

text \<open>
  \<open>validators/dates.py\<close>: Finnish and ISO dates and the plausibility of the invoice and due dates.
  A \<open>datetime.date\<close> is a year, a month and a day ordered lexicographically; the constructor raises
  \<open>ValueError\<close> outside the calendar.  Shown: both notations of every calendar day are read back as
  that day, nothing but a calendar day is ever returned, and the rule passes exactly for an invoice
  date that is not after today and not after the due date.
\<close>

section \<open>Calendar days\<close>

datatype date = Date (year: nat) (month: nat) (day: nat)

definition leap_year :: "nat \<Rightarrow> bool" where
  "leap_year y \<longleftrightarrow> y mod 4 = 0 \<and> (y mod 100 \<noteq> 0 \<or> y mod 400 = 0)"

definition days_in_month :: "nat \<Rightarrow> nat \<Rightarrow> nat" where
  "days_in_month y m =
     (if m = 2 then (if leap_year y then 29 else 28) else if m \<in> {4, 6, 9, 11} then 30 else 31)"

definition valid_date :: "date \<Rightarrow> bool" where
  "valid_date d \<longleftrightarrow> 1 \<le> year d \<and> year d \<le> 9999 \<and> 1 \<le> month d \<and> month d \<le> 12
     \<and> 1 \<le> day d \<and> day d \<le> days_in_month (year d) (month d)"

text \<open>The constructor \<open>date(year, month, day)\<close>.\<close>

definition py_date :: "nat \<Rightarrow> nat \<Rightarrow> nat \<Rightarrow> date res" where
  "py_date y m d = (if valid_date (Date y m d) then Inr (Date y m d) else Inl ValueError)"

definition isoformat :: "date \<Rightarrow> string" where
  "isoformat d = zpad 4 (year d) @ ''-'' @ zpad 2 (month d) @ ''-'' @ zpad 2 (day d)"

instantiation date :: linorder
begin

definition less_eq_date :: "date \<Rightarrow> date \<Rightarrow> bool" where
  "less_eq_date a b \<longleftrightarrow>
     year a < year b \<or> year a = year b \<and> (month a < month b \<or> month a = month b \<and> day a \<le> day b)"

definition less_date :: "date \<Rightarrow> date \<Rightarrow> bool" where
  "less_date a b \<longleftrightarrow>
     year a < year b \<or> year a = year b \<and> (month a < month b \<or> month a = month b \<and> day a < day b)"

instance
  by standard (auto simp: less_eq_date_def less_date_def date.expand)

end

section \<open>The code\<close>

definition RULE_dates :: string where
  "RULE_dates = ''dates''"

definition FIELD_dates :: string where
  "FIELD_dates = ''invoice_date''"

text \<open>\<open>FINNISH.fullmatch\<close> and \<open>ISO.fullmatch\<close> with their groups.\<close>

definition finnish_match :: "string \<Rightarrow> (string \<times> string \<times> string) option" where
  "finnish_match s =
     (let d = takeWhile is_decimal s; r = dropWhile is_decimal s;
          m = takeWhile is_decimal (tl r); r' = dropWhile is_decimal (tl r); y = tl r'
      in if (length d = 1 \<or> length d = 2) \<and> r \<noteq> [] \<and> hd r = CHR ''.''
            \<and> (length m = 1 \<or> length m = 2) \<and> r' \<noteq> [] \<and> hd r' = CHR ''.''
            \<and> length y = 4 \<and> list_all is_decimal y
         then Some (d, m, y) else None)"

definition iso_match :: "string \<Rightarrow> (string \<times> string \<times> string) option" where
  "iso_match s =
     (if length s = 10 \<and> list_all is_decimal (take 4 s) \<and> s ! 4 = CHR ''-''
         \<and> list_all is_decimal (take 2 (drop 5 s)) \<and> s ! 7 = CHR ''-'' \<and> list_all is_decimal (drop 8 s)
      then Some (take 4 s, take 2 (drop 5 s), drop 8 s) else None)"

text \<open>\<open>try: return date(...) except ValueError: return None\<close>.\<close>

definition date_or_none :: "nat \<Rightarrow> nat \<Rightarrow> nat \<Rightarrow> date option" where
  "date_or_none y m d = (case py_date y m d of Inr x \<Rightarrow> Some x | Inl _ \<Rightarrow> None)"

definition parse_date :: "string option \<Rightarrow> date option" where
  "parse_date value =
     (let raw = py_strip (or_empty value)
      in if raw = [] then None
         else case finnish_match raw of
           Some (d, m, y) \<Rightarrow> date_or_none (int_of_digits y) (int_of_digits m) (int_of_digits d)
         | None \<Rightarrow>
             (case iso_match raw of
                Some (y, m, d) \<Rightarrow> date_or_none (int_of_digits y) (int_of_digits m) (int_of_digits d)
              | None \<Rightarrow> None))"

definition dates_result :: "bool \<Rightarrow> pydict \<Rightarrow> rule_result" where
  "dates_result ok ds = \<lparr>rule = RULE_dates, field = FIELD_dates, passed = ok, details = ds\<rparr>"

definition dates :: "string option \<Rightarrow> string option \<Rightarrow> date \<Rightarrow> rule_result" where
  "dates invoice_date due_date today =
     (if py_strip (or_empty invoice_date) = []
      then dates_result False [(''reason'', PStr ''missing_invoice_date'')]
      else case parse_date invoice_date of
        None \<Rightarrow> dates_result False
                  [(''reason'', PStr ''unparsed_invoice_date''), (''value'', opt_str invoice_date)]
      | Some parsed_invoice \<Rightarrow>
          if parsed_invoice > today
          then dates_result False
                 [(''reason'', PStr ''invoice_in_future''),
                  (''invoice_date'', PStr (isoformat parsed_invoice)), (''today'', PStr (isoformat today))]
          else if py_strip (or_empty due_date) = []
          then dates_result False
                 [(''reason'', PStr ''missing_due_date''), (''invoice_date'', PStr (isoformat parsed_invoice))]
          else case parse_date due_date of
            None \<Rightarrow> dates_result False
                      [(''reason'', PStr ''unparsed_due_date''), (''value'', opt_str due_date)]
          | Some parsed_due \<Rightarrow>
              if parsed_due < parsed_invoice
              then dates_result False
                     [(''reason'', PStr ''due_before_invoice''),
                      (''invoice_date'', PStr (isoformat parsed_invoice)),
                      (''due_date'', PStr (isoformat parsed_due))]
              else dates_result True
                     [(''invoice_date'', PStr (isoformat parsed_invoice)),
                      (''due_date'', PStr (isoformat parsed_due)), (''today'', PStr (isoformat today))])"

lemmas dates_defs [eval_simps] =
  leap_year_def days_in_month_def valid_date_def py_date_def isoformat_def less_eq_date_def less_date_def
  RULE_dates_def FIELD_dates_def finnish_match_def iso_match_def date_or_none_def parse_date_def
  dates_result_def dates_def

section \<open>Reading back\<close>

lemma date_or_none_Some [simp]:
  "date_or_none y m d = Some x \<longleftrightarrow> x = Date y m d \<and> valid_date (Date y m d)"
  by (auto simp: date_or_none_def py_date_def)

lemma parse_date_valid_date: "parse_date v = Some d \<Longrightarrow> valid_date d"
  by (auto simp: parse_date_def Let_def split: if_splits option.splits)

lemma zpad_decimal: "list_all is_decimal (zpad w n)"
  by (simp add: zpad_def str_nat_decimal list_all_iff is_decimal_def) (use str_nat_decimal in \<open>auto simp: list_all_iff is_decimal_def\<close>)

lemma zpad_length: "0 < w \<Longrightarrow> n < 10 ^ w \<Longrightarrow> length (zpad w n) = w"
  using length_str_nat_le [of w n] by (simp add: zpad_def)

lemma int_of_digits_zpad [simp]: "int_of_digits (zpad w n) = n"
  by (simp add: zpad_def)

lemma valid_date_bounds:
  "valid_date d \<Longrightarrow> year d < 10 ^ 4 \<and> month d < 10 ^ 2 \<and> day d < 10 ^ 2"
  by (auto simp: valid_date_def days_in_month_def split: if_splits)

lemma strip_decimal_ends:
  "s \<noteq> [] \<Longrightarrow> is_decimal (hd s) \<Longrightarrow> is_decimal (last s) \<Longrightarrow> py_strip s = s"
  by (intro py_strip_id) (auto simp: digit_not_space)

lemma takeWhile_decimal: "list_all is_decimal a \<Longrightarrow> \<not> is_decimal c \<Longrightarrow> takeWhile is_decimal (a @ c # b) = a"
  by (simp add: takeWhile_append list_all_iff)

lemma dropWhile_decimal: "list_all is_decimal a \<Longrightarrow> \<not> is_decimal c \<Longrightarrow> dropWhile is_decimal (a @ c # b) = c # b"
  by (simp add: dropWhile_append list_all_iff)

lemma separators [simp]: "\<not> is_decimal CHR ''.''" "\<not> is_decimal CHR ''-''"
  by (simp_all add: is_decimal_def)

lemma parse_iso:
  assumes "valid_date d"
  shows "parse_date (Some (isoformat d)) = Some d"
proof -
  let ?y = "zpad 4 (year d)" and ?m = "zpad 2 (month d)" and ?d = "zpad 2 (day d)"
  have b: "year d < 10 ^ 4" "month d < 10 ^ 2" "day d < 10 ^ 2" using valid_date_bounds [OF assms] by auto
  have len: "length ?y = 4" "length ?m = 2" "length ?d = 2" using b by (simp_all add: zpad_length)
  have dec: "list_all is_decimal ?y" "list_all is_decimal ?m" "list_all is_decimal ?d"
    by (simp_all add: zpad_decimal)
  have s: "isoformat d = ?y @ CHR ''-'' # ?m @ CHR ''-'' # ?d" by (simp add: isoformat_def)
  have ne: "?y \<noteq> []" "?d \<noteq> []" using len by auto
  have strip: "py_strip (isoformat d) = isoformat d"
    using ne dec by (intro strip_decimal_ends) (auto simp: s list_all_iff)
  have "finnish_match (isoformat d) = None"
    using dec len by (simp add: finnish_match_def Let_def s takeWhile_decimal dropWhile_decimal)
  moreover have "iso_match (isoformat d) = Some (?y, ?m, ?d)"
    using dec len by (simp add: iso_match_def s nth_append)
  ultimately show ?thesis
    using strip ne assms by (simp add: parse_date_def Let_def) (simp add: s)
qed

text \<open>The Finnish notation d.m.yyyy, day and month without leading zeros.\<close>

definition finnish_format :: "date \<Rightarrow> string" where
  "finnish_format d = str_nat (day d) @ ''.'' @ str_nat (month d) @ ''.'' @ zpad 4 (year d)"

lemma parse_finnish:
  assumes "valid_date d"
  shows "parse_date (Some (finnish_format d)) = Some d"
proof -
  let ?y = "zpad 4 (year d)" and ?m = "str_nat (month d)" and ?d = "str_nat (day d)"
  have b: "year d < 10 ^ 4" "month d < 10 ^ 2" "day d < 10 ^ 2" using valid_date_bounds [OF assms] by auto
  have len: "length ?y = 4" "length ?m \<le> 2" "length ?d \<le> 2"
    using b by (simp_all add: zpad_length length_str_nat_le)
  have one: "length (str_nat n) = 1 \<or> length (str_nat n) = 2" if "length (str_nat n) \<le> 2" for n
  proof -
    have "0 < length (str_nat n)" by simp
    with that show ?thesis by linarith
  qed
  have dec: "list_all is_decimal ?y" "list_all is_decimal ?m" "list_all is_decimal ?d"
    by (simp_all add: zpad_decimal str_nat_decimal)
  have s: "finnish_format d = ?d @ CHR ''.'' # ?m @ CHR ''.'' # ?y" by (simp add: finnish_format_def)
  have ne: "?y \<noteq> []" using len by auto
  have strip: "py_strip (finnish_format d) = finnish_format d"
    using ne dec by (intro strip_decimal_ends) (auto simp: s list_all_iff)
  have "finnish_match (finnish_format d) = Some (?d, ?m, ?y)"
    using dec len one [OF len(2)] one [OF len(3)]
    by (simp add: finnish_match_def Let_def s takeWhile_decimal dropWhile_decimal)
  then show ?thesis
    using strip assms by (simp add: parse_date_def Let_def) (simp add: s)
qed

section \<open>Properties\<close>

text \<open>
  C7: Every calendar day is read back from its ISO text and from its Finnish text, so both notations
  name the same day.
\<close>

theorem parse_date_round_trip:
  assumes "valid_date d"
  shows "parse_date (Some (isoformat d)) = Some d \<and> parse_date (Some (finnish_format d)) = Some d"
  using assms parse_iso parse_finnish by simp

theorem parse_date_round_trip_witness:
  "parse_date (Some (isoformat (Date 2024 2 29))) = Some (Date 2024 2 29) \<and>
   parse_date (Some (finnish_format (Date 2024 2 29))) = Some (Date 2024 2 29)"
  by (rule parse_date_round_trip) (simp add: eval_simps)

text \<open>Both dates are read as calendar days, the invoice date is not after today, the due date not before it.\<close>

lemma dates_passes_parsed:
  "passed (dates invoice_date due_date today) \<longleftrightarrow>
     (\<exists>i d. parse_date invoice_date = Some i \<and> parse_date due_date = Some d \<and> valid_date i \<and> valid_date d
        \<and> i \<le> today \<and> i \<le> d)"
proof -
  have nonempty: "parse_date v = Some x \<Longrightarrow> py_strip (or_empty v) \<noteq> []" for v x
    by (auto simp: parse_date_def)
  show ?thesis
    using nonempty parse_date_valid_date
    by (auto simp: dates_def dates_result_def not_less split: option.splits)
qed

end
