(* ===== verification/P02_Config.thy ===== *)
theory P02_Config
  imports Py_Value
begin

text \<open>
  \<open>p02_doc_service/config.py\<close>: the typed loaders of \<open>vat_rates.yaml\<close> and \<open>decision.yaml\<close>.  Reading
  and parsing the file is the YAML library's work; a loader is a function of the value
  \<open>yaml.safe_load\<close> returns.  An unquoted YAML date is passed in as its ISO text, the only thing the
  loader asks of it being \<open>str()\<close>.
\<close>

section \<open>Configuration records\<close>

record vat_rate_entry =
  entry_rate :: dec
  valid_from :: string
  label :: string

record vat_rates_config =
  vat_version :: int
  rate_unit :: string
  rates :: "vat_rate_entry list"

definition verified :: "vat_rates_config \<Rightarrow> bool" where
  "verified cfg \<longleftrightarrow> length (rates cfg) > 0"

record decision_config =
  decision_version :: int
  money_tolerance :: dec
  min_confidence :: rat
  max_gross_eur :: dec
  allowed_currencies :: "string list"
  require_all_validators_pass :: bool
  require_supplier_known :: bool
  require_iban_match :: bool
  require_no_duplicate :: bool
  require_critical_fields :: bool
  critical_fields :: "string list"
  iban_mismatch_always_review :: bool
  unknown_supplier_always_review :: bool
  foreign_currency_never_auto_approve :: bool

section \<open>Loaders\<close>

definition require_mapping :: "pyval \<Rightarrow> pydict res" where
  "require_mapping raw = (case raw of PDict d \<Rightarrow> Inr d | _ \<Rightarrow> Inl ValueError)"

definition require_list :: "pyval \<Rightarrow> pyval list res" where
  "require_list v = (case v of PList xs \<Rightarrow> Inr xs | _ \<Rightarrow> Inl ValueError)"

fun load_entries :: "pyval list \<Rightarrow> vat_rate_entry list res" where
  "load_entries [] = Inr []"
| "load_entries (item # items) =
     (case item of
        PDict d \<Rightarrow>
          let rate_raw = dget d ''rate''; from_raw = dget d ''valid_from''; label_raw = dget d ''label''
          in if rate_raw = PNone \<or> from_raw = PNone \<or> label_raw = PNone then load_entries items
             else rbind (py_decimal (py_str rate_raw)) (\<lambda>r.
                  rbind (load_entries items) (\<lambda>es.
                    Inr (\<lparr>entry_rate = r, valid_from = py_str from_raw, label = py_str label_raw\<rparr> # es)))
      | _ \<Rightarrow> Inl ValueError)"

definition load_vat_rates :: "pyval \<Rightarrow> vat_rates_config res" where
  "load_vat_rates doc =
     rbind (require_mapping doc) (\<lambda>raw.
       let unit = py_str (py_or (dget raw ''rate_unit'') (PStr ''percent''))
       in if unit \<noteq> ''percent'' \<and> unit \<noteq> ''fraction'' then Inl ValueError
          else rbind (require_list (py_or (dget raw ''rates'') (PList []))) (\<lambda>items.
               rbind (load_entries items) (\<lambda>entries.
               rbind (rbind (dsub raw ''version'') py_int_of) (\<lambda>v.
                 Inr \<lparr>vat_version = v, rate_unit = unit, rates = entries\<rparr>))))"

text \<open>\<open>bool(d.get(key, True))\<close>.\<close>

definition flag_default_true :: "pydict \<Rightarrow> string \<Rightarrow> bool" where
  "flag_default_true d k = (case map_of d k of None \<Rightarrow> True | Some v \<Rightarrow> truthy v)"

definition get_default :: "pydict \<Rightarrow> string \<Rightarrow> pyval \<Rightarrow> pyval" where
  "get_default d k dflt = (case map_of d k of None \<Rightarrow> dflt | Some v \<Rightarrow> v)"

definition load_decision :: "pyval \<Rightarrow> decision_config res" where
  "load_decision doc =
     rbind (require_mapping doc) (\<lambda>raw.
     rbind (require_mapping (py_or (dget raw ''auto_approve'') (PDict []))) (\<lambda>auto.
     rbind (require_mapping (py_or (dget raw ''tolerances'') (PDict []))) (\<lambda>tolerances.
     rbind (require_mapping (py_or (dget raw ''rules'') (PDict []))) (\<lambda>rules.
     rbind (require_list (py_or (dget raw ''critical_fields'') (PList []))) (\<lambda>fields.
     rbind (require_list (py_or (dget auto ''allowed_currencies'') (PList []))) (\<lambda>currencies.
     rbind (rbind (dsub raw ''version'') py_int_of) (\<lambda>v.
     rbind (py_decimal (py_str (get_default tolerances ''money'' (PStr ''0.01'')))) (\<lambda>money.
     rbind (rbind (dsub auto ''min_confidence'') py_float_of) (\<lambda>conf.
     rbind (rbind (dsub auto ''max_gross_eur'') (\<lambda>x. py_decimal (py_str x))) (\<lambda>gross.
       Inr \<lparr>decision_version = v, money_tolerance = money, min_confidence = conf, max_gross_eur = gross,
            allowed_currencies = map py_str currencies,
            require_all_validators_pass = flag_default_true auto ''require_all_validators_pass'',
            require_supplier_known = flag_default_true auto ''require_supplier_known'',
            require_iban_match = flag_default_true auto ''require_iban_match'',
            require_no_duplicate = flag_default_true auto ''require_no_duplicate'',
            require_critical_fields = flag_default_true auto ''require_critical_fields'',
            critical_fields = map py_str fields,
            iban_mismatch_always_review = flag_default_true rules ''iban_mismatch_always_review'',
            unknown_supplier_always_review = flag_default_true rules ''unknown_supplier_always_review'',
            foreign_currency_never_auto_approve =
              flag_default_true rules ''foreign_currency_never_auto_approve''\<rparr>))))))))))"

lemmas config_defs [eval_simps] =
  verified_def require_mapping_def require_list_def load_vat_rates_def flag_default_true_def
  get_default_def load_decision_def

section \<open>What a loaded configuration guarantees\<close>

text \<open>A row of \<open>vat_rates.yaml\<close> that has all three of its fields.\<close>

definition complete_row :: "pyval \<Rightarrow> bool" where
  "complete_row item \<longleftrightarrow>
     (case item of
        PDict d \<Rightarrow> dget d ''rate'' \<noteq> PNone \<and> dget d ''valid_from'' \<noteq> PNone \<and> dget d ''label'' \<noteq> PNone
      | _ \<Rightarrow> False)"

lemma load_entries_length: "load_entries items = Inr es \<Longrightarrow> length es = length (filter complete_row items)"
proof (induction items arbitrary: es)
  case Nil
  then show ?case by simp
next
  case (Cons item items)
  show ?case
  proof (cases item)
    case (PDict d)
    with Cons show ?thesis
      by (auto simp: complete_row_def Let_def rbind_eq_Inr_iff split: if_splits)
  qed (use Cons.prems in simp_all)
qed

lemma load_entries_incomplete:
  "\<forall>item \<in> set items. \<not> complete_row item \<Longrightarrow> load_entries items = Inr es \<Longrightarrow> es = []"
  using load_entries_length [of items es] by (metis filter_False length_0_conv)

definition vat_rows :: "pyval \<Rightarrow> pyval list" where
  "vat_rows doc = (case doc of PDict d \<Rightarrow> (case dget d ''rates'' of PList xs \<Rightarrow> xs | _ \<Rightarrow> []) | _ \<Rightarrow> [])"

lemma load_vat_rates_rows:
  assumes "load_vat_rates doc = Inr cfg"
  shows "load_entries (vat_rows doc) = Inr (rates cfg)"
    and "rate_unit cfg = ''percent'' \<or> rate_unit cfg = ''fraction''"
proof -
  obtain d where d: "doc = PDict d"
    using assms by (cases doc) (simp_all add: load_vat_rates_def require_mapping_def)
  from assms obtain items entries where i: "require_list (py_or (dget d ''rates'') (PList [])) = Inr items"
    and e: "load_entries items = Inr entries" "rates cfg = entries"
    and u: "rate_unit cfg = ''percent'' \<or> rate_unit cfg = ''fraction''"
    by (auto simp: load_vat_rates_def require_mapping_def d Let_def rbind_eq_Inr_iff split: if_splits)
  have "items = vat_rows doc"
    using i by (cases "dget d ''rates''")
      (auto simp: require_list_def py_or_def vat_rows_def d split: if_splits)
  with e show "load_entries (vat_rows doc) = Inr (rates cfg)" by simp
  show "rate_unit cfg = ''percent'' \<or> rate_unit cfg = ''fraction''" by (rule u)
qed

end
