(* ===== verification/Vat.thy ===== *)
theory Vat
  imports Dates P02_Config
begin

text \<open>
  \<open>validators/vat.py\<close>: the arithmetic of an invoice's totals and VAT lines, and the check of its rates
  against the configured table.  Amounts are the decimals of \<open>Py_Decimal\<close>, so every sum, product and
  quotient is rounded to 28 digits as in Python and may raise \<open>decimal.Overflow\<close>; for amounts of ordinary size the rules are shown to
  decide the exact rational inequalities.
\<close>

section \<open>The code\<close>

definition RULE_MATH :: string where "RULE_MATH = ''vat_math''"
definition RULE_RATES :: string where "RULE_RATES = ''vat_rates''"
definition FIELD_GROSS :: string where "FIELD_GROSS = ''gross_total''"
definition FIELD_RATES :: string where "FIELD_RATES = ''vat_breakdown''"
definition ZERO :: dec where "ZERO = Dec False 0 0"
definition DEFAULT_TOLERANCE :: dec where "DEFAULT_TOLERANCE = Dec False 1 (-2)"

record vat_line =
  line_rate :: dec
  base :: dec
  vat :: dec

text \<open>The arguments \<open>Decimal | int | str\<close>.\<close>

datatype amount = ADec dec | AInt int | AStr string

fun as_decimal :: "amount \<Rightarrow> dec res" where
  "as_decimal (ADec d) = Inr d"
| "as_decimal (AInt i) = py_decimal (str_int i)"
| "as_decimal (AStr s) = py_decimal s"

definition within_tol :: "dec \<Rightarrow> dec \<Rightarrow> dec \<Rightarrow> bool res" where
  "within_tol actual expected tolerance =
     rbind (dec_sub actual expected) (\<lambda>d. rbind (dec_abs d) (\<lambda>a. Inr (dec_le a tolerance)))"

definition line_vat :: "vat_line \<Rightarrow> string \<Rightarrow> dec res" where
  "line_vat line unit =
     (if unit = ''fraction'' then dec_mul (base line) (line_rate line)
      else rbind (dec_mul (base line) (line_rate line)) (\<lambda>m. dec_div m (Dec False 100 0)))"

definition mismatch_entry :: "nat \<Rightarrow> vat_line \<Rightarrow> dec \<Rightarrow> pyval" where
  "mismatch_entry index line expected =
     PDict [(''index'', PInt (int index)), (''rate'', PStr (dec_str (line_rate line))),
            (''base'', PStr (dec_str (base line))), (''vat'', PStr (dec_str (vat line))),
            (''expected_vat'', PStr (dec_str expected))]"

text \<open>The loop over the lines: the running sum of their VAT and the mismatches so far.\<close>

fun vat_loop :: "string \<Rightarrow> dec \<Rightarrow> nat \<Rightarrow> vat_line list \<Rightarrow> dec \<Rightarrow> pyval list \<Rightarrow> (dec \<times> pyval list) res" where
  "vat_loop unit tolerance index [] vat_sum mismatches = Inr (vat_sum, mismatches)"
| "vat_loop unit tolerance index (line # lines) vat_sum mismatches =
     rbind (line_vat line unit) (\<lambda>expected.
     rbind (dec_add vat_sum (vat line)) (\<lambda>vat_sum'.
     rbind (within_tol (vat line) expected tolerance) (\<lambda>ok.
       vat_loop unit tolerance (Suc index) lines vat_sum'
         (if ok then mismatches else mismatches @ [mismatch_entry index line expected]))))"

definition math_result :: "bool \<Rightarrow> pydict \<Rightarrow> rule_result" where
  "math_result ok ds = \<lparr>rule = RULE_MATH, field = FIELD_GROSS, passed = ok, details = ds\<rparr>"

definition vat_math ::
    "amount option \<Rightarrow> amount option \<Rightarrow> amount option \<Rightarrow> vat_line list option \<Rightarrow> dec \<Rightarrow> string \<Rightarrow> rule_result res"
  where
  "vat_math net_total vat_total gross_total vat_breakdown tolerance unit =
     (case (net_total, vat_total, gross_total) of
        (Some n, Some v, Some g) \<Rightarrow>
          rbind (as_decimal n) (\<lambda>net. rbind (as_decimal v) (\<lambda>vt. rbind (as_decimal g) (\<lambda>gross.
            if dec_lt net ZERO \<or> dec_lt vt ZERO \<or> dec_lt gross ZERO
            then Inr (math_result False
                   [(''reason'', PStr ''negative''), (''net'', PStr (dec_str net)),
                    (''vat'', PStr (dec_str vt)), (''gross'', PStr (dec_str gross))])
            else rbind (dec_add net vt) (\<lambda>expected_gross.
               rbind (within_tol gross expected_gross tolerance) (\<lambda>gross_ok.
               if \<not> gross_ok
               then Inr (math_result False
                      [(''reason'', PStr ''net_plus_vat''), (''net'', PStr (dec_str net)),
                       (''vat'', PStr (dec_str vt)), (''gross'', PStr (dec_str gross)),
                       (''expected_gross'', PStr (dec_str expected_gross)),
                       (''tolerance'', PStr (dec_str tolerance))])
               else let lines = (case vat_breakdown of None \<Rightarrow> [] | Some ls \<Rightarrow> ls)
               in rbind (vat_loop unit tolerance 0 lines ZERO []) (\<lambda>(vat_sum, mismatches).
                  if mismatches \<noteq> []
                  then Inr (math_result False
                         [(''reason'', PStr ''line_vat''), (''mismatches'', PList mismatches)])
                  else rbind (if lines \<noteq> [] then within_tol vat_sum vt tolerance else Inr True) (\<lambda>sum_ok.
                  if \<not> sum_ok
                  then Inr (math_result False
                         [(''reason'', PStr ''vat_sum''), (''vat_total'', PStr (dec_str vt)),
                          (''sum_of_lines'', PStr (dec_str vat_sum)), (''tolerance'', PStr (dec_str tolerance))])
                  else Inr (math_result True
                         [(''net'', PStr (dec_str net)), (''vat'', PStr (dec_str vt)),
                          (''gross'', PStr (dec_str gross)), (''lines'', PInt (int (length lines)))]))))))))
      | _ \<Rightarrow> Inr (math_result False [(''reason'', PStr ''missing_totals'')]))"

definition rates_result :: "bool \<Rightarrow> pydict \<Rightarrow> rule_result" where
  "rates_result ok ds = \<lparr>rule = RULE_RATES, field = FIELD_RATES, passed = ok, details = ds\<rparr>"

text \<open>The rates in force on a day; Python's set compares decimals by value.\<close>

definition in_force :: "vat_rates_config \<Rightarrow> date \<Rightarrow> dec list" where
  "in_force cfg on_day =
     map entry_rate
       (filter (\<lambda>e. case parse_date (Some (valid_from e)) of None \<Rightarrow> False | Some started \<Rightarrow> started \<le> on_day)
          (rates cfg))"

definition vat_rates :: "vat_line list option \<Rightarrow> vat_rates_config \<Rightarrow> string option \<Rightarrow> rule_result" where
  "vat_rates vat_breakdown cfg invoice_date =
     (let lines = (case vat_breakdown of None \<Rightarrow> [] | Some ls \<Rightarrow> ls)
      in if \<not> verified cfg
         then rates_result False
                [(''reason'', PStr ''unverified_config''),
                 (''todo'', PStr ''TODO(verify): copy official rates from vero.fi into config/vat_rates.yaml'')]
         else let parsed_invoice = (if or_empty invoice_date = [] then None else parse_date invoice_date);
                  allowed = (case parsed_invoice of None \<Rightarrow> map entry_rate (rates cfg) | Some d \<Rightarrow> in_force cfg d)
         in if parsed_invoice \<noteq> None \<and> allowed = []
            then rates_result False
                   [(''reason'', PStr ''no_rate_in_force''),
                    (''invoice_date'', PStr (isoformat (the parsed_invoice)))]
            else let unknown = filter (\<lambda>l. \<not> list_ex (dec_eq (line_rate l)) allowed) lines
            in if unknown \<noteq> []
               then rates_result False
                      [(''reason'', PStr ''unknown_rate''),
                       (''rates'', PList (map (\<lambda>l. PStr (dec_str (line_rate l))) unknown))]
               else if lines = [] then rates_result False [(''reason'', PStr ''empty_breakdown'')]
               else rates_result True
                      [(''accepted'', PList (map (\<lambda>l. PStr (dec_str (line_rate l))) lines))])"

lemmas vat_defs [eval_simps] =
  RULE_MATH_def RULE_RATES_def FIELD_GROSS_def FIELD_RATES_def ZERO_def DEFAULT_TOLERANCE_def within_tol_def
  line_vat_def mismatch_entry_def math_result_def vat_math_def rates_result_def in_force_def vat_rates_def

section \<open>Exact arithmetic for ordinary amounts\<close>

text \<open>At most nine significant digits, at most four of them decimals.\<close>

definition ordinary :: "dec \<Rightarrow> bool" where
  "ordinary d \<longleftrightarrow> dcoef d < 10 ^ 9 \<and> -4 \<le> dexp d \<and> dexp d \<le> 0"

definition ordinary_line :: "vat_line \<Rightarrow> bool" where
  "ordinary_line l \<longleftrightarrow> ordinary (line_rate l) \<and> ordinary (base l) \<and> ordinary (vat l)"

definition rate_scale :: "string \<Rightarrow> rat" where
  "rate_scale unit = (if unit = ''fraction'' then 1 else 1 / 100)"

text \<open>A bound on an aligned coefficient from a bound on the coefficient and on the shift.\<close>

lemma align_bound:
  assumes "dcoef d < 10 ^ a" "dexp d - e \<le> int b"
  shows "\<bar>align d e\<bar> < 10 ^ (a + b)"
proof -
  have "\<bar>sgn_coef d\<bar> = int (dcoef d)" by (simp add: sgn_coef_def)
  also have "\<dots> < 10 ^ a" using assms(1) by (metis of_nat_less_iff of_nat_numeral of_nat_power)
  finally have c: "\<bar>sgn_coef d\<bar> < 10 ^ a" .
  have p: "(10 :: int) ^ nat (dexp d - e) \<le> 10 ^ b" using assms(2) by (intro power_increasing) auto
  have "\<bar>align d e\<bar> = \<bar>sgn_coef d\<bar> * 10 ^ nat (dexp d - e)" by (simp add: align_def abs_mult)
  also have "\<dots> < 10 ^ a * 10 ^ nat (dexp d - e)" using c by (intro mult_strict_right_mono) auto
  also have "\<dots> \<le> 10 ^ a * 10 ^ b" using p by (intro mult_left_mono) auto
  finally show ?thesis by (simp add: power_add)
qed

lemma within_tol_exact:
  assumes "\<bar>align x (min (dexp x) (dexp y))\<bar> < 10 ^ 27" "\<bar>align y (min (dexp x) (dexp y))\<bar> < 10 ^ 27"
    and "exp_ok (dexp x)" "exp_ok (dexp y)"
  shows "within_tol x y tolerance = Inr (\<bar>dec_val x - dec_val y\<bar> \<le> dec_val tolerance)"
proof -
  have "\<bar>align x (min (dexp x) (dexp y)) - align y (min (dexp x) (dexp y))\<bar> < 10 ^ 28"
    using assms(1,2) by simp
  from dec_sub_abs_exact [OF this assms(3,4)] show ?thesis by (auto simp: within_tol_def dec_le_def)
qed

lemma line_vat_ordinary:
  assumes "ordinary_line l"
  obtains e where "line_vat l unit = Inr e" and "dec_val e = dec_val (base l) * dec_val (line_rate l) * rate_scale unit"
    and "dcoef e < 10 ^ 18" and "-10 \<le> dexp e" and "dexp e \<le> 0"
proof -
  have ord: "dcoef (base l) < 10 ^ 9" "dcoef (line_rate l) < 10 ^ 9"
      "-4 \<le> dexp (base l)" "dexp (base l) \<le> 0" "-4 \<le> dexp (line_rate l)" "dexp (line_rate l) \<le> 0"
    using assms by (auto simp: ordinary_line_def ordinary_def)
  have "dcoef (base l) * dcoef (line_rate l) < 10 ^ 9 * 10 ^ 9"
    using ord(1,2) by (intro mult_strict_mono) auto
  then have prod: "dcoef (base l) * dcoef (line_rate l) < 10 ^ 18" by simp
  then have p: "dcoef (base l) * dcoef (line_rate l) < 10 ^ 28" by simp
  have ex: "exp_ok (dexp (base l) + dexp (line_rate l))" using ord by (simp add: exp_ok_def)
  define m where "m = Dec (dneg (base l) \<noteq> dneg (line_rate l)) (dcoef (base l) * dcoef (line_rate l))
    (dexp (base l) + dexp (line_rate l))"
  note m = dec_mul_exact [OF p ex, folded m_def]
  have mp: "dcoef m < 10 ^ 18" "-8 \<le> dexp m" "dexp m \<le> 0" using prod ord by (simp_all add: m_def)
  show ?thesis
  proof (cases "unit = ''fraction''")
    case True
    then show ?thesis using that [of m] mp m by (simp add: line_vat_def rate_scale_def)
  next
    case False
    have "dcoef m < 10 ^ 28" "exp_ok (dexp m - 2)" "exp_ok (dexp m)" using mp by (simp_all add: exp_ok_def)
    then obtain q where "dec_div m (Dec False 100 0) = Inr q" "dec_val q = dec_val m / 100"
      "dcoef q \<le> dcoef m" "dexp m - 2 \<le> dexp q" "dexp q \<le> dexp m"
      by (rule dec_div_hundred_exact)
    then show ?thesis using that [of q] False mp m by (simp add: line_vat_def rate_scale_def)
  qed
qed

text \<open>The running sum after \<open>n\<close> ordinary lines.\<close>

definition sum_bounded :: "nat \<Rightarrow> dec \<Rightarrow> bool" where
  "sum_bounded n d \<longleftrightarrow> \<bar>align d (-4)\<bar> \<le> int n * 10 ^ 13 \<and> -4 \<le> dexp d \<and> dexp d \<le> 0"

lemma align_align:
  assumes "f \<le> e" "e \<le> dexp d"
  shows "align d f = align d e * 10 ^ nat (e - f)"
proof -
  have "nat (dexp d - f) = nat (dexp d - e) + nat (e - f)" using assms by simp
  then show ?thesis by (simp add: align_def power_add)
qed

lemma align_le:
  assumes "f \<le> e" "e \<le> dexp d"
  shows "\<bar>align d e\<bar> \<le> \<bar>align d f\<bar>"
proof -
  have "\<bar>align d e\<bar> * 1 \<le> \<bar>align d e\<bar> * 10 ^ nat (e - f)" by (intro mult_left_mono) simp_all
  then show ?thesis by (simp add: align_align [OF assms] abs_mult)
qed

lemma ordinary_sum_bounded: "ordinary d \<Longrightarrow> sum_bounded 1 d"
  using align_bound [of d 9 "-4" 4] by (simp add: ordinary_def sum_bounded_def)

lemma ZERO_sum_bounded: "sum_bounded 0 ZERO"
  by (simp add: sum_bounded_def ZERO_def align_def sgn_coef_def)

lemma sum_bounded_align:
  assumes "sum_bounded n d" "n \<le> 10 ^ 7" "-4 \<le> e" "e \<le> dexp d"
  shows "\<bar>align d e\<bar> < 10 ^ 21"
proof -
  have "\<bar>align d e\<bar> \<le> \<bar>align d (-4)\<bar>" using assms(3,4) by (rule align_le)
  also have "\<dots> \<le> int n * 10 ^ 13" using assms(1) by (simp add: sum_bounded_def)
  also have "\<dots> \<le> 10 ^ 7 * 10 ^ 13"
  proof (rule mult_right_mono)
    show "int n \<le> 10 ^ 7" using assms(2) by simp
  qed simp
  finally show ?thesis by simp
qed

lemma sum_bounded_exp: "sum_bounded n d \<Longrightarrow> exp_ok (dexp d)"
  by (auto simp: sum_bounded_def exp_ok_def)

lemma sum_bounded_step:
  assumes s: "sum_bounded n s" and v: "sum_bounded k v" and n: "n + k \<le> 10 ^ 7"
  obtains d where "dec_add s v = Inr d" and "sum_bounded (n + k) d" and "dec_val d = dec_val s + dec_val v"
proof -
  let ?e = "min (dexp s) (dexp v)"
  have e: "-4 \<le> ?e" "?e \<le> dexp s" "?e \<le> dexp v" "?e \<le> 0" using s v by (auto simp: sum_bounded_def)
  have "\<bar>align s ?e\<bar> < 10 ^ 21" "\<bar>align v ?e\<bar> < 10 ^ 21"
    using sum_bounded_align [OF s _ e(1,2)] sum_bounded_align [OF v _ e(1,3)] n by auto
  then have "\<bar>align s ?e + align v ?e\<bar> < 10 ^ 28" by simp
  from dec_add_exact [OF this sum_bounded_exp [OF s] sum_bounded_exp [OF v]]
  obtain d where d: "dec_add s v = Inr d" "dec_val d = dec_val s + dec_val v" "dexp d = ?e" "sgn_coef d = align s ?e + align v ?e"
    by blast
  have "align d (-4) = (align s ?e + align v ?e) * 10 ^ nat (?e - - 4)"
    unfolding align_def d(3) d(4) by (simp add: align_def)
  also have "\<dots> = align s (-4) + align v (-4)"
    using align_align [OF e(1,2)] align_align [OF e(1,3)] by (simp add: distrib_right)
  finally have "\<bar>align d (-4)\<bar> \<le> \<bar>align s (-4)\<bar> + \<bar>align v (-4)\<bar>"
    by (simp add: abs_triangle_ineq)
  also have "\<dots> \<le> int n * 10 ^ 13 + int k * 10 ^ 13"
    using s v by (intro add_mono) (simp_all add: sum_bounded_def)
  finally have "\<bar>align d (-4)\<bar> \<le> int (n + k) * 10 ^ 13" by (simp add: distrib_right)
  then have "sum_bounded (n + k) d" using e by (simp add: sum_bounded_def d(3))
  then show ?thesis using that d(1,2) by blast
qed

lemma within_tol_bounded:
  assumes "sum_bounded n x" "n \<le> 10 ^ 7" "sum_bounded k y" "k \<le> 10 ^ 7"
  shows "within_tol x y tolerance = Inr (\<bar>dec_val x - dec_val y\<bar> \<le> dec_val tolerance)"
proof -
  let ?e = "min (dexp x) (dexp y)"
  have e: "-4 \<le> ?e" "?e \<le> dexp x" "?e \<le> dexp y" using assms(1,3) by (simp_all add: sum_bounded_def)
  have "\<bar>align x ?e\<bar> < 10 ^ 21" "\<bar>align y ?e\<bar> < 10 ^ 21"
    using sum_bounded_align [OF assms(1,2) e(1,2)] sum_bounded_align [OF assms(3,4) e(1,3)] by simp_all
  then show ?thesis using assms(1,3) [THEN sum_bounded_exp] by (intro within_tol_exact) simp_all
qed

text \<open>What it means, in exact rational arithmetic, that the VAT of a line matches its base and rate.\<close>

definition line_matches :: "string \<Rightarrow> dec \<Rightarrow> vat_line \<Rightarrow> bool" where
  "line_matches unit tolerance l \<longleftrightarrow>
     \<bar>dec_val (vat l) - dec_val (base l) * dec_val (line_rate l) * rate_scale unit\<bar> \<le> dec_val tolerance"

lemma line_check_exact:
  assumes "ordinary_line l"
  obtains e where "line_vat l unit = Inr e" and "within_tol (vat l) e tolerance = Inr (line_matches unit tolerance l)"
proof -
  obtain e where e: "line_vat l unit = Inr e"
    "dec_val e = dec_val (base l) * dec_val (line_rate l) * rate_scale unit"
    "dcoef e < 10 ^ 18" "-10 \<le> dexp e" "dexp e \<le> 0"
    using assms by (rule line_vat_ordinary)
  have v: "dcoef (vat l) < 10 ^ 9" "-4 \<le> dexp (vat l)" "dexp (vat l) \<le> 0"
    using assms by (auto simp: ordinary_line_def ordinary_def)
  let ?f = "min (dexp (vat l)) (dexp e)"
  have "\<bar>align (vat l) ?f\<bar> < 10 ^ (9 + 10)" using v e by (intro align_bound) auto
  moreover have "\<bar>align e ?f\<bar> < 10 ^ (18 + 4)" using v e by (intro align_bound) auto
  moreover have "exp_ok (dexp (vat l))" "exp_ok (dexp e)" using v e by (simp_all add: exp_ok_def)
  ultimately have "within_tol (vat l) e tolerance = Inr (\<bar>dec_val (vat l) - dec_val e\<bar> \<le> dec_val tolerance)"
    by (intro within_tol_exact) simp_all
  then show ?thesis using that [OF e(1)] e(2) by (simp add: line_matches_def)
qed

lemma vat_loop_exact:
  assumes "list_all ordinary_line lines" "sum_bounded n s" "n + length lines \<le> 10 ^ 7"
  obtains s' ms where "vat_loop unit tolerance index lines s m = Inr (s', m @ ms)"
    and "sum_bounded (n + length lines) s'" and "dec_val s' = dec_val s + (\<Sum>l\<leftarrow>lines. dec_val (vat l))"
    and "ms = [] \<longleftrightarrow> list_all (line_matches unit tolerance) lines"
proof -
  have "\<exists>s' ms. vat_loop unit tolerance index lines s m = Inr (s', m @ ms)
      \<and> sum_bounded (n + length lines) s' \<and> dec_val s' = dec_val s + (\<Sum>l\<leftarrow>lines. dec_val (vat l))
      \<and> (ms = [] \<longleftrightarrow> list_all (line_matches unit tolerance) lines)"
    using assms
  proof (induction lines arbitrary: n s m index)
    case Nil
    then show ?case by simp
  next
    case (Cons l lines)
    then have l: "ordinary_line l" by simp
    then have v: "sum_bounded 1 (vat l)" by (intro ordinary_sum_bounded) (simp add: ordinary_line_def)
    obtain e where e: "line_vat l unit = Inr e"
      "within_tol (vat l) e tolerance = Inr (line_matches unit tolerance l)"
      using l by (rule line_check_exact)
    have "n + 1 \<le> 10 ^ 7" using Cons.prems(3) by simp
    then obtain t where step: "sum_bounded (n + 1) t" "dec_val t = dec_val s + dec_val (vat l)" "dec_add s (vat l) = Inr t"
      using sum_bounded_step [OF Cons.prems(2) v] by blast
    define m1 where "m1 = (if line_matches unit tolerance l then [] else [mismatch_entry index l e])"
    have rest: "list_all ordinary_line lines" "n + 1 + length lines \<le> 10 ^ 7" using Cons.prems by simp_all
    obtain s' ms where IH: "vat_loop unit tolerance (Suc index) lines t (m @ m1)
          = Inr (s', (m @ m1) @ ms)"
      "sum_bounded (n + 1 + length lines) s'"
      "dec_val s' = dec_val t + (\<Sum>l\<leftarrow>lines. dec_val (vat l))"
      "ms = [] \<longleftrightarrow> list_all (line_matches unit tolerance) lines"
      using Cons.IH [OF rest(1) step(1) rest(2)] by blast
    show ?case
      using e IH step(2,3) by (intro exI [of _ s'] exI [of _ "m1 @ ms"]) (auto simp: m1_def)
  qed
  then show ?thesis using that by blast
qed

section \<open>Properties\<close>

text \<open>
  C10: For totals and lines of at most nine digits with at most four decimals, and at most a million
  lines, \<open>vat_math\<close> returns a result and passes exactly when, in exact arithmetic, no total is
  negative, gross is net plus VAT up to the tolerance, the VAT of every line is base times rate up to the
  tolerance and, if there are lines, their VAT sums to the VAT total up to the tolerance.
\<close>

theorem vat_math_exact:
  assumes "ordinary net" "ordinary vt" "ordinary gross" "list_all ordinary_line lines" "length lines \<le> 10 ^ 6"
  shows "\<exists>r. vat_math (Some (ADec net)) (Some (ADec vt)) (Some (ADec gross)) (Some lines) tolerance unit = Inr r
     \<and> (passed r \<longleftrightarrow>
          0 \<le> dec_val net \<and> 0 \<le> dec_val vt \<and> 0 \<le> dec_val gross
          \<and> \<bar>dec_val gross - (dec_val net + dec_val vt)\<bar> \<le> dec_val tolerance
          \<and> list_all (line_matches unit tolerance) lines
          \<and> (lines = [] \<or> \<bar>(\<Sum>l\<leftarrow>lines. dec_val (vat l)) - dec_val vt\<bar> \<le> dec_val tolerance))"
proof -
  note n = ordinary_sum_bounded [OF assms(1)] and v = ordinary_sum_bounded [OF assms(2)]
    and g = ordinary_sum_bounded [OF assms(3)]
  have small: "(1 + 1 :: nat) \<le> 10 ^ 7" "(1 :: nat) \<le> 10 ^ 7" by simp_all
  obtain nv where nv: "dec_add net vt = Inr nv" "sum_bounded (1 + 1) nv" "dec_val nv = dec_val net + dec_val vt"
    using sum_bounded_step [OF n v small(1)] by blast
  have gross_ok: "within_tol gross nv tolerance = Inr (\<bar>dec_val gross - (dec_val net + dec_val vt)\<bar> \<le> dec_val tolerance)"
    using within_tol_bounded [OF g small(2) nv(2) small(1)] nv(3) by simp
  have len: "0 + length lines \<le> 10 ^ 7" using assms(5) by simp
  obtain s ms where loop: "vat_loop unit tolerance 0 lines ZERO [] = Inr (s, [] @ ms)"
    "sum_bounded (0 + length lines) s" "dec_val s = dec_val ZERO + (\<Sum>l\<leftarrow>lines. dec_val (vat l))"
    "ms = [] \<longleftrightarrow> list_all (line_matches unit tolerance) lines"
    using vat_loop_exact [OF assms(4) ZERO_sum_bounded len] by blast
  have zero: "dec_val ZERO = 0" by (simp add: ZERO_def dec_val_def sgn_coef_def)
  have sum_ok: "within_tol s vt tolerance = Inr (\<bar>(\<Sum>l\<leftarrow>lines. dec_val (vat l)) - dec_val vt\<bar> \<le> dec_val tolerance)"
    using within_tol_bounded [OF loop(2) len v small(2)] loop(3) zero by simp
  have neg: "dec_lt d ZERO \<longleftrightarrow> \<not> 0 \<le> dec_val d" for d by (simp add: dec_lt_def zero not_le)
  show ?thesis
    by (auto simp: vat_math_def neg nv(1) gross_ok Let_def loop(1) math_result_def sum_ok loop(4) [symmetric])
qed

theorem vat_math_exact_witness:
  "\<exists>r. vat_math (Some (ADec (Dec False 10000 (-2)))) (Some (ADec (Dec False 2550 (-2))))
        (Some (ADec (Dec False 12550 (-2))))
        (Some [\<lparr>line_rate = Dec False 255 (-1), base = Dec False 10000 (-2), vat = Dec False 2550 (-2)\<rparr>])
        DEFAULT_TOLERANCE ''percent'' = Inr r \<and> passed r"
proof -
  let ?l = "\<lparr>line_rate = Dec False 255 (-1), base = Dec False 10000 (-2), vat = Dec False 2550 (-2)\<rparr>"
  have "ordinary (Dec False 10000 (-2))" "ordinary (Dec False 2550 (-2))" "ordinary (Dec False 12550 (-2))"
    "list_all ordinary_line [?l]" "length [?l] \<le> 10 ^ 6"
    by (simp_all add: ordinary_def ordinary_line_def)
  from vat_math_exact [OF this, of DEFAULT_TOLERANCE "''percent''"] show ?thesis
    by (simp add: dec_val_def sgn_coef_def pow10_def line_matches_def rate_scale_def DEFAULT_TOLERANCE_def)
qed

text \<open>A table entry has the line's rate and, when the invoice date can be read, is in force on it.\<close>

definition rate_known :: "vat_rates_config \<Rightarrow> string option \<Rightarrow> vat_line \<Rightarrow> bool" where
  "rate_known cfg invoice_date l \<longleftrightarrow>
     (\<exists>e \<in> set (rates cfg). dec_val (line_rate l) = dec_val (entry_rate e)
        \<and> (case parse_date invoice_date of
             None \<Rightarrow> True
           | Some d \<Rightarrow> (\<exists>started. parse_date (Some (valid_from e)) = Some started \<and> started \<le> d)))"

lemma bex_in_force:
  "(\<exists>x \<in> set (in_force cfg d). P x) \<longleftrightarrow>
     (\<exists>e \<in> set (rates cfg). P (entry_rate e) \<and> (\<exists>started. parse_date (Some (valid_from e)) = Some started \<and> started \<le> d))"
  by (auto simp: in_force_def split: option.splits)

lemma vat_rates_allowed:
  assumes "allowed = (case parse_date invoice_date of None \<Rightarrow> map entry_rate (rates cfg) | Some d \<Rightarrow> in_force cfg d)"
  shows "passed (vat_rates (Some lines) cfg invoice_date) \<longleftrightarrow>
     lines \<noteq> [] \<and> (\<forall>l \<in> set lines. \<exists>x \<in> set allowed. dec_val (line_rate l) = dec_val x)"
proof -
  have blank: "or_empty invoice_date = [] \<Longrightarrow> parse_date invoice_date = None"
    by (simp add: parse_date_def py_strip_def)
  have empty: "rates cfg = [] \<Longrightarrow> allowed = []"
    by (simp add: assms in_force_def split: option.splits)
  have check: "filter (\<lambda>l. \<not> list_ex (dec_eq (line_rate l)) allowed) lines = []
      \<longleftrightarrow> (\<forall>l \<in> set lines. \<exists>x \<in> set allowed. dec_val (line_rate l) = dec_val x)"
    by (simp add: filter_empty_conv list_ex_iff dec_eq_def)
  have nothing: "allowed = [] \<Longrightarrow> lines \<noteq> [] \<Longrightarrow> \<not> (\<forall>l \<in> set lines. \<exists>x \<in> set allowed. dec_val (line_rate l) = dec_val x)"
    by (cases lines) auto
  have parsed: "(if or_empty invoice_date = [] then None else parse_date invoice_date) = parse_date invoice_date"
    using blank by simp
  show ?thesis
    unfolding vat_rates_def Let_def parsed option.case assms [symmetric]
    using empty nothing by (auto simp: check rates_result_def verified_def)
qed

lemma vat_rates_passes_iff:
  "passed (vat_rates (Some lines) cfg invoice_date) \<longleftrightarrow>
     lines \<noteq> [] \<and> list_all (rate_known cfg invoice_date) lines"
  by (subst vat_rates_allowed [OF refl])
     (auto simp: rate_known_def list_all_iff bex_in_force split: option.splits)

lemma vat_rates_no_breakdown: "vat_rates None cfg invoice_date = vat_rates (Some []) cfg invoice_date"
  by (simp add: vat_rates_def)

lemma rate_known_cases:
  "parse_date invoice_date = Some d \<Longrightarrow> rate_known cfg invoice_date l \<longleftrightarrow>
     (\<exists>e \<in> set (rates cfg). dec_val (line_rate l) = dec_val (entry_rate e)
        \<and> (\<exists>started. parse_date (Some (valid_from e)) = Some started \<and> started \<le> d))"
  "parse_date invoice_date = None \<Longrightarrow> rate_known cfg invoice_date l \<longleftrightarrow>
     (\<exists>e \<in> set (rates cfg). dec_val (line_rate l) = dec_val (entry_rate e))"
  by (simp_all add: rate_known_def)

lemma rates_check_iff:
  "passed (vat_rates breakdown cfg invoice_date)
     \<longleftrightarrow> (\<exists>lines. breakdown = Some lines \<and> lines \<noteq> [] \<and> list_all (rate_known cfg invoice_date) lines)"
  by (cases breakdown) (simp_all add: vat_rates_passes_iff vat_rates_no_breakdown)

text \<open>
  C11: With a table loaded from a document, and an invoice date \<open>d\<close> that can be read, the rate check passes exactly
  when there is at least one line and every line's rate has the value of a table entry whose start date can be read and
  is not after \<open>d\<close>.  Without an invoice date, or with one that cannot be read, it passes exactly when there is a line
  and every rate has the value of some table entry, whatever its start date: the check does not fail closed on the
  date.  It fails closed on the table: if no row of the document has a rate, a start date and a label (the shipped
  \<open>rates: []\<close> among them), no invoice passes.
\<close>

theorem vat_rates_decides:
  assumes "load_vat_rates doc = Inr cfg"
  shows "(\<forall>d. parse_date invoice_date = Some d \<longrightarrow>
            (passed (vat_rates breakdown cfg invoice_date) \<longleftrightarrow>
               (\<exists>lines. breakdown = Some lines \<and> lines \<noteq> []
                  \<and> (\<forall>l \<in> set lines. \<exists>e \<in> set (rates cfg). dec_val (line_rate l) = dec_val (entry_rate e)
                       \<and> (\<exists>started. parse_date (Some (valid_from e)) = Some started \<and> started \<le> d)))))
       \<and> (parse_date invoice_date = None \<longrightarrow>
            (passed (vat_rates breakdown cfg invoice_date) \<longleftrightarrow>
               (\<exists>lines. breakdown = Some lines \<and> lines \<noteq> []
                  \<and> (\<forall>l \<in> set lines. \<exists>e \<in> set (rates cfg). dec_val (line_rate l) = dec_val (entry_rate e)))))
       \<and> ((\<forall>row \<in> set (vat_rows doc). \<not> complete_row row) \<longrightarrow> \<not> passed (vat_rates breakdown cfg invoice_date))"
proof (intro conjI allI impI)
  assume "\<forall>row \<in> set (vat_rows doc). \<not> complete_row row"
  then have "rates cfg = []"
    using load_entries_incomplete load_vat_rates_rows(1) [OF assms] by blast
  then show "\<not> passed (vat_rates breakdown cfg invoice_date)" by (simp add: vat_rates_def verified_def rates_result_def)
qed (simp_all add: rates_check_iff rate_known_cases list_all_iff)

theorem vat_rates_decides_witness:
  "\<not> passed (vat_rates
       (Some [\<lparr>line_rate = Dec False 255 (-1), base = Dec False 100 0, vat = Dec False 255 (-1)\<rparr>])
       \<lparr>vat_version = 1, rate_unit = ''percent'', rates = []\<rparr> (Some ''2024-05-01''))"
proof -
  let ?doc = "PDict [(''version'', PInt 1), (''rate_unit'', PStr ''percent''), (''rates'', PList [])]"
  have "load_vat_rates ?doc = Inr \<lparr>vat_version = 1, rate_unit = ''percent'', rates = []\<rparr>"
    by (simp add: eval_simps)
  moreover have "\<forall>row \<in> set (vat_rows ?doc). \<not> complete_row row"
    by (simp add: vat_rows_def dget_def)
  ultimately show ?thesis using vat_rates_decides by blast
qed

end
