(* ===== verification/Doc_Service.thy ===== *)
theory Doc_Service
  imports Http Magic P02_Storage Documents Business_Id Iban Reference Dates Vat
begin

text \<open>
  \<open>p02_doc_service/main.py\<close>: the HTTP API of the document service.  A handler takes the values FastAPI
  has parsed and returns the response with the new state; the storage and the document repository are
  arguments, as they are fields of \<open>app.state\<close> in the code.  An \<open>HTTPException\<close> and any other
  exception become responses as the framework and \<open>unhandled_error\<close> make them.
\<close>

section \<open>Responses and errors\<close>

datatype http_response =
    JSONResponse int pydict
  | ContentResponse int bytes string
  | ValidateOut "rule_result list"

definition error_response :: "http_error \<Rightarrow> http_response" where
  "error_response e =
     (case e of
        HTTPException sc detail \<Rightarrow> JSONResponse sc [(''detail'', PStr detail)]
      | Unhandled _ \<Rightarrow> JSONResponse 500 [(''detail'', PStr ''internal_error'')])"

fun status_of :: "http_response \<Rightarrow> int" where
  "status_of (JSONResponse sc _) = sc"
| "status_of (ContentResponse sc _ _) = sc"
| "status_of (ValidateOut _) = 200"

section \<open>Authentication\<close>

definition require_internal_token :: "string \<Rightarrow> string option \<Rightarrow> http_error + unit" where
  "require_internal_token expected provided =
     (case compare_digest (or_empty provided) expected of
        Inl e \<Rightarrow> Inl (Unhandled e)
      | Inr ok \<Rightarrow> if \<not> ok then Inl (HTTPException 401 ''unauthorized'') else Inr ())"

definition health :: http_response where
  "health = JSONResponse 200 [(''status'', PStr ''ok'')]"

section \<open>Reading the upload\<close>

definition MAX_UPLOAD_BYTES :: nat where "MAX_UPLOAD_BYTES = 10 * 1024 * 1024"

definition READ_CHUNK :: nat where "READ_CHUNK = 64 * 1024"

lemma READ_CHUNK_pos: "0 < READ_CHUNK"
  by (simp add: READ_CHUNK_def)

text \<open>The loop of \<open>_read_limited\<close>: the bytes not read yet, the total so far and the chunks, last first.\<close>

function read_loop :: "bytes \<Rightarrow> nat \<Rightarrow> bytes list \<Rightarrow> http_error + bytes" where
  "read_loop upload total_read chunks =
     (let chunk = take READ_CHUNK upload in
      if chunk = [] then Inr (concat (rev chunks))
      else if total_read + length chunk > MAX_UPLOAD_BYTES then Inl (HTTPException 413 ''file_too_large'')
      else read_loop (drop READ_CHUNK upload) (total_read + length chunk) (chunk # chunks))"
  by pat_completeness auto
termination
  by (relation "measure (\<lambda>(upload, _). length upload)") (use READ_CHUNK_pos in auto)

declare read_loop.simps [simp del]

definition read_limited :: "bytes \<Rightarrow> http_error + bytes" where
  "read_limited upload = read_loop upload 0 []"

section \<open>The state of the application\<close>

record ('s, 'd) app_state =
  file_storage :: 's
  documents :: 'd
  sent :: "intake_post list"

record upload_file =
  upload_filename :: "string option"
  upload_content :: bytes

section \<open>POST /v1/documents\<close>

definition upload_result :: "stored_document \<Rightarrow> http_response" where
  "upload_result stored =
     JSONResponse (if deduplicated stored then 200 else 201)
       [(''document_id'', PStr (doc_id stored)), (''sha256'', PStr (sha256 stored)),
        (''deduplicated'', PBool (deduplicated stored)), (''mime_type'', PStr (mime_type stored)),
        (''size_bytes'', PInt (size_bytes stored))]"

text \<open>From the digest to the response, for an upload that passed the checks.\<close>

definition store_upload ::
    "(bytes \<Rightarrow> string) \<Rightarrow> ('s \<Rightarrow> string \<Rightarrow> bytes \<Rightarrow> string res \<times> 's)
     \<Rightarrow> ('d \<Rightarrow> uuid \<Rightarrow> new_document \<Rightarrow> (stored_document \<times> 'd) res)
     \<Rightarrow> (intake_post \<Rightarrow> post_outcome) \<Rightarrow> intake \<Rightarrow> uuid \<Rightarrow> string \<Rightarrow> string \<Rightarrow> bytes
     \<Rightarrow> ('s, 'd) app_state \<Rightarrow> http_response \<times> ('s, 'd) app_state" where
  "store_upload hexdigest storage_put documents_put post intake uid filename mime payload st =
     (let digest = hexdigest payload in
      case storage_put (file_storage st) digest payload of
        (Inl e, s') \<Rightarrow> (error_response (Unhandled e), st\<lparr>file_storage := s'\<rparr>)
      | (Inr path, s') \<Rightarrow>
          (let st1 = st\<lparr>file_storage := s'\<rparr>;
               doc = \<lparr>new_sha256 = digest, new_filename = filename, new_mime_type = mime,
                      new_size_bytes = int (length payload), new_storage_path = path,
                      new_source = ''upload''\<rparr>
           in case documents_put (documents st1) uid doc of
                Inl e \<Rightarrow> (error_response (Unhandled e), st1)
              | Inr (stored, d') \<Rightarrow>
                  (let st2 = st1\<lparr>documents := d'\<rparr> in
                   if deduplicated stored then (upload_result stored, st2)
                   else case notify post intake (doc_id stored) (sha256 stored) of
                       (Inl e, reqs) \<Rightarrow> (error_response (Unhandled e), st2\<lparr>sent := sent st2 @ reqs\<rparr>)
                     | (Inr _, reqs) \<Rightarrow> (upload_result stored, st2\<lparr>sent := sent st2 @ reqs\<rparr>))))"

text \<open>The checks of \<open>upload_document\<close>, in the order of the code: file name, type and bytes to store.\<close>

definition check_upload :: "string \<Rightarrow> string option \<Rightarrow> upload_file option \<Rightarrow> http_error + (string \<times> string \<times> bytes)" where
  "check_upload expected provided file =
     rbind (require_internal_token expected provided) (\<lambda>_.
     case file of
       None \<Rightarrow> Inl (HTTPException 400 ''file_required'')
     | Some f \<Rightarrow>
         rbind (read_limited (upload_content f)) (\<lambda>payload.
         if payload = [] then Inl (HTTPException 400 ''empty_file'')
         else
           let mime = detect_mime payload;
               filename = path_name (if or_empty (upload_filename f) = [] then ''upload''
                                     else or_empty (upload_filename f))
           in case mime of
                None \<Rightarrow> Inl (HTTPException 415 ''unsupported_type'')
              | Some m \<Rightarrow>
                  if \<not> filename_matches_mime filename m then Inl (HTTPException 415 ''magic_mismatch'')
                  else Inr (filename, m, payload)))"

definition upload_document ::
    "(bytes \<Rightarrow> string) \<Rightarrow> ('s \<Rightarrow> string \<Rightarrow> bytes \<Rightarrow> string res \<times> 's)
     \<Rightarrow> ('d \<Rightarrow> uuid \<Rightarrow> new_document \<Rightarrow> (stored_document \<times> 'd) res)
     \<Rightarrow> (intake_post \<Rightarrow> post_outcome) \<Rightarrow> intake \<Rightarrow> string
     \<Rightarrow> string option \<Rightarrow> upload_file option \<Rightarrow> uuid
     \<Rightarrow> ('s, 'd) app_state \<Rightarrow> http_response \<times> ('s, 'd) app_state" where
  "upload_document hexdigest storage_put documents_put post intake expected provided file uid st =
     (case check_upload expected provided file of
        Inl e \<Rightarrow> (error_response e, st)
      | Inr (filename, mime, payload) \<Rightarrow>
          store_upload hexdigest storage_put documents_put post intake uid filename mime payload st)"

section \<open>GET /v1/documents/{document_id}/file\<close>

definition get_file ::
    "('s \<Rightarrow> string \<Rightarrow> bytes res) \<Rightarrow> ('d \<Rightarrow> uuid \<Rightarrow> stored_document option) \<Rightarrow> string \<Rightarrow> string option \<Rightarrow> uuid
     \<Rightarrow> ('s, 'd) app_state \<Rightarrow> http_response" where
  "get_file storage_get documents_get expected provided document_id st =
     (case require_internal_token expected provided of
        Inl e \<Rightarrow> error_response e
      | Inr _ \<Rightarrow>
          (case documents_get (documents st) document_id of
             None \<Rightarrow> error_response (HTTPException 404 ''not_found'')
           | Some stored \<Rightarrow>
               (case storage_get (file_storage st) (storage_path stored) of
                  Inl FileNotFoundError \<Rightarrow> error_response (HTTPException 404 ''file_missing'')
                | Inl e \<Rightarrow> error_response (Unhandled e)
                | Inr data \<Rightarrow> ContentResponse 200 data (mime_type stored))))"

section \<open>POST /v1/extractions/validate\<close>

record validate_in =
  supplier_business_id :: "string option"
  in_iban :: "string option"
  in_reference_number :: "string option"
  in_invoice_date :: "string option"
  in_due_date :: "string option"
  net_total :: "dec option"
  vat_total :: "dec option"
  gross_total :: "dec option"
  vat_breakdown :: "vat_line list"

definition validate_results :: "vat_rates_config \<Rightarrow> decision_config \<Rightarrow> date \<Rightarrow> validate_in \<Rightarrow> rule_result list res" where
  "validate_results vat_config decision today body =
     rbind (iban_checksum (in_iban body)) (\<lambda>iban.
     rbind (reference_number (in_reference_number body)) (\<lambda>ref.
     rbind (vat_math (map_option ADec (net_total body)) (map_option ADec (vat_total body))
              (map_option ADec (gross_total body)) (Some (vat_breakdown body)) (money_tolerance decision)
              (rate_unit vat_config)) (\<lambda>math.
     Inr [business_id_checksum (supplier_business_id body), iban, ref,
          dates (in_invoice_date body) (in_due_date body) today, math,
          vat_rates (Some (vat_breakdown body)) vat_config (in_invoice_date body)])))"

definition validate_extraction ::
    "vat_rates_config \<Rightarrow> decision_config \<Rightarrow> date \<Rightarrow> string \<Rightarrow> string option \<Rightarrow> validate_in \<Rightarrow> http_response" where
  "validate_extraction vat_config decision today expected provided body =
     (case require_internal_token expected provided of
        Inl e \<Rightarrow> error_response e
      | Inr _ \<Rightarrow>
          (case validate_results vat_config decision today body of
             Inl e \<Rightarrow> error_response (Unhandled e)
           | Inr results \<Rightarrow> ValidateOut results))"

section \<open>Start-up\<close>

text \<open>The environment maps names to values; files, the volume and the database are arguments.\<close>

definition env_get :: "(string \<rightharpoonup> string) \<Rightarrow> string \<Rightarrow> string \<Rightarrow> string" where
  "env_get env name dflt = (case env name of None \<Rightarrow> dflt | Some v \<Rightarrow> v)"

definition required_env :: "(string \<rightharpoonup> string) \<Rightarrow> string \<Rightarrow> string res" where
  "required_env env name =
     (let value = py_strip (env_get env name []) in
      if value = [] then Inl (RuntimeError (name @ '' is missing or empty'')) else Inr value)"

definition config_path :: "(string \<rightharpoonup> string) \<Rightarrow> string \<Rightarrow> string \<Rightarrow> string \<Rightarrow> string" where
  "config_path env config_dir env_name filename =
     (let raw = py_strip (env_get env env_name []) in
      if raw \<noteq> [] then raw else config_dir @ ''/'' @ filename)"

record ('s, 'd) app_config =
  app_token :: string
  app_storage :: "'s option"
  app_documents :: "'d option"
  app_intake :: intake
  app_vat_config :: "vat_rates_config option"
  app_decision_config :: "decision_config option"

record ('s, 'd) create_args =
  arg_token :: "string option"
  arg_storage :: "'s option"
  arg_documents :: "'d option"
  arg_intake :: "intake option"
  arg_vat_config :: "vat_rates_config option"
  arg_decision_config :: "decision_config option"
  load_env :: bool

text \<open>\<open>if app.state.x is None: app.state.x = ...\<close>\<close>

definition or_load :: "'a option \<Rightarrow> 'a res \<Rightarrow> 'a option res" where
  "or_load current loaded = (case current of Some x \<Rightarrow> Inr (Some x) | None \<Rightarrow> rbind loaded (\<lambda>x. Inr (Some x)))"

definition load_from_env ::
    "(string \<rightharpoonup> string) \<Rightarrow> string \<Rightarrow> (string \<Rightarrow> 's res) \<Rightarrow> (string \<Rightarrow> 'd) \<Rightarrow> (string \<Rightarrow> pyval res) \<Rightarrow> bool
     \<Rightarrow> ('s, 'd) app_config \<Rightarrow> ('s, 'd) app_config res" where
  "load_from_env env config_dir open_storage connect read_yaml intake_given app =
     rbind (or_load (app_storage app) (open_storage (env_get env ''P02_STORAGE_DIR'' ''/data/documents''))) (\<lambda>s.
     rbind (or_load (app_documents app) (rbind (required_env env ''DATABASE_URL'') (\<lambda>url. Inr (connect url)))) (\<lambda>d.
     let webhook = py_strip (env_get env ''P02_INTAKE_WEBHOOK_URL'' []);
         i = (if webhook \<noteq> [] \<and> \<not> intake_given then HttpIntake webhook (app_token app) else app_intake app)
     in
     rbind (or_load (app_vat_config app)
              (rbind (read_yaml (config_path env config_dir ''P02_VAT_RATES'' ''vat_rates.yaml'')) load_vat_rates)) (\<lambda>v.
     rbind (or_load (app_decision_config app)
              (rbind (read_yaml (config_path env config_dir ''P02_DECISION'' ''decision.yaml'')) load_decision)) (\<lambda>dc.
     Inr \<lparr>app_token = app_token app, app_storage = s, app_documents = d, app_intake = i,
          app_vat_config = v, app_decision_config = dc\<rparr>))))"

definition lifespan ::
    "(string \<rightharpoonup> string) \<Rightarrow> string \<Rightarrow> (string \<Rightarrow> 's res) \<Rightarrow> (string \<Rightarrow> 'd) \<Rightarrow> (string \<Rightarrow> pyval res)
     \<Rightarrow> ('s, 'd) create_args \<Rightarrow> ('s, 'd) app_config res" where
  "lifespan env config_dir open_storage connect read_yaml args =
     rbind (case arg_token args of Some t \<Rightarrow> Inr t | None \<Rightarrow> required_env env ''INTERNAL_API_TOKEN'') (\<lambda>token.
     let app = \<lparr>app_token = token, app_storage = arg_storage args, app_documents = arg_documents args,
                app_intake = (case arg_intake args of Some i \<Rightarrow> i | None \<Rightarrow> NullIntake),
                app_vat_config = arg_vat_config args, app_decision_config = arg_decision_config args\<rparr>
     in
     rbind (if load_env args
            then load_from_env env config_dir open_storage connect read_yaml (arg_intake args \<noteq> None) app
            else Inr app) (\<lambda>app'.
     if app_storage app' = None \<or> app_documents app' = None
     then Inl (RuntimeError ''storage and documents repository must be configured'')
     else
       rbind (or_load (app_vat_config app')
                (rbind (read_yaml (config_dir @ ''/vat_rates.yaml'')) load_vat_rates)) (\<lambda>v.
       rbind (or_load (app_decision_config app')
                (rbind (read_yaml (config_dir @ ''/decision.yaml'')) load_decision)) (\<lambda>dc.
       Inr (app'\<lparr>app_vat_config := v, app_decision_config := dc\<rparr>)))))"

lemmas service_defs [eval_simps] =
  error_response_def require_internal_token_def health_def READ_CHUNK_def
  MAX_UPLOAD_BYTES_def read_limited_def upload_result_def store_upload_def check_upload_def upload_document_def
  get_file_def validate_results_def validate_extraction_def env_get_def required_env_def config_path_def
  or_load_def load_from_env_def lifespan_def

section \<open>Lemmas on the checks\<close>

lemma read_loop_eq:
  assumes "k \<le> MAX_UPLOAD_BYTES" and "k = length (concat (rev chunks))"
  shows "read_loop upload k chunks =
    (if k + length upload \<le> MAX_UPLOAD_BYTES then Inr (concat (rev chunks) @ upload)
     else Inl (HTTPException 413 ''file_too_large''))"
  using assms
proof (induction upload k chunks rule: read_loop.induct)
  case (1 upload k chunks)
  define chunk where "chunk = take READ_CHUNK upload"
  show ?case
  proof (cases "chunk = []")
    case True
    then have "upload = []" using READ_CHUNK_pos by (simp add: chunk_def)
    then show ?thesis using "1.prems" by (subst read_loop.simps) simp
  next
    case False
    show ?thesis
    proof (cases "k + length chunk > MAX_UPLOAD_BYTES")
      case True
      then have "k + length upload > MAX_UPLOAD_BYTES" by (simp add: chunk_def)
      then show ?thesis using True False by (simp add: read_loop.simps [of upload] Let_def chunk_def)
    next
      case small: False
      have split: "length chunk + length (drop READ_CHUNK upload) = length upload" "chunk @ drop READ_CHUNK upload = upload"
        by (simp_all add: chunk_def)
      have "read_loop upload k chunks = read_loop (drop READ_CHUNK upload) (k + length chunk) (chunk # chunks)"
        using False small by (subst read_loop.simps) (simp add: Let_def chunk_def)
      also have "\<dots> = (if k + length chunk + length (drop READ_CHUNK upload) \<le> MAX_UPLOAD_BYTES
            then Inr (concat (rev (chunk # chunks)) @ drop READ_CHUNK upload)
            else Inl (HTTPException 413 ''file_too_large''))"
        using "1.IH" [OF chunk_def] False small "1.prems" by (simp add: chunk_def)
      finally show ?thesis using split by (simp add: add.assoc)
    qed
  qed
qed

lemma read_limited_eq:
  "read_limited upload =
    (if length upload \<le> MAX_UPLOAD_BYTES then Inr upload else Inl (HTTPException 413 ''file_too_large''))"
  using read_loop_eq [of 0 "[]" upload] by (simp add: read_limited_def)

lemma require_internal_token_ok:
  "require_internal_token expected provided = Inr () \<longleftrightarrow>
     or_empty provided = expected \<and> list_all (\<lambda>c. code c < 128) expected"
  by (auto simp: require_internal_token_def compare_digest_def)

text \<open>What an accepted upload looks like.\<close>

definition stored_name :: "upload_file \<Rightarrow> string" where
  "stored_name f =
     path_name (if or_empty (upload_filename f) = [] then ''upload'' else or_empty (upload_filename f))"

lemma check_upload_iff:
  "check_upload expected provided upl = Inr (filename, mime, payload) \<longleftrightarrow>
     (\<exists>f. upl = Some f \<and> payload = upload_content f \<and> filename = stored_name f
        \<and> require_internal_token expected provided = Inr ()
        \<and> payload \<noteq> [] \<and> length payload \<le> MAX_UPLOAD_BYTES
        \<and> detect_mime payload = Some mime \<and> filename_matches_mime filename mime)"
proof (cases upl)
  case None
  then show ?thesis by (simp add: check_upload_def rbind_eq_Inr_iff)
next
  case (Some f)
  then show ?thesis
    by (cases "require_internal_token expected provided"; cases "length (upload_content f) \<le> MAX_UPLOAD_BYTES";
        cases "detect_mime (upload_content f)")
      (simp_all add: check_upload_def read_limited_eq Let_def stored_name_def [symmetric], auto)
qed

section \<open>The abstract service\<close>

text \<open>
  Contents by digest, documents by digest and by identifier; a document's storage path is erased, since
  no response shows it.
\<close>

record abs_service =
  a_files :: "string \<rightharpoonup> bytes"
  a_docs :: "string \<rightharpoonup> stored_document"
  a_get :: "uuid \<rightharpoonup> stored_document"
  a_sent :: "intake_post list"

definition erase_path :: "stored_document \<Rightarrow> stored_document" where
  "erase_path x = x\<lparr>storage_path := []\<rparr>"

definition upload_doc :: "string \<Rightarrow> string \<Rightarrow> string \<Rightarrow> bytes \<Rightarrow> string \<Rightarrow> new_document" where
  "upload_doc h filename mime payload path =
     \<lparr>new_sha256 = h, new_filename = filename, new_mime_type = mime, new_size_bytes = int (length payload),
      new_storage_path = path, new_source = ''upload''\<rparr>"

definition spec_store_upload ::
    "(bytes \<Rightarrow> string) \<Rightarrow> (intake_post \<Rightarrow> post_outcome) \<Rightarrow> intake \<Rightarrow> uuid \<Rightarrow> string \<Rightarrow> string \<Rightarrow> bytes
     \<Rightarrow> abs_service \<Rightarrow> http_response \<times> abs_service" where
  "spec_store_upload hexdigest post intake uid filename mime payload a =
     (let h = hexdigest payload;
          contents = (if a_files a h = None then (a_files a)(h \<mapsto> payload) else a_files a);
          (stored, docs') = spec_put (a_docs a) uid (upload_doc h filename mime payload []);
          (r, reqs) = (if deduplicated stored then (Inr (), []) else notify post intake (doc_id stored) (sha256 stored))
      in ((case r of Inl e \<Rightarrow> error_response (Unhandled e) | Inr _ \<Rightarrow> upload_result stored),
          \<lparr>a_files = contents, a_docs = docs',
           a_get = (if deduplicated stored then a_get a else (a_get a)(uid \<mapsto> stored)),
           a_sent = a_sent a @ reqs\<rparr>))"

definition spec_upload ::
    "(bytes \<Rightarrow> string) \<Rightarrow> (intake_post \<Rightarrow> post_outcome) \<Rightarrow> intake \<Rightarrow> string
     \<Rightarrow> string option \<Rightarrow> upload_file option \<Rightarrow> uuid \<Rightarrow> abs_service \<Rightarrow> http_response \<times> abs_service" where
  "spec_upload hexdigest post intake expected provided file uid a =
     (case check_upload expected provided file of
        Inl e \<Rightarrow> (error_response e, a)
      | Inr (filename, mime, payload) \<Rightarrow> spec_store_upload hexdigest post intake uid filename mime payload a)"

text \<open>A known document is always served, with the bytes stored under its hash.\<close>

definition spec_get_file :: "string \<Rightarrow> string option \<Rightarrow> uuid \<Rightarrow> abs_service \<Rightarrow> http_response" where
  "spec_get_file expected provided uid a =
     (case require_internal_token expected provided of
        Inl e \<Rightarrow> error_response e
      | Inr _ \<Rightarrow>
          (case a_get a uid of
             None \<Rightarrow> error_response (HTTPException 404 ''not_found'')
           | Some x \<Rightarrow> ContentResponse 200 (the (a_files a (sha256 x))) (mime_type x)))"

section \<open>The invariant of the service\<close>

text \<open>
  Every file's content hashes to its digest; every document's path is the one of its hash, where a file
  is stored whose type and size are the document's.
\<close>

definition service_invar ::
    "('s \<Rightarrow> bool) \<Rightarrow> ('s \<Rightarrow> string \<rightharpoonup> bytes) \<Rightarrow> (string \<Rightarrow> bool) \<Rightarrow> (string \<Rightarrow> string) \<Rightarrow> ('d \<Rightarrow> bool)
     \<Rightarrow> ('d \<Rightarrow> string \<rightharpoonup> stored_document) \<Rightarrow> (bytes \<Rightarrow> string) \<Rightarrow> ('s, 'd) app_state \<Rightarrow> bool" where
  "service_invar sinvar files good location dinvar docs hexdigest st \<longleftrightarrow>
     sinvar (file_storage st) \<and> dinvar (documents st)
     \<and> (\<forall>h data. good h \<longrightarrow> files (file_storage st) h = Some data \<longrightarrow> hexdigest data = h)
     \<and> (\<forall>h x. docs (documents st) h = Some x \<longrightarrow> good h \<and> storage_path x = location h
          \<and> (\<exists>data. files (file_storage st) h = Some data \<and> detect_mime data = Some (mime_type x)
                    \<and> size_bytes x = int (length data)))"

definition service_abs ::
    "('s \<Rightarrow> string \<rightharpoonup> bytes) \<Rightarrow> ('d \<Rightarrow> string \<rightharpoonup> stored_document) \<Rightarrow> ('d \<Rightarrow> uuid \<rightharpoonup> stored_document)
     \<Rightarrow> (bytes \<Rightarrow> string) \<Rightarrow> ('s, 'd) app_state \<Rightarrow> abs_service" where
  "service_abs files docs get hexdigest st =
     \<lparr>a_files = (files (file_storage st)) |` range hexdigest,
      a_docs = (\<lambda>h. map_option erase_path (docs (documents st) h)),
      a_get = (\<lambda>uid. map_option erase_path (get (documents st) uid)), a_sent = sent st\<rparr>"

lemma spec_put_erase:
  "spec_put (\<lambda>h. map_option erase_path (m h)) uid (upload_doc h filename mime payload []) =
     (let (x, m') = spec_put m uid (upload_doc h filename mime payload path)
      in (erase_path x, \<lambda>h. map_option erase_path (m' h)))"
  by (auto simp: spec_put_def upload_doc_def erase_path_def received_def fun_eq_iff split: option.splits)

lemma erase_path_fields [simp]:
  "doc_id (erase_path x) = doc_id x" "sha256 (erase_path x) = sha256 x" "mime_type (erase_path x) = mime_type x"
  "size_bytes (erase_path x) = size_bytes x" "deduplicated (erase_path x) = deduplicated x"
  by (simp_all add: erase_path_def)

lemma upload_result_erase [simp]: "upload_result (erase_path x) = upload_result x"
  by (simp add: upload_result_def)

lemma spec_put_sha256:
  "(\<And>x. m (new_sha256 d) = Some x \<Longrightarrow> sha256 x = new_sha256 d) \<Longrightarrow> sha256 (fst (spec_put m uid d)) = new_sha256 d"
  by (auto simp: spec_put_def received_def split: option.splits)

text \<open>Rejections of the checks are client errors, or the error of a token that cannot be compared.\<close>

lemma check_upload_status:
  "check_upload expected provided upl = Inl e \<Longrightarrow> status_of (error_response e) \<in> {400, 401, 413, 415, 500}"
  by (auto simp: check_upload_def rbind_eq_Inl_iff require_internal_token_def read_limited_eq error_response_def Let_def
      split: option.splits sum.splits if_splits)

lemma spec_put_present:
  "\<exists>y. snd (spec_put m uid d) (new_sha256 d) = Some y \<and> doc_id y = doc_id (fst (spec_put m uid d))"
  by (auto simp: spec_put_def split: option.splits)

lemma spec_upload_stored:
  assumes "check_upload expected provided (Some f) = Inr (filename, mime, payload)"
    and "\<forall>req e. post req \<noteq> OtherError e"
  shows "\<exists>x. fst (spec_upload hexdigest post intake expected provided (Some f) uid a) = upload_result x
    \<and> (\<exists>y. a_docs (snd (spec_upload hexdigest post intake expected provided (Some f) uid a)) (hexdigest payload) = Some y
          \<and> doc_id y = doc_id x)"
proof -
  let ?doc = "upload_doc (hexdigest payload) filename mime payload []"
  obtain x m where put: "spec_put (a_docs a) uid ?doc = (x, m)" by fastforce
  have "\<exists>y. m (hexdigest payload) = Some y \<and> doc_id y = doc_id x"
    using spec_put_present [of "a_docs a" uid ?doc] put by (simp add: upload_doc_def)
  moreover have "fst (notify post intake i h) = Inr ()" for i h
    using assms(2) by (auto simp: notify_def Let_def split: intake.splits post_outcome.splits)
  ultimately show ?thesis
    using assms(1) put
    by (intro exI [of _ x]) (auto simp: spec_upload_def spec_store_upload_def Let_def split_beta)
qed

locale document_service =
  store: content_store sput sget sexists files location good sinvar +
  repo: document_repository dput dget docs allowed dinvar
  for sput :: "'s \<Rightarrow> string \<Rightarrow> bytes \<Rightarrow> string res \<times> 's"
    and sget :: "'s \<Rightarrow> string \<Rightarrow> bytes res"
    and sexists :: "'s \<Rightarrow> string \<Rightarrow> bool"
    and files :: "'s \<Rightarrow> string \<rightharpoonup> bytes"
    and location :: "string \<Rightarrow> string"
    and good :: "string \<Rightarrow> bool"
    and sinvar :: "'s \<Rightarrow> bool"
    and dput :: "'d \<Rightarrow> uuid \<Rightarrow> new_document \<Rightarrow> (stored_document \<times> 'd) res"
    and dget :: "'d \<Rightarrow> uuid \<Rightarrow> stored_document option"
    and docs :: "'d \<Rightarrow> string \<rightharpoonup> stored_document"
    and allowed :: "new_document \<Rightarrow> bool"
    and dinvar :: "'d \<Rightarrow> bool" +
  fixes hexdigest :: "bytes \<Rightarrow> string"
  assumes digest_good: "good (hexdigest data)"
    and upload_allowed: "payload \<noteq> [] \<Longrightarrow> length payload \<le> MAX_UPLOAD_BYTES \<Longrightarrow> detect_mime payload = Some mime
      \<Longrightarrow> CHR 0x00 \<notin> set filename \<Longrightarrow> allowed (upload_doc h filename mime payload path)"
begin

abbreviation inv :: "('s, 'd) app_state \<Rightarrow> bool" where
  "inv \<equiv> service_invar sinvar files good location dinvar docs hexdigest"

abbreviation abs_st :: "('s, 'd) app_state \<Rightarrow> abs_service" where
  "abs_st \<equiv> service_abs files docs dget hexdigest"

lemma upload_keeps_inv:
  assumes "inv st" "detect_mime payload = Some mime" "doc = upload_doc h filename mime payload (location h)"
    and "h = hexdigest payload" "\<And>data. files (file_storage st) h = Some data \<Longrightarrow> data = payload"
    and s': "sinvar s'" "\<And>g. good g \<Longrightarrow> files s' g =
       (if g = h \<and> files (file_storage st) h = None then Some payload else files (file_storage st) g)"
    and d': "dinvar d'" "docs d' = snd (spec_put (docs (documents st)) uid doc)"
  shows "inv (st\<lparr>file_storage := s', documents := d', sent := l\<rparr>)"
proof -
  have good: "good h" by (simp add: assms(4) digest_good)
  have hashes: "good g \<Longrightarrow> files s' g = Some data \<Longrightarrow> hexdigest data = g" for g data
    using assms(1,4) s'(2) [of g] unfolding service_invar_def by (auto split: if_splits)
  have fh: "files s' h = Some payload" using s'(2) [OF good] assms(5) by (cases "files (file_storage st) h") auto
  have linked: "good g \<and> storage_path x = location g
        \<and> (\<exists>data. files s' g = Some data \<and> detect_mime data = Some (mime_type x) \<and> size_bytes x = int (length data))"
    if "docs d' g = Some x" for g x
  proof (cases "docs (documents st) g = Some x")
    case True
    then show ?thesis using assms(1) s'(2) [of g] unfolding service_invar_def by fastforce
  next
    case False
    then have "g = h" "x = received uid doc"
      using that unfolding d'(2) by (auto simp: spec_put_def assms(3) upload_doc_def split: option.splits if_splits)
    then show ?thesis using good fh assms(2) by (simp add: received_def assms(3) upload_doc_def)
  qed
  show ?thesis unfolding service_invar_def using s'(1) d'(1) hashes linked by auto
qed

lemma store_upload_refines:
  assumes "inv st" "payload \<noteq> []" "length payload \<le> MAX_UPLOAD_BYTES" "detect_mime payload = Some mime"
    and "CHR 0x00 \<notin> set filename" "dget (documents st) uid = None"
    and collision_free: "\<And>data. files (file_storage st) (hexdigest payload) = Some data \<Longrightarrow> data = payload"
  shows "\<exists>st'. store_upload hexdigest sput dput post intake uid filename mime payload st =
      (fst (spec_store_upload hexdigest post intake uid filename mime payload (abs_st st)), st')
    \<and> inv st' \<and> abs_st st' = snd (spec_store_upload hexdigest post intake uid filename mime payload (abs_st st))"
proof -
  define h where "h = hexdigest payload"
  have good: "good h" by (simp add: h_def digest_good)
  have si: "sinvar (file_storage st)" and di: "dinvar (documents st)"
    using assms(1) by (auto simp: service_invar_def)
  obtain s' where s': "sput (file_storage st) h payload = (Inr (location h), s')" "sinvar s'"
      "\<And>g. good g \<Longrightarrow> files s' g =
         (if g = h \<and> files (file_storage st) h = None then Some payload else files (file_storage st) g)"
    using store.put_ok [OF si good] by blast
  define doc where "doc = upload_doc h filename mime payload (location h)"
  have "allowed doc" unfolding doc_def using assms(2-5) by (rule upload_allowed)
  from repo.put_refines [OF di this assms(6)] obtain d' where
    d': "dput (documents st) uid doc = Inr (fst (spec_put (docs (documents st)) uid doc), d')" "dinvar d'"
      "docs d' = snd (spec_put (docs (documents st)) uid doc)" by blast
  obtain x m' where put: "spec_put (docs (documents st)) uid doc = (x, m')"
    by (cases "spec_put (docs (documents st)) uid doc")
  define after where "after = (\<lambda>reqs. st\<lparr>file_storage := s', documents := d', sent := sent st @ reqs\<rparr>)"
  have inv': "inv (after reqs)" for reqs
    unfolding after_def using upload_keeps_inv [OF assms(1,4) doc_def h_def _ s'(2,3) d'(2,3)] collision_free h_def
    by blast
  have a_get: "(\<lambda>u. map_option erase_path (dget d' u)) =
      (if deduplicated x then \<lambda>u. map_option erase_path (dget (documents st) u)
       else (\<lambda>u. map_option erase_path (dget (documents st) u))(uid \<mapsto> erase_path x))"
    using repo.get_put [OF di \<open>allowed doc\<close> assms(6) d'(1)] put by (auto simp: fun_eq_iff)
  have a_files: "(files s') |` range hexdigest =
      (if ((files (file_storage st)) |` range hexdigest) h = None
       then ((files (file_storage st)) |` range hexdigest)(h \<mapsto> payload) else (files (file_storage st)) |` range hexdigest)"
    using s'(3) [OF digest_good] by (auto simp: restrict_map_def fun_eq_iff h_def)
  have spec: "spec_store_upload hexdigest post intake uid filename mime payload (abs_st st) =
      (let (r, reqs) = (if deduplicated x then (Inr (), []) else notify post intake (doc_id x) (sha256 x))
       in ((case r of Inl e \<Rightarrow> error_response (Unhandled e) | Inr _ \<Rightarrow> upload_result x), abs_st (after reqs)))"
    using spec_put_erase [of "docs (documents st)" uid h filename mime payload "location h"] put a_files a_get d'(3)
    by (simp add: spec_store_upload_def Let_def h_def [symmetric] doc_def [symmetric] service_abs_def split_beta after_def
        split: sum.split)
  have code: "store_upload hexdigest sput dput post intake uid filename mime payload st =
      (let (r, reqs) = (if deduplicated x then (Inr (), []) else notify post intake (doc_id x) (sha256 x))
       in ((case r of Inl e \<Rightarrow> error_response (Unhandled e) | Inr _ \<Rightarrow> upload_result x), after reqs))"
    using s'(1) d'(1) put
    by (auto simp: store_upload_def Let_def h_def [symmetric] doc_def upload_doc_def after_def
        split: prod.splits sum.splits)
  show ?thesis unfolding code spec using inv' by (auto simp: Let_def split: prod.splits)
qed

text \<open>
  The uploads the following lemmas speak of: a name the database can store, and no other content with the same digest
  stored before.
\<close>

lemma upload_refines:
  assumes "inv st" "dget (documents st) uid = None"
    and "\<And>f. upl = Some f \<Longrightarrow> CHR 0x00 \<notin> set (stored_name f)"
    and "\<And>f data. upl = Some f \<Longrightarrow> files (file_storage st) (hexdigest (upload_content f)) = Some data
      \<Longrightarrow> data = upload_content f"
  shows "\<exists>st'. upload_document hexdigest sput dput post intake expected provided upl uid st =
      (fst (spec_upload hexdigest post intake expected provided upl uid (abs_st st)), st')
    \<and> inv st' \<and> abs_st st' = snd (spec_upload hexdigest post intake expected provided upl uid (abs_st st))"
proof (cases "check_upload expected provided upl")
  case (Inl e)
  then show ?thesis using assms(1) by (simp add: upload_document_def spec_upload_def)
next
  case (Inr r)
  obtain filename mime payload where r: "r = (filename, mime, payload)" by (cases r)
  from Inr obtain f where f: "upl = Some f" "payload = upload_content f" "filename = stored_name f"
      "payload \<noteq> []" "length payload \<le> MAX_UPLOAD_BYTES" "detect_mime payload = Some mime"
    unfolding r check_upload_iff by blast
  show ?thesis
    using store_upload_refines [OF assms(1) f(4-6) _ assms(2), of filename post intake] assms(3,4) [OF f(1)]
    by (simp add: upload_document_def spec_upload_def Inr r f(2,3))
qed

lemma get_file_refines:
  assumes "inv st"
  shows "get_file sget dget expected provided uid st = spec_get_file expected provided uid (abs_st st)"
proof (cases "dget (documents st) uid")
  case None
  then show ?thesis by (auto simp: spec_get_file_def get_file_def service_abs_def split: sum.splits)
next
  case (Some x)
  have di: "dinvar (documents st)" and si: "sinvar (file_storage st)" using assms by (auto simp: service_invar_def)
  have x: "docs (documents st) (sha256 x) = Some x" "doc_id x = uid" using repo.docs_complete [OF di Some] by auto
  then obtain data where data: "good (sha256 x)" "storage_path x = location (sha256 x)"
      "files (file_storage st) (sha256 x) = Some data" "hexdigest data = sha256 x"
    using assms unfolding service_invar_def by blast
  have "sget (file_storage st) (storage_path x) = Inr data"
    using store.get_location [OF si data(1)] data(2,3) by simp
  moreover have "a_files (abs_st st) (sha256 x) = Some data"
    using data(3) rangeI [of hexdigest data] unfolding data(4) by (simp add: service_abs_def)
  ultimately show ?thesis
    using Some by (auto simp: spec_get_file_def get_file_def service_abs_def split: sum.splits)
qed

text \<open>What is uploaded is what is served.\<close>

lemma upload_then_get:
  assumes "inv st" "dget (documents st) uid = None"
    and check: "check_upload expected provided (Some f) = Inr (filename, mime, payload)"
    and "CHR 0x00 \<notin> set filename" and post: "\<forall>req e. post req \<noteq> OtherError e"
    and collision_free: "\<forall>h data. files (file_storage st) h = Some data \<and> hexdigest data = hexdigest payload \<longrightarrow> data = payload"
  shows "\<exists>x st'. upload_document hexdigest sput dput post intake expected provided (Some f) uid st = (upload_result x, st')
    \<and> inv st' \<and> get_file sget dget expected provided (doc_id x) st' = ContentResponse 200 payload mime"
proof -
  define h where "h = hexdigest payload"
  let ?spec = "spec_upload hexdigest post intake expected provided (Some f) uid (abs_st st)"
  have f: "payload = upload_content f" "filename = stored_name f" "detect_mime payload = Some mime"
      "require_internal_token expected provided = Inr ()"
    using check by (auto simp: check_upload_iff)
  have same: "files (file_storage st) h = Some data \<Longrightarrow> data = payload" for data
    using assms(1) collision_free digest_good unfolding service_invar_def h_def by blast
  then obtain st' where st': "upload_document hexdigest sput dput post intake expected provided (Some f) uid st = (fst ?spec, st')"
      "inv st'" "abs_st st' = snd ?spec"
    using upload_refines [OF assms(1,2), of "Some f" post intake expected provided] assms(4) f(1,2) by (auto simp: h_def)
  obtain x where x: "fst ?spec = upload_result x" "\<exists>y. a_docs (abs_st st') h = Some y \<and> doc_id y = doc_id x"
    using spec_upload_stored [OF check post] unfolding st'(3) h_def by blast
  then obtain y where y: "docs (documents st') h = Some y" "doc_id y = doc_id x"
    by (auto simp: service_abs_def)
  have di: "dinvar (documents st')" and si: "sinvar (file_storage st')" using st'(2) by (auto simp: service_invar_def)
  obtain data where data: "good h" "storage_path y = location h" "files (file_storage st') h = Some data"
      "detect_mime data = Some (mime_type y)" "hexdigest data = h"
    using st'(2) y(1) unfolding service_invar_def by blast
  have "a_files (abs_st st') h = Some (case files (file_storage st) h of None \<Rightarrow> payload | Some d \<Rightarrow> d)"
    unfolding st'(3) spec_upload_def check
    by (auto simp: spec_store_upload_def service_abs_def h_def Let_def split_beta split: option.split)
  then have "data = payload" using same data(3) by (auto simp: service_abs_def restrict_map_def split: if_splits option.splits)
  moreover have "dget (documents st') (doc_id x) = Some y" using repo.docs_sound [OF di y(1)] y(2) by simp
  moreover have "sget (file_storage st') (storage_path y) = Inr data"
    using store.get_location [OF si data(1)] data(2,3) by simp
  ultimately show ?thesis
    using st'(1,2) x(1) f(3,4) data(4) by (intro exI [of _ x] exI [of _ st']) (simp add: get_file_def)
qed

end

section \<open>Histories of requests\<close>

datatype request = Upload "string option" upload_file uuid | GetFile "string option" uuid

definition handle ::
    "(bytes \<Rightarrow> string) \<Rightarrow> ('s \<Rightarrow> string \<Rightarrow> bytes \<Rightarrow> string res \<times> 's) \<Rightarrow> ('s \<Rightarrow> string \<Rightarrow> bytes res)
     \<Rightarrow> ('d \<Rightarrow> uuid \<Rightarrow> new_document \<Rightarrow> (stored_document \<times> 'd) res) \<Rightarrow> ('d \<Rightarrow> uuid \<Rightarrow> stored_document option)
     \<Rightarrow> (intake_post \<Rightarrow> post_outcome) \<Rightarrow> intake \<Rightarrow> string
     \<Rightarrow> request \<Rightarrow> ('s, 'd) app_state \<Rightarrow> http_response \<times> ('s, 'd) app_state" where
  "handle hexdigest storage_put storage_get documents_put documents_get post intake expected req st =
     (case req of
        Upload provided f uid \<Rightarrow>
          upload_document hexdigest storage_put documents_put post intake expected provided (Some f) uid st
      | GetFile provided uid \<Rightarrow> (get_file storage_get documents_get expected provided uid st, st))"

definition spec_handle ::
    "(bytes \<Rightarrow> string) \<Rightarrow> (intake_post \<Rightarrow> post_outcome) \<Rightarrow> intake \<Rightarrow> string \<Rightarrow> request \<Rightarrow> abs_service
     \<Rightarrow> http_response \<times> abs_service" where
  "spec_handle hexdigest post intake expected req a =
     (case req of
        Upload provided f uid \<Rightarrow> spec_upload hexdigest post intake expected provided (Some f) uid a
      | GetFile provided uid \<Rightarrow> (spec_get_file expected provided uid a, a))"

fun serve :: "(request \<Rightarrow> 'a \<Rightarrow> http_response \<times> 'a) \<Rightarrow> request list \<Rightarrow> 'a \<Rightarrow> http_response list \<times> 'a" where
  "serve h [] st = ([], st)"
| "serve h (r # rs) st = (let (a, st') = h r st; (as, st'') = serve h rs st' in (a # as, st''))"

text \<open>The identifiers a history draws, the contents it uploads, and the requests whose file name the database can store.\<close>

fun drawn :: "request list \<Rightarrow> uuid list" where
  "drawn [] = []"
| "drawn (Upload _ _ uid # rs) = uid # drawn rs"
| "drawn (GetFile _ _ # rs) = drawn rs"

fun contents :: "request list \<Rightarrow> bytes set" where
  "contents [] = {}"
| "contents (Upload _ f _ # rs) = insert (upload_content f) (contents rs)"
| "contents (GetFile _ _ # rs) = contents rs"

fun storable :: "request \<Rightarrow> bool" where
  "storable (Upload _ f _) \<longleftrightarrow> CHR 0x00 \<notin> set (stored_name f)"
| "storable (GetFile _ _) \<longleftrightarrow> True"

text \<open>After an upload the identifiers in use are the old ones and perhaps the drawn one.\<close>

lemma spec_upload_ids:
  "a_get a u = None \<Longrightarrow> u \<noteq> uid \<Longrightarrow> a_get (snd (spec_upload hexdigest post intake expected provided upl uid a)) u = None"
  by (auto simp: spec_upload_def spec_store_upload_def Let_def split: sum.splits prod.splits)

text \<open>The contents stored are those uploaded.\<close>

lemma spec_upload_files:
  "ran (a_files (snd (spec_upload hexdigest post intake expected provided (Some f) uid a)))
     \<subseteq> insert (upload_content f) (ran (a_files a))"
proof (cases "check_upload expected provided (Some f)")
  case (Inr r)
  then obtain filename mime where "r = (filename, mime, upload_content f)"
    by (cases r) (auto simp: check_upload_iff)
  then show ?thesis
    by (auto simp: spec_upload_def spec_store_upload_def Inr Let_def split_beta ran_def split: if_splits)
qed (auto simp: spec_upload_def)

context document_service
begin

lemma serve_refines:
  assumes "inv st" "list_all storable reqs" "distinct (drawn reqs)"
    and "list_all (\<lambda>u. dget (documents st) u = None) (drawn reqs)"
    and collision_free: "inj_on hexdigest P" and "contents reqs \<subseteq> P" "ran (a_files (abs_st st)) \<subseteq> P"
  shows "\<exists>st'. serve (handle hexdigest sput sget dput dget post intake expected) reqs st =
      (fst (serve (spec_handle hexdigest post intake expected) reqs (abs_st st)), st')
    \<and> inv st' \<and> abs_st st' = snd (serve (spec_handle hexdigest post intake expected) reqs (abs_st st))"
  using assms(1-4,6,7)
proof (induction reqs arbitrary: st)
  case Nil
  then show ?case by simp
next
  case (Cons req reqs)
  have get: "dget (documents st) u = None \<longleftrightarrow> a_get (abs_st st) u = None" for st u
    by (simp add: service_abs_def)
  have "\<exists>st'. handle hexdigest sput sget dput dget post intake expected req st =
      (fst (spec_handle hexdigest post intake expected req (abs_st st)), st')
    \<and> inv st' \<and> abs_st st' = snd (spec_handle hexdigest post intake expected req (abs_st st))
    \<and> list_all (\<lambda>u. dget (documents st') u = None) (drawn reqs) \<and> ran (a_files (abs_st st')) \<subseteq> P"
  proof (cases req)
    case (Upload provided f uid)
    with Cons.prems have f: "dget (documents st) uid = None" "CHR 0x00 \<notin> set (stored_name f)"
        "upload_content f \<in> P" "uid \<notin> set (drawn reqs)"
      by auto
    have same: "data = upload_content f" if "files (file_storage st) (hexdigest (upload_content f)) = Some data" for data
    proof -
      have "a_files (abs_st st) (hexdigest (upload_content f)) = Some data" using that by (simp add: service_abs_def)
      then have "data \<in> P" using Cons.prems(6) by (auto intro: ranI)
      moreover have "hexdigest data = hexdigest (upload_content f)"
        using that Cons.prems(1) digest_good unfolding service_invar_def by blast
      ultimately show ?thesis using collision_free f(3) by (auto dest: inj_onD)
    qed
    from upload_refines [OF Cons.prems(1) f(1), of "Some f" post intake expected provided] f(2) same
    obtain st' where st': "handle hexdigest sput sget dput dget post intake expected req st =
          (fst (spec_handle hexdigest post intake expected req (abs_st st)), st')" "inv st'"
        "abs_st st' = snd (spec_upload hexdigest post intake expected provided (Some f) uid (abs_st st))"
      by (auto simp: handle_def spec_handle_def Upload)
    have "list_all (\<lambda>u. dget (documents st') u = None) (drawn reqs)"
      using Cons.prems(4) f(4) Upload unfolding list_all_iff get st'(3) by (auto intro!: spec_upload_ids)
    moreover have "ran (a_files (abs_st st')) \<subseteq> P"
      using spec_upload_files [of hexdigest post intake expected provided f uid "abs_st st"] f(3) Cons.prems(6)
      unfolding st'(3) by blast
    ultimately show ?thesis using st' Upload by (auto simp: spec_handle_def)
  next
    case (GetFile provided uid)
    then show ?thesis using Cons.prems get_file_refines [OF Cons.prems(1)] by (simp add: handle_def spec_handle_def)
  qed
  then obtain st' where st': "handle hexdigest sput sget dput dget post intake expected req st =
      (fst (spec_handle hexdigest post intake expected req (abs_st st)), st')" "inv st'"
      "abs_st st' = snd (spec_handle hexdigest post intake expected req (abs_st st))"
      "list_all (\<lambda>u. dget (documents st') u = None) (drawn reqs)" "ran (a_files (abs_st st')) \<subseteq> P"
    by blast
  have "distinct (drawn reqs)" "contents reqs \<subseteq> P" using Cons.prems(3,5) by (cases req; auto)+
  from Cons.IH [OF st'(2) _ this(1) st'(4) this(2) st'(5)] Cons.prems(2) st'(1,3) show ?case
    by (auto simp: Let_def split_beta)
qed

end

section \<open>The two deployments\<close>

text \<open>The tests run the service in memory, for any hash function.\<close>

interpretation mem_service: document_service memory_storage_put memory_storage_get memory_storage_exists
    "\<lambda>files. files" "\<lambda>h. h" "\<lambda>_. True" "\<lambda>_. True" memory_put memory_get memory_docs "\<lambda>_. True" memory_invar hexdigest
  for hexdigest
  by unfold_locales simp_all

text \<open>The deployed service uses the volume and the database; its hash function returns hexadecimal digests.\<close>

lemma row_allowed_upload:
  assumes "payload \<noteq> []" "length payload \<le> MAX_UPLOAD_BYTES" "detect_mime payload = Some mime"
    and "CHR 0x00 \<notin> set filename"
  shows "row_allowed (upload_doc h filename mime payload path)"
  using assms detect_mime_range [OF assms(3)] by (auto simp: row_allowed_def upload_doc_def MAX_UPLOAD_BYTES_def)

lemma deployed_service:
  assumes "plain_path vol" and "\<And>data. hex_digest (hexdigest data)"
  shows "document_service (fs_put vol) (fs_get vol) (fs_exists vol) (fs_files vol) fs_location hex_digest (fs_invar vol)
    postgres_put postgres_get postgres_docs row_allowed postgres_invar hexdigest"
  using assms
  by (intro document_service.intro document_service_axioms.intro fs_content_store pg.document_repository_axioms)
    (simp_all add: row_allowed_upload)

definition deployed_invar :: "path \<Rightarrow> (bytes \<Rightarrow> string) \<Rightarrow> (filesystem, documents_table) app_state \<Rightarrow> bool" where
  "deployed_invar vol hexdigest =
     service_invar (fs_invar vol) (fs_files vol) hex_digest fs_location postgres_invar postgres_docs hexdigest"

definition deployed_handle where
  "deployed_handle vol hexdigest = handle hexdigest (fs_put vol) (fs_get vol) postgres_put postgres_get"

definition memory_handle where
  "memory_handle hexdigest = handle hexdigest memory_storage_put memory_storage_get memory_put memory_get"

definition empty_deployed :: "(filesystem, documents_table) app_state" where
  "empty_deployed = \<lparr>file_storage = Map.empty, documents = [], sent = []\<rparr>"

definition empty_memory :: "(memory_storage, memory_documents) app_state" where
  "empty_memory = \<lparr>file_storage = Map.empty, documents = empty_memory_documents, sent = []\<rparr>"

lemma empty_deployed_invar: "deployed_invar vol hexdigest empty_deployed"
  by (simp add: deployed_invar_def service_invar_def empty_deployed_def fs_invar_def file_above_iff fs_files_def
      postgres_invar_empty postgres_docs_def select_by_sha256_def)

lemma empty_memory_invar:
  "service_invar (\<lambda>_. True) (\<lambda>files. files) (\<lambda>_. True) (\<lambda>h. h) memory_invar memory_docs hexdigest empty_memory"
  using memory_invar_empty
  by (simp add: service_invar_def empty_memory_def memory_docs_def empty_memory_documents_def)

lemma empty_abs:
  "service_abs (fs_files vol) postgres_docs postgres_get hexdigest empty_deployed =
   service_abs (\<lambda>files. files) memory_docs memory_get hexdigest empty_memory"
  by (simp add: service_abs_def empty_deployed_def empty_memory_def fs_files_def postgres_docs_def select_by_sha256_def
      memory_docs_def empty_memory_documents_def postgres_get_def memory_get_def restrict_map_def fun_eq_iff)

lemma empty_contents:
  "ran (a_files (service_abs (fs_files vol) postgres_docs postgres_get hexdigest empty_deployed)) \<subseteq> P"
  "ran (a_files (service_abs (\<lambda>files. files) memory_docs memory_get hexdigest empty_memory)) \<subseteq> P"
  by (auto simp: service_abs_def empty_deployed_def empty_memory_def fs_files_def restrict_map_def ran_def split: if_splits)

section \<open>Properties\<close>

text \<open>
  C15: A history of uploads and downloads gets the same responses and sends the same webhook requests from the service
  on the volume and the database as from the service in memory, whatever the root of the volume, provided that the
  identifiers drawn are distinct, no file name has a NUL (which the database refuses), the hash function returns
  hexadecimal digests, and no two different contents uploaded in this history have the same digest.
\<close>

theorem deployments_agree:
  assumes "plain_path vol" and "\<forall>data. hex_digest (hexdigest data)"
    and "list_all storable reqs" and "distinct (drawn reqs)"
    and "inj_on hexdigest (contents reqs)"
  shows "\<exists>rs st mst.
     serve (deployed_handle vol hexdigest post intake expected) reqs empty_deployed = (rs, st)
     \<and> serve (memory_handle hexdigest post intake expected) reqs empty_memory = (rs, mst)
     \<and> sent st = sent mst"
proof -
  have free: "list_all (\<lambda>u. postgres_get (documents empty_deployed) u = None) (drawn reqs)"
    "list_all (\<lambda>u. memory_get (documents empty_memory) u = None) (drawn reqs)"
    by (simp_all add: list_all_iff postgres_get_def empty_deployed_def memory_get_def empty_memory_def
        empty_memory_documents_def)
  have "document_service (fs_put vol) (fs_get vol) (fs_exists vol) (fs_files vol) fs_location hex_digest (fs_invar vol)
      postgres_put postgres_get postgres_docs row_allowed postgres_invar hexdigest"
    using assms(1,2) by (intro deployed_service) auto
  from document_service.serve_refines [OF this empty_deployed_invar [unfolded deployed_invar_def] assms(3,4) free(1)
      assms(5) order.refl empty_contents(1)]
    mem_service.serve_refines [OF empty_memory_invar assms(3,4) free(2) assms(5) order.refl empty_contents(2)]
  show ?thesis
    unfolding deployed_handle_def memory_handle_def empty_abs
    by (metis (no_types, lifting) abs_service.select_convs(4) service_abs_def)
qed

definition example_digest :: "bytes \<Rightarrow> string" where
  "example_digest data =
     replicate 64 (if data = ''%PDF-1'' then CHR ''a'' else if data = ''%PDF-2'' then CHR ''b'' else CHR ''c'')"

lemma example_digest_hex: "hex_digest (example_digest data)"
  by (simp add: example_digest_def hex_digest_def hex_char_def list_all_iff)

lemma example_digest_inject:
  "x = ''%PDF-1'' \<or> x = ''%PDF-2'' \<Longrightarrow> example_digest y = example_digest x \<Longrightarrow> y = x"
  by (auto simp: example_digest_def split: if_splits)

definition example_upload :: "string \<Rightarrow> upload_file" where
  "example_upload content = \<lparr>upload_filename = Some ''lasku.pdf'', upload_content = content\<rparr>"

definition example_requests :: "request list" where
  "example_requests =
     [Upload (Some ''t'') (example_upload ''%PDF-1'') ''u1'', Upload (Some ''t'') (example_upload ''%PDF-2'') ''u2'',
      Upload (Some ''t'') (example_upload ''%PDF-1'') ''u3'', GetFile (Some ''t'') ''u2'', GetFile None ''u2'']"

lemma example_stored_name: "stored_name (example_upload content) = ''lasku.pdf''"
  by (simp add: stored_name_def example_upload_def eval_simps)

lemma example_requests_storable:
  "list_all storable example_requests" "distinct (drawn example_requests)"
  "inj_on example_digest (contents example_requests)"
proof -
  show "list_all storable example_requests"
    unfolding example_requests_def by (simp only: list.pred_inject storable.simps example_stored_name) simp
  show "distinct (drawn example_requests)" by (simp add: example_requests_def)
  have "contents example_requests = {''%PDF-1'', ''%PDF-2''}"
    by (auto simp: example_requests_def example_upload_def)
  then show "inj_on example_digest (contents example_requests)"
    by (simp add: example_digest_def)
qed

lemma example_volume: "plain_path STORAGE_DIR"
  by (simp add: STORAGE_DIR_def plain_name_def)

theorem deployments_agree_witness:
  "\<exists>rs st mst.
     serve (deployed_handle STORAGE_DIR example_digest (\<lambda>_. Delivered) NullIntake ''t'') example_requests empty_deployed
       = (rs, st)
     \<and> serve (memory_handle example_digest (\<lambda>_. Delivered) NullIntake ''t'') example_requests empty_memory = (rs, mst)
     \<and> sent st = sent mst"
  by (rule deployments_agree)
    (simp_all add: example_digest_hex example_requests_storable example_volume)

text \<open>
  C16: In every state of the deployed service that satisfies the invariant, an upload that passes the checks
  succeeds with the identifier of a document, keeps the invariant, and downloading that document
  returns exactly the uploaded bytes with the type detected from them, provided that the identifier drawn is not in
  use, the name has no NUL, digests are hexadecimal, no file already stored has the digest of these bytes without being
  equal to them, and the webhook client raises nothing but HTTP errors.
\<close>

theorem uploaded_bytes_are_served:
  assumes "plain_path vol" and "\<forall>data. hex_digest (hexdigest data)" and "deployed_invar vol hexdigest st"
    and "postgres_get (documents st) uid = None"
    and "check_upload expected provided (Some f) = Inr (filename, mime, payload)" and "CHR 0x00 \<notin> set filename"
    and "\<forall>req e. post req \<noteq> OtherError e"
    and "\<forall>h data. fs_files vol (file_storage st) h = Some data \<and> hexdigest data = hexdigest payload \<longrightarrow> data = payload"
  shows "\<exists>x st'.
    upload_document hexdigest (fs_put vol) postgres_put post intake expected provided (Some f) uid st = (upload_result x, st')
    \<and> deployed_invar vol hexdigest st'
    \<and> get_file (fs_get vol) postgres_get expected provided (doc_id x) st' = ContentResponse 200 payload mime"
proof -
  have "document_service (fs_put vol) (fs_get vol) (fs_exists vol) (fs_files vol) fs_location hex_digest (fs_invar vol)
      postgres_put postgres_get postgres_docs row_allowed postgres_invar hexdigest"
    using assms(1,2) by (intro deployed_service) auto
  from document_service.upload_then_get [OF this, OF assms(3) [unfolded deployed_invar_def] assms(4-8)]
  show ?thesis unfolding deployed_invar_def by blast
qed

lemma example_check:
  "check_upload ''t'' (Some ''t'') (Some (example_upload ''%PDF-1'')) = Inr (''lasku.pdf'', ''application/pdf'', ''%PDF-1'')"
  unfolding check_upload_iff using example_stored_name
  by (simp add: example_upload_def require_internal_token_ok eval_simps)

theorem uploaded_bytes_are_served_witness:
  "\<exists>x st'. upload_document example_digest (fs_put STORAGE_DIR) postgres_put (\<lambda>_. Delivered) NullIntake ''t'' (Some ''t'')
       (Some (example_upload ''%PDF-1'')) ''u1'' empty_deployed = (upload_result x, st')
     \<and> deployed_invar STORAGE_DIR example_digest st'
     \<and> get_file (fs_get STORAGE_DIR) postgres_get ''t'' (Some ''t'') (doc_id x) st'
         = ContentResponse 200 ''%PDF-1'' ''application/pdf''"
proof (rule uploaded_bytes_are_served [OF example_volume _ empty_deployed_invar _ example_check])
  show "\<forall>data. hex_digest (example_digest data)" by (simp add: example_digest_hex)
  show "postgres_get (documents empty_deployed) ''u1'' = None" by (simp add: empty_deployed_def postgres_get_def)
  show "\<forall>h data. fs_files STORAGE_DIR (file_storage empty_deployed) h = Some data \<and> example_digest data = example_digest ''%PDF-1''
      \<longrightarrow> data = ''%PDF-1''"
    by (simp add: empty_deployed_def fs_files_def)
qed simp_all

text \<open>
  C17: After a history of requests from the empty deployment (with distinct identifiers, names without NUL, hexadecimal
  digests and no two different contents of this history with the same digest) every document in the table is served
  with status 200, with bytes whose hash is the document's hash, whose detected type is the document's type and whose
  length is its size; a download never answers \<open>file_missing\<close>.
\<close>

theorem documents_always_served:
  assumes "plain_path vol" and "\<forall>data. hex_digest (hexdigest data)"
    and "list_all storable reqs" and "distinct (drawn reqs)"
    and "inj_on hexdigest (contents reqs)"
    and history: "serve (deployed_handle vol hexdigest post intake expected) reqs empty_deployed = (rs, st)"
    and known: "postgres_get (documents st) uid = Some x" and token: "require_internal_token expected provided = Inr ()"
  shows "\<exists>data. get_file (fs_get vol) postgres_get expected provided uid st = ContentResponse 200 data (mime_type x)
     \<and> hexdigest data = sha256 x \<and> detect_mime data = Some (mime_type x) \<and> int (length data) = size_bytes x"
proof -
  have free: "list_all (\<lambda>u. postgres_get (documents empty_deployed) u = None) (drawn reqs)"
    by (simp add: list_all_iff postgres_get_def empty_deployed_def)
  have svc: "document_service (fs_put vol) (fs_get vol) (fs_exists vol) (fs_files vol) fs_location hex_digest
      (fs_invar vol) postgres_put postgres_get postgres_docs row_allowed postgres_invar hexdigest"
    using assms(1,2) by (intro deployed_service) auto
  have inv: "service_invar (fs_invar vol) (fs_files vol) hex_digest fs_location postgres_invar postgres_docs hexdigest st"
    using document_service.serve_refines [OF svc empty_deployed_invar [unfolded deployed_invar_def] assms(3,4) free
        assms(5) order.refl empty_contents(1)]
      history unfolding deployed_handle_def by (metis prod.inject)
  have doc: "postgres_docs (documents st) (sha256 x) = Some x"
    using pg.docs_complete known inv by (auto simp: service_invar_def)
  then obtain data where "hex_digest (sha256 x)" "storage_path x = fs_location (sha256 x)"
      "fs_files vol (file_storage st) (sha256 x) = Some data" "hexdigest data = sha256 x"
      "detect_mime data = Some (mime_type x)" "size_bytes x = int (length data)"
    using inv unfolding service_invar_def by blast
  moreover have "fs_invar vol (file_storage st)" using inv by (simp add: service_invar_def)
  ultimately show ?thesis
    using known token fs_get_digest [OF assms(1), of "file_storage st" "sha256 x"] by (simp add: get_file_def)
qed

theorem documents_always_served_witness:
  "\<exists>rs st uid x data.
     serve (deployed_handle STORAGE_DIR example_digest (\<lambda>_. Delivered) NullIntake ''t'')
       [Upload (Some ''t'') (example_upload ''%PDF-1'') ''u1''] empty_deployed = (rs, st)
     \<and> postgres_get (documents st) uid = Some x
     \<and> get_file (fs_get STORAGE_DIR) postgres_get ''t'' (Some ''t'') uid st = ContentResponse 200 data (mime_type x)
     \<and> example_digest data = sha256 x"
proof -
  let ?reqs = "[Upload (Some ''t'') (example_upload ''%PDF-1'') ''u1'']"
  have hex: "\<forall>data. hex_digest (example_digest data)" by (simp add: example_digest_hex)
  have svc: "document_service (fs_put STORAGE_DIR) (fs_get STORAGE_DIR) (fs_exists STORAGE_DIR) (fs_files STORAGE_DIR)
      fs_location hex_digest (fs_invar STORAGE_DIR) postgres_put postgres_get postgres_docs row_allowed postgres_invar
      example_digest"
    using example_volume hex by (intro deployed_service) auto
  have none: "fs_files STORAGE_DIR (file_storage empty_deployed) h = None" for h
    by (simp add: empty_deployed_def fs_files_def)
  have "postgres_get (documents empty_deployed) ''u1'' = None" by (simp add: empty_deployed_def postgres_get_def)
  from document_service.upload_then_get [OF svc empty_deployed_invar [unfolded deployed_invar_def] this example_check, of "\<lambda>_. Delivered" NullIntake]
  obtain x st where st: "upload_document example_digest (fs_put STORAGE_DIR) postgres_put (\<lambda>_. Delivered) NullIntake ''t'' (Some ''t'')
        (Some (example_upload ''%PDF-1'')) ''u1'' empty_deployed = (upload_result x, st)"
      "get_file (fs_get STORAGE_DIR) postgres_get ''t'' (Some ''t'') (doc_id x) st = ContentResponse 200 ''%PDF-1'' ''application/pdf''"
    using none by auto
  have serve: "serve (deployed_handle STORAGE_DIR example_digest (\<lambda>_. Delivered) NullIntake ''t'') ?reqs empty_deployed
      = ([upload_result x], st)"
    using st(1) by (simp add: deployed_handle_def handle_def)
  have token: "require_internal_token ''t'' (Some ''t'') = Inr ()" by (simp add: require_internal_token_ok eval_simps)
  obtain y where y: "postgres_get (documents st) (doc_id x) = Some y"
    using st(2) token by (cases "postgres_get (documents st) (doc_id x)") (auto simp: get_file_def error_response_def)
  have "list_all storable ?reqs" "distinct (drawn ?reqs)" "inj_on example_digest (contents ?reqs)"
    using example_requests_storable(1) by (simp_all add: example_requests_def)
  from documents_always_served [OF example_volume hex this serve y token] serve y show ?thesis by blast
qed

section \<open>The webhook\<close>

definition sent_ok :: "abs_service \<Rightarrow> bool" where
  "sent_ok a \<longleftrightarrow> distinct (map post_sha256 (a_sent a)) \<and> set (map post_sha256 (a_sent a)) = dom (a_docs a)"

lemma spec_upload_sent:
  assumes "sent_ok a"
  shows "sent_ok (snd (spec_upload hexdigest post (HttpIntake url token) expected provided upl uid a))"
proof (cases "check_upload expected provided upl")
  case (Inl e)
  then show ?thesis using assms by (simp add: spec_upload_def)
next
  case (Inr r)
  obtain filename mime payload where r: "r = (filename, mime, payload)" by (cases r)
  show ?thesis
  proof (cases "a_docs a (hexdigest payload)")
    case None
    then show ?thesis
      using assms by (auto simp: sent_ok_def spec_upload_def Inr r spec_store_upload_def spec_put_def upload_doc_def
          received_def notify_def Let_def)
  next
    case (Some x)
    then show ?thesis
      using assms by (auto simp: sent_ok_def spec_upload_def Inr r spec_store_upload_def spec_put_def upload_doc_def
          Let_def)
  qed
qed

lemma spec_serve_sent:
  "sent_ok a \<Longrightarrow> sent_ok (snd (serve (spec_handle hexdigest post (HttpIntake url token) expected) reqs a))"
proof (induction reqs arbitrary: a)
  case (Cons req reqs)
  have "sent_ok (snd (spec_handle hexdigest post (HttpIntake url token) expected req a))"
    using Cons.prems spec_upload_sent by (cases req) (auto simp: spec_handle_def)
  then show ?case using Cons.IH by (simp add: Let_def split_beta)
qed simp

text \<open>
  C18: With a webhook configured, a history of requests each of which runs to its end posts each stored hash exactly once,
  however often a file is uploaded, whether or not the posts are delivered: the posted hashes are distinct and are
  exactly the hashes in the table.  The identifiers drawn are distinct, the names have no NUL, digests are hexadecimal
  and no two different contents of the history have the same digest.  A process that stops between the insertion of
  the row and the post is outside the history: its document is never posted.
\<close>

theorem webhook_exactly_once:
  assumes "plain_path vol" and "\<forall>data. hex_digest (hexdigest data)"
    and "list_all storable reqs" and "distinct (drawn reqs)"
    and "inj_on hexdigest (contents reqs)"
  shows "\<exists>rs st. serve (deployed_handle vol hexdigest post (HttpIntake url token) expected) reqs empty_deployed = (rs, st)
     \<and> distinct (map post_sha256 (sent st)) \<and> set (map post_sha256 (sent st)) = row_sha256 ` set (documents st)"
proof -
  have free: "list_all (\<lambda>u. postgres_get (documents empty_deployed) u = None) (drawn reqs)"
    by (simp add: list_all_iff postgres_get_def empty_deployed_def)
  have "document_service (fs_put vol) (fs_get vol) (fs_exists vol) (fs_files vol) fs_location hex_digest
      (fs_invar vol) postgres_put postgres_get postgres_docs row_allowed postgres_invar hexdigest"
    using assms(1,2) by (intro deployed_service) auto
  from document_service.serve_refines [OF this empty_deployed_invar [unfolded deployed_invar_def] assms(3,4) free
      assms(5) order.refl empty_contents(1), of post "HttpIntake url token" expected]
  obtain rs st where st: "serve (deployed_handle vol hexdigest post (HttpIntake url token) expected) reqs empty_deployed = (rs, st)"
      "service_abs (fs_files vol) postgres_docs postgres_get hexdigest st =
       snd (serve (spec_handle hexdigest post (HttpIntake url token) expected) reqs
             (service_abs (fs_files vol) postgres_docs postgres_get hexdigest empty_deployed))"
    unfolding deployed_handle_def by blast
  have "sent_ok (service_abs (fs_files vol) postgres_docs postgres_get hexdigest empty_deployed)"
    by (simp add: sent_ok_def service_abs_def empty_deployed_def postgres_docs_def select_by_sha256_def dom_def)
  from spec_serve_sent [OF this] have "sent_ok (service_abs (fs_files vol) postgres_docs postgres_get hexdigest st)"
    unfolding st(2) .
  moreover have "dom (postgres_docs tab) = row_sha256 ` set tab" for tab
    by (auto simp: postgres_docs_def select_by_sha256_def dom_def image_iff find_Some_iff find_None_iff
        dest: find_key_Some)
  ultimately show ?thesis using st(1) by (auto simp: sent_ok_def service_abs_def dom_def)
qed

theorem webhook_exactly_once_witness:
  "\<exists>rs st. serve (deployed_handle STORAGE_DIR example_digest (\<lambda>_. HTTPError) (HttpIntake ''http://n8n'' ''t'') ''t'')
        example_requests empty_deployed = (rs, st)
     \<and> distinct (map post_sha256 (sent st)) \<and> set (map post_sha256 (sent st)) = row_sha256 ` set (documents st)"
  by (rule webhook_exactly_once) (simp_all add: example_digest_hex example_requests_storable example_volume)

end
