(* ===== verification/Doc_Api.thy ===== *)
theory Doc_Api
  imports Doc_Service
begin

text \<open>
  Properties of the document service's API that need no stored state: what an upload is checked for, the
  start-up from the environment, and the validation endpoint.
\<close>

section \<open>Uploads\<close>

text \<open>
  C19: The loop of \<open>_read_limited\<close> over chunks of 64 KiB ends for every upload; it returns exactly the uploaded
  bytes when there are at most 10 MiB of them and raises 413 otherwise.
\<close>

theorem read_limited_exact:
  "read_limited upload =
    (if length upload \<le> 10485760 then Inr upload else Inl (HTTPException 413 ''file_too_large''))"
  using read_limited_eq by (simp add: MAX_UPLOAD_BYTES_def)





section \<open>Start-up\<close>

lemma required_env_nonempty: "required_env env name = Inr v \<Longrightarrow> v \<noteq> []"
  by (auto simp: required_env_def Let_def split: if_splits)

lemma load_from_env_token:
  "load_from_env env config_dir open_storage connect read_yaml given app = Inr app' \<Longrightarrow> app_token app' = app_token app"
  by (auto simp: load_from_env_def rbind_eq_Inr_iff Let_def)

lemma lifespan_token:
  assumes "lifespan env config_dir open_storage connect read_yaml args = Inr app"
  shows "(case arg_token args of Some t \<Rightarrow> Inr t | None \<Rightarrow> required_env env ''INTERNAL_API_TOKEN'') = Inr (app_token app)"
  using assms
  by (auto simp: lifespan_def rbind_eq_Inr_iff Let_def split: if_splits dest!: load_from_env_token)

text \<open>
  An application that starts with its token taken from the environment never lets a request without the
  header, or with an empty one, through: the token is not empty, and the answer is 401, or 500 when the configured
  token itself is not ASCII.
\<close>

theorem started_service_requires_token:
  assumes "lifespan env config_dir open_storage connect read_yaml args = Inr app" and "arg_token args = None"
    and "or_empty provided = []"
  shows "app_token app \<noteq> [] \<and>
    (\<exists>e. require_internal_token (app_token app) provided = Inl e \<and> status_of (error_response e) \<in> {401, 500})"
proof -
  have "required_env env ''INTERNAL_API_TOKEN'' = Inr (app_token app)"
    using lifespan_token [OF assms(1)] assms(2) by simp
  then have "app_token app \<noteq> []" by (rule required_env_nonempty)
  then show ?thesis
    using assms(3) by (auto simp: require_internal_token_def compare_digest_def error_response_def)
qed

definition example_yaml :: "string \<Rightarrow> pyval res" where
  "example_yaml path =
     Inr (PDict [(''version'', PInt 1),
                 (''auto_approve'', PDict [(''min_confidence'', PFloat ''0.9''), (''max_gross_eur'', PInt 500)])])"

definition example_args :: "(unit, unit) create_args" where
  "example_args =
     \<lparr>arg_token = None, arg_storage = None, arg_documents = None, arg_intake = None, arg_vat_config = None,
      arg_decision_config = None, load_env = True\<rparr>"

theorem started_service_requires_token_witness:
  "\<exists>app. lifespan [''INTERNAL_API_TOKEN'' \<mapsto> ''s3cret'', ''DATABASE_URL'' \<mapsto> ''postgres://db''] ''/app/config''
        (\<lambda>_. Inr ()) (\<lambda>_. ()) example_yaml example_args = Inr app
     \<and> app_token app \<noteq> []
     \<and> (\<exists>e. require_internal_token (app_token app) None = Inl e \<and> status_of (error_response e) \<in> {401, 500})"
proof -
  obtain app where app: "lifespan [''INTERNAL_API_TOKEN'' \<mapsto> ''s3cret'', ''DATABASE_URL'' \<mapsto> ''postgres://db''] ''/app/config''
        (\<lambda>_. Inr ()) (\<lambda>_. ()) example_yaml example_args = Inr app"
    by (simp add: eval_simps example_yaml_def example_args_def Let_def)
  have "arg_token example_args = None" "or_empty None = []" by (simp_all add: example_args_def or_empty_def)
  from started_service_requires_token [OF app this] app show ?thesis by blast
qed

section \<open>Validation\<close>

definition ascii :: "string \<Rightarrow> bool" where
  "ascii s = list_all (\<lambda>c. code c < 128) s"

lemma ascii_filter: "ascii s \<Longrightarrow> ascii (filter P s)"
  by (auto simp: ascii_def list_all_iff)

lemma ascii_upper_char: "code c < 128 \<Longrightarrow> ascii (upper_char c)"
  by (auto simp: ascii_def upper_char_def char_simps)

lemma ascii_upper: "ascii s \<Longrightarrow> ascii (py_upper s)"
  using ascii_upper_char by (auto simp: ascii_def py_upper_def list_all_iff)

lemma ascii_strip: "ascii s \<Longrightarrow> ascii (py_strip s)"
  unfolding ascii_def py_strip_def list_all_iff by (auto dest!: set_dropWhileD)

lemma ascii_compact:
  "ascii s \<Longrightarrow> ascii (iban_compact (py_strip s)) \<and> ascii (reference_compact (py_strip s))"
  by (simp add: iban_compact_def reference_compact_def concat_py_split ascii_upper ascii_filter ascii_strip)

lemma ascii_digit_decimal: "code c < 128 \<Longrightarrow> is_digit c \<Longrightarrow> is_decimal c"
  by (auto simp: char_simps)

lemma ascii_mod97:
  assumes "ascii s" "s \<noteq> []" "length s \<le> 2000"
  shows "\<exists>n. mod97 s = Inr n"
proof -
  have "list_all (\<lambda>c. is_digit c \<or> is_upper_az c) s \<Longrightarrow> list_all iban_char s"
    using assms(1) ascii_digit_decimal by (auto simp: ascii_def list_all_iff iban_char_def)
  then show ?thesis using mod97_cases [OF assms(2,3)] by auto
qed

lemma iban_ascii_returns:
  assumes "ascii (or_empty v)"
  shows "\<exists>r. iban_checksum v = Inr r"
proof -
  let ?c = "iban_compact (py_strip (or_empty v))"
  have "\<exists>n. mod97 ?c = Inr n" if "15 \<le> length ?c" "length ?c \<le> 34"
    using ascii_mod97 [of ?c] ascii_compact [OF assms] that by fastforce
  then show ?thesis by (auto simp: iban_checksum_def Let_def)
qed

lemma finnish_total_decimal: "list_all is_decimal s \<Longrightarrow> \<exists>n. finnish_total i t s = Inr n"
  by (induction s arbitrary: i t) (auto simp: py_int_digit)

lemma finnish_ascii_returns:
  assumes "ascii c"
  shows "\<exists>r. finnish_reference c = Inr r"
proof (cases "py_isdigit c")
  case True
  have dec: "list_all is_decimal c" "c \<noteq> []"
    using True assms ascii_digit_decimal by (auto simp: py_isdigit_def all_chars_def ascii_def list_all_iff)
  have "is_decimal (last c)" "list_all is_decimal (rev (butlast c))"
    using dec by (auto simp: list_all_iff dest: in_set_butlastD)
  then show ?thesis
    using finnish_total_decimal [of "rev (butlast c)" 0 0]
    by (auto simp: finnish_reference_def finnish_check_digit_def py_int_digit)
qed (simp add: finnish_reference_def)

lemma rf_ascii_returns:
  assumes "ascii c"
  shows "\<exists>r. rf_reference c = Inr r"
proof -
  have "\<exists>n. mod97 c = Inr n" if "RF_MIN_LEN \<le> length c" "length c \<le> RF_MAX_LEN"
    using ascii_mod97 [OF assms] that by (fastforce simp: RF_MIN_LEN_def RF_MAX_LEN_def)
  then show ?thesis by (auto simp: rf_reference_def Let_def)
qed

lemma reference_ascii_returns:
  assumes "ascii (or_empty v)"
  shows "\<exists>r. reference_number v = Inr r"
  using ascii_compact [OF assms] finnish_ascii_returns rf_ascii_returns
  by (auto simp: reference_number_def Let_def)










text \<open>Beyond the limit \<open>decimal.Overflow\<close> is not caught: the endpoint answers 500.\<close>

theorem huge_amount_fails:
  assumes "require_internal_token expected provided = Inr ()" "EMAX < int k"
    and "ascii (or_empty (in_iban body))" "ascii (or_empty (in_reference_number body))"
    and "net_total body = Some (Dec False 1 (int k))" "vat_total body = Some ZERO" "gross_total body = Some ZERO"
  shows "validate_extraction vat_config decision today expected provided body
    = JSONResponse 500 [(''detail'', PStr ''internal_error'')]"
proof -
  obtain ri rr where r: "iban_checksum (in_iban body) = Inr ri" "reference_number (in_reference_number body) = Inr rr"
    using iban_ascii_returns [OF assms(3)] reference_ascii_returns [OF assms(4)] by blast
  have "\<not> dec_lt (Dec False 1 (int k)) ZERO" "\<not> dec_lt ZERO ZERO"
    by (simp_all add: dec_lt_def dec_val_def sgn_coef_def ZERO_def pow10_pos not_less less_imp_le)
  then show ?thesis
    using assms(1) r dec_add_overflow [OF assms(2)]
    by (simp add: validate_extraction_def validate_results_def assms(5-7) vat_math_def error_response_def ZERO_def)
qed



end
