(* ===== verification/Normalize.thy ===== *)
theory Normalize
  imports Py_Value
begin

text \<open>
  \<open>p01_backend/normalize.py\<close>: normalising a lead.  The packages it calls are arguments: \<open>validate_email\<close> returns
  the normalised address, or \<open>None\<close> for \<open>EmailNotValidError\<close>; \<open>phone_parse\<close>, \<open>is_possible_number\<close> and
  \<open>format_e164\<close> stand for \<open>phonenumbers\<close>, where \<open>None\<close> is \<open>NumberParseException\<close>.  The texts of the two domain
  lists are arguments too.
\<close>

section \<open>Data\<close>

record normalize_input =
  ni_email :: string
  ni_name :: string
  ni_company_name :: "string option"
  ni_phone :: "string option"
  ni_language :: "string option"
  ni_country :: "string option"
  ni_website :: "string option"
  ni_message :: "string option"

record normalize_result =
  email_normalized :: string
  email_valid :: bool
  nr_name :: string
  nr_company_name :: "string option"
  company_domain :: "string option"
  nr_is_free_mail :: bool
  is_disposable :: bool
  phone_e164 :: "string option"
  nr_language :: string
  nr_country :: "string option"
  errors :: "string list"

section \<open>Domain lists\<close>

definition load_domain_list :: "string \<Rightarrow> string list" where
  "load_domain_list txt =
     filter (\<lambda>d. d \<noteq> [] \<and> \<not> prefix ''#'' d) (map (\<lambda>line. py_lower (py_strip line)) (splitlines txt))"

text \<open>The two lists of the package, read once and kept; the arguments are the texts of \<open>free_mail.txt\<close> and \<open>disposable.txt\<close>.\<close>

definition free_mail_domains :: "string \<Rightarrow> string list" where
  "free_mail_domains free_txt = load_domain_list free_txt"

definition disposable_domains :: "string \<Rightarrow> string list" where
  "disposable_domains disposable_txt = load_domain_list disposable_txt"

section \<open>Email\<close>

text \<open>\<open>s.rsplit("@", 1)[-1]\<close>.\<close>

definition after_last_at :: "string \<Rightarrow> string" where
  "after_last_at s = rev (takeWhile (\<lambda>c. c \<noteq> CHR ''@'') (rev s))"

definition normalize_email ::
    "(string \<Rightarrow> bool \<Rightarrow> string option) \<Rightarrow> string \<Rightarrow> bool \<Rightarrow> (string \<times> bool \<times> string option) \<times> string list" where
  "normalize_email validate_email raw mx_check =
     (let candidate = py_strip raw in
      if candidate = [] then (([], False, None), [''email_missing''])
      else case validate_email candidate mx_check of
          None \<Rightarrow>
            (let low = py_lower candidate;
                 domain = (if CHR ''@'' \<in> set low then Some (after_last_at low) else None)
             in ((low, False, domain), [''email_invalid'']))
        | Some normalized \<Rightarrow>
            (let norm = py_lower normalized in ((norm, True, Some (py_lower (after_last_at norm))), [])))"

section \<open>Company domain\<close>

definition strip_prefix :: "string \<Rightarrow> string \<Rightarrow> string" where
  "strip_prefix p s = (if prefix p s then drop (length p) s else s)"

definition website_host :: "string \<Rightarrow> string" where
  "website_host website =
     (let host = strip_prefix ''http://'' (strip_prefix ''https://'' (py_lower (py_strip website)));
          host' = takeWhile (\<lambda>c. c \<noteq> CHR '':'') (takeWhile (\<lambda>c. c \<noteq> CHR ''/'') host)
      in strip_prefix ''www.'' host')"

definition company_domain_of :: "string option \<Rightarrow> string option \<Rightarrow> bool \<Rightarrow> string option" where
  "company_domain_of website email_domain free =
     (let host = (if or_empty website = [] then [] else website_host (or_empty website)) in
      if host \<noteq> [] then Some host
      else if or_empty email_domain \<noteq> [] \<and> \<not> free then email_domain
      else None)"

section \<open>Phone\<close>

definition to_e164 ::
    "(string \<Rightarrow> 'p option) \<Rightarrow> ('p \<Rightarrow> bool) \<Rightarrow> ('p \<Rightarrow> string) \<Rightarrow> string option \<Rightarrow> string option \<times> string list" where
  "to_e164 phone_parse is_possible_number format_e164 raw =
     (if py_strip (or_empty raw) = [] then (None, [])
      else case phone_parse (py_strip (or_empty raw)) of
          None \<Rightarrow> (None, [''phone_invalid''])
        | Some parsed \<Rightarrow>
            if \<not> is_possible_number parsed then (None, [''phone_invalid''])
            else (Some (format_e164 parsed), []))"

section \<open>Language\<close>

definition SV_WORDS :: "string list" where
  "SV_WORDS = ['' vill '', '' boka '', '' n'' @ [CHR 0xE4] @ ''sta '', '' och '', '' vecka '']"

definition FI_WORDS :: "string list" where
  "FI_WORDS = ['' tarvitsemme '', '' tarjouksen '', '' kiitos '', '' haluan '', '' t'' @ [CHR 0xE4] @ ''m'' @ [CHR 0xE4] @ '' '']"

definition language_hint :: "string option \<Rightarrow> string \<Rightarrow> string option \<Rightarrow> string" where
  "language_hint explicit name message =
     (let value = py_lower (py_strip (or_empty explicit)) in
      if or_empty explicit \<noteq> [] \<and> value \<in> {''fi'', ''sv'', ''en'', ''other''} then value
      else
        let blob = py_lower (name @ '' '' @ or_empty message);
            padded = '' '' @ blob @ '' ''
        in if CHR 0xE5 \<in> set blob \<or> list_ex (\<lambda>w. contains w padded) SV_WORDS then ''sv''
           else if CHR 0xE4 \<in> set blob \<or> CHR 0xF6 \<in> set blob \<or> list_ex (\<lambda>w. contains w padded) FI_WORDS then ''fi''
           else ''other'')"

section \<open>The normaliser\<close>

definition strip_if_given :: "string option \<Rightarrow> string option" where
  "strip_if_given v = (if or_empty v = [] then None else Some (py_strip (or_empty v)))"

definition normalize_lead ::
    "(string \<Rightarrow> bool \<Rightarrow> string option) \<Rightarrow> (string \<Rightarrow> 'p option) \<Rightarrow> ('p \<Rightarrow> bool) \<Rightarrow> ('p \<Rightarrow> string)
     \<Rightarrow> string \<Rightarrow> string \<Rightarrow> normalize_input \<Rightarrow> bool \<Rightarrow> normalize_result" where
  "normalize_lead validate_email phone_parse is_possible_number format_e164 free_txt disposable_txt inp mx_check =
     (let name = py_strip (ni_name inp);
          ((em, ok, email_domain), email_errors) = normalize_email validate_email (ni_email inp) mx_check;
          free = (or_empty email_domain \<noteq> [] \<and> or_empty email_domain \<in> set (free_mail_domains free_txt));
          disposable = (or_empty email_domain \<noteq> [] \<and> or_empty email_domain \<in> set (disposable_domains disposable_txt));
          (phone, phone_errors) = to_e164 phone_parse is_possible_number format_e164 (ni_phone inp)
      in \<lparr>email_normalized = em, email_valid = ok, nr_name = name,
          nr_company_name = strip_if_given (ni_company_name inp),
          company_domain = company_domain_of (ni_website inp) email_domain free,
          nr_is_free_mail = free, is_disposable = disposable, phone_e164 = phone,
          nr_language = language_hint (ni_language inp) name (ni_message inp),
          nr_country = strip_if_given (ni_country inp), errors = email_errors @ phone_errors\<rparr>)"

lemmas normalize_defs [eval_simps] =
  is_line_break_def load_domain_list_def free_mail_domains_def disposable_domains_def after_last_at_def normalize_email_def strip_prefix_def website_host_def
  company_domain_of_def to_e164_def SV_WORDS_def FI_WORDS_def language_hint_def strip_if_given_def normalize_lead_def

section \<open>Lemmas\<close>

lemma lower_char_idem [simp]: "lower_char (lower_char c) = lower_char c"
proof -
  have "code (lower_char c) =
      (if is_upper_az c \<or> 192 \<le> code c \<and> code c \<le> 222 \<and> code c \<noteq> 215 then code c + 32 else code c)"
    by (auto simp: lower_char_def is_upper_az_def)
  then show ?thesis by (auto simp: lower_char_def is_upper_az_def)
qed

lemma py_lower_idem [simp]: "py_lower (py_lower s) = py_lower s"
  by (simp add: py_lower_def)

lemma py_lower_fixed_iff: "py_lower s = s \<longleftrightarrow> list_all (\<lambda>c. lower_char c = c) s"
  by (induction s) (auto simp: py_lower_def)

lemma set_strip_prefix: "set (strip_prefix p s) \<subseteq> set s"
  by (auto simp: strip_prefix_def dest: in_set_dropD)

lemma website_host_set:
  "set (website_host w) \<subseteq> set (py_lower (py_strip w)) - {CHR ''/'', CHR '':''}"
proof -
  define host where "host = strip_prefix ''http://'' (strip_prefix ''https://'' (py_lower (py_strip w)))"
  have "set host \<subseteq> set (py_lower (py_strip w))" unfolding host_def using set_strip_prefix by (meson order_trans)
  moreover have "set (website_host w) \<subseteq> set host - {CHR ''/'', CHR '':''}"
    unfolding website_host_def Let_def host_def [symmetric]
    by (auto dest!: set_strip_prefix [THEN subsetD] set_takeWhileD)
  ultimately show ?thesis by blast
qed

lemma after_last_at_lower: "py_lower s = s \<Longrightarrow> py_lower (after_last_at s) = after_last_at s"
  unfolding py_lower_fixed_iff by (auto simp: list_all_iff after_last_at_def dest: set_takeWhileD)

lemma normalize_email_lower:
  assumes "normalize_email v raw mx = ((em, ok, host), errs)"
  shows "py_lower em = em"
  using assms
  by (auto simp: normalize_email_def Let_def py_lower_def [of "[]"] split: if_splits option.splits)

lemma load_domain_list_entries:
  assumes "d \<in> set (load_domain_list txt)"
  shows "d \<noteq> []" "\<not> prefix ''#'' d" "py_lower d = d"
  using assms by (auto simp: load_domain_list_def)

section \<open>Properties\<close>

text \<open>
  C26: Whatever the email and phone packages answer, the result's address is lower case; a company domain is lower
  case and non-empty, taken from a website it contains no slash and no colon, and without a website it is the
  domain of the address and never a listed free-mail domain; the free-mail flag is set exactly when the
  part of the normalised address after its last at sign is a listed domain.
\<close>

theorem normalized_domains:
  "let r = normalize_lead validate_email phone_parse possible fmt free_txt disposable_txt inp mx in
     py_lower (email_normalized r) = email_normalized r
     \<and> (case company_domain r of
          None \<Rightarrow> True
        | Some d \<Rightarrow> d \<noteq> [] \<and> py_lower d = d
            \<and> (if website_host (or_empty (ni_website inp)) \<noteq> [] then CHR ''/'' \<notin> set d \<and> CHR '':'' \<notin> set d
               else d \<notin> set (load_domain_list free_txt) \<and> d = after_last_at (email_normalized r)))
     \<and> (nr_is_free_mail r \<longleftrightarrow>
          CHR ''@'' \<in> set (email_normalized r) \<and> after_last_at (email_normalized r) \<in> set (load_domain_list free_txt)
          \<or> email_valid r \<and> after_last_at (email_normalized r) \<in> set (load_domain_list free_txt))"
proof -
  obtain em ok host errs where e: "normalize_email validate_email (ni_email inp) mx = ((em, ok, host), errs)"
    by (metis surj_pair)
  have host: "host = (if CHR ''@'' \<in> set em \<or> ok then Some (after_last_at em) else None)" "py_lower em = em"
    using e normalize_email_lower [OF e]
    by (auto simp: normalize_email_def Let_def after_last_at_lower split: if_splits option.splits)
  have low: "py_lower (after_last_at em) = after_last_at em" by (rule after_last_at_lower [OF host(2)])
  have web: "py_lower (website_host w) = website_host w \<and> CHR ''/'' \<notin> set (website_host w) \<and> CHR '':'' \<notin> set (website_host w)" for w
  proof -
    have "\<forall>c \<in> set (py_lower (py_strip w)). lower_char c = c" by (auto simp: py_lower_def)
    then show ?thesis using website_host_set [of w] unfolding py_lower_fixed_iff list_all_iff by blast
  qed
  have empty: "website_host [] = []" by (simp add: eval_simps)
  define r where "r = normalize_lead validate_email phone_parse possible fmt free_txt disposable_txt inp mx"
  define free where "free = (or_empty host \<noteq> [] \<and> or_empty host \<in> set (load_domain_list free_txt))"
  have fields: "email_normalized r = em" "email_valid r = ok" "nr_is_free_mail r = free"
      "company_domain r = company_domain_of (ni_website inp) host free"
    by (simp_all add: r_def normalize_lead_def e Let_def free_def free_mail_domains_def split_beta)
  have dom: "case company_domain_of (ni_website inp) host free of
          None \<Rightarrow> True
        | Some d \<Rightarrow> d \<noteq> [] \<and> py_lower d = d
            \<and> (if website_host (or_empty (ni_website inp)) \<noteq> [] then CHR ''/'' \<notin> set d \<and> CHR '':'' \<notin> set d
               else d \<notin> set (load_domain_list free_txt) \<and> d = after_last_at em)"
    using web empty low unfolding company_domain_of_def free_def host(1) by (auto simp: Let_def)
  show ?thesis
    using dom host(2) load_domain_list_entries(1) unfolding r_def [symmetric] Let_def fields
    by (auto simp: free_def host(1))
qed

text \<open>
  The error list says exactly what was wrong: the address is valid if and only if no email error is listed; an
  email error is \<open>email_missing\<close> exactly for a blank address and \<open>email_invalid\<close> exactly when the validator refuses
  it; a phone error is listed exactly for a non-blank number that does not parse or is not possible, and then no
  number is returned.
\<close>

theorem normalize_errors_exact:
  "let r = normalize_lead validate_email phone_parse possible fmt free_txt disposable_txt inp mx;
       candidate = py_strip (ni_email inp); phone = py_strip (or_empty (ni_phone inp)) in
     errors r =
      (if candidate = [] then [''email_missing''] else if validate_email candidate mx = None then [''email_invalid''] else [])
      @ (if phone = [] then []
         else case phone_parse phone of
                None \<Rightarrow> [''phone_invalid'']
              | Some p \<Rightarrow> if possible p then [] else [''phone_invalid''])
     \<and> (email_valid r \<longleftrightarrow> candidate \<noteq> [] \<and> validate_email candidate mx \<noteq> None)
     \<and> (phone_e164 r = None \<longleftrightarrow> phone = [] \<or> ''phone_invalid'' \<in> set (errors r))"
  by (auto simp: normalize_lead_def normalize_email_def to_e164_def Let_def split: option.splits)

end
