(* ===== verification/Score.thy ===== *)
theory Score
  imports Py_Value
begin

text \<open>
  \<open>p01_backend/score.py\<close>: the deterministic lead score.  The parsed YAML configuration is a value of type
  \<open>pyval\<close>; a missing key or a value of the wrong type raises where the code would.  Each component
  function returns its points with the reasons it appends.  A form field name of the configuration is
  looked up among the fields of \<open>ScoreInput\<close>; no configuration names an inherited attribute.
\<close>

section \<open>Subscription, iteration and attribute access on untyped values\<close>

fun sub :: "pyval \<Rightarrow> string \<Rightarrow> pyval res" where
  "sub (PDict d) k = dsub d k"
| "sub _ k = Inl TypeError"

fun items :: "pyval \<Rightarrow> pydict res" where
  "items (PDict d) = Inr d"
| "items _ = Inl AttributeError"

fun iter :: "pyval \<Rightarrow> pyval list res" where
  "iter (PList xs) = Inr xs"
| "iter (PDict d) = Inr (map (\<lambda>(k, _). PStr k) d)"
| "iter (PStr s) = Inr (map (\<lambda>c. PStr [c]) s)"
| "iter _ = Inl TypeError"

definition get_str :: "pyval \<Rightarrow> string \<Rightarrow> string \<Rightarrow> string res" where
  "get_str v k dflt =
     rbind (items v) (\<lambda>d. Inr (case map_of d k of None \<Rightarrow> dflt | Some x \<Rightarrow> py_str x))"

definition sub_int :: "pyval \<Rightarrow> string \<Rightarrow> int res" where
  "sub_int v k = rbind (sub v k) py_int_of"

section \<open>Data\<close>

definition LLM_SCORE_CAP :: int where "LLM_SCORE_CAP = 20"

definition LADDER_ROUTES :: "string list" where
  "LADDER_ROUTES = [''archive'', ''nurture'', ''sales'']"

definition URGENCY_HINT_TO_BAND :: "string \<rightharpoonup> string" where
  "URGENCY_HINT_TO_BAND =
     [''now'' \<mapsto> ''now'', ''soon'' \<mapsto> ''1-3 months'', ''later'' \<mapsto> ''3-6 months'', ''unknown'' \<mapsto> ''unknown'']"

record score_input =
  company_size :: "string option"
  industry :: "string option"
  budget_range :: "string option"
  timeline :: "string option"
  urgency_hint :: "string option"
  intent :: "string option"
  is_free_mail :: bool
  llm_status :: "string option"

record score_result =
  score :: int
  breakdown :: "(string \<times> int) list"
  route :: string
  reasons :: "string list"

record scoring_config =
  sc_version :: int
  max_score :: int
  components :: pydict
  routes :: "pyval list"
  overrides :: "pyval list"

text \<open>\<open>getattr(inp, key, None)\<close>.\<close>

definition attr :: "score_input \<Rightarrow> string \<Rightarrow> pyval" where
  "attr inp key =
     (if key = ''company_size'' then opt_str (company_size inp)
      else if key = ''industry'' then opt_str (industry inp)
      else if key = ''budget_range'' then opt_str (budget_range inp)
      else if key = ''timeline'' then opt_str (timeline inp)
      else if key = ''urgency_hint'' then opt_str (urgency_hint inp)
      else if key = ''intent'' then opt_str (intent inp)
      else if key = ''is_free_mail'' then PBool (is_free_mail inp)
      else if key = ''llm_status'' then opt_str (llm_status inp)
      else PNone)"

fun str_or_none :: "pyval \<Rightarrow> string option" where
  "str_or_none (PStr s) = Some s"
| "str_or_none _ = None"

section \<open>Loading the configuration\<close>

fun as_list :: "pyval \<Rightarrow> pyval list res" where
  "as_list (PList xs) = Inr xs"
| "as_list _ = Inl ValueError"

text \<open>
  \<open>dict(x)\<close> of a mapping, or of a sequence of pairs, where a later pair wins; keys that are not strings
  are never looked up and are dropped.
\<close>

definition dict_entry :: "pyval \<Rightarrow> pydict res" where
  "dict_entry x =
     rbind (iter x) (\<lambda>ys.
     case ys of
       [k, v] \<Rightarrow>
         (case k of PStr s \<Rightarrow> Inr [(s, v)] | PList _ \<Rightarrow> Inl TypeError | PDict _ \<Rightarrow> Inl TypeError | _ \<Rightarrow> Inr [])
     | _ \<Rightarrow> Inl ValueError)"

definition as_dict :: "pyval \<Rightarrow> pydict res" where
  "as_dict v =
     (case v of
        PDict d \<Rightarrow> Inr d
      | _ \<Rightarrow> rbind (iter v) (\<lambda>xs. rbind (rmap dict_entry xs) (\<lambda>es. Inr (rev (concat es)))))"

definition load_config :: "pyval \<Rightarrow> scoring_config res" where
  "load_config raw =
     (case raw of
        PDict d \<Rightarrow>
          rbind (as_list (py_or (dget d ''routes'') (PList []))) (\<lambda>rs.
          rbind (as_list (py_or (dget d ''overrides'') (PList []))) (\<lambda>os.
          rbind (rbind (dsub d ''version'') py_int_of) (\<lambda>ver.
          rbind (rbind (dsub d ''max_score'') py_int_of) (\<lambda>mx.
          rbind (rbind (dsub d ''components'') as_dict) (\<lambda>cs.
          Inr \<lparr>sc_version = ver, max_score = mx, components = cs, routes = rs, overrides = os\<rparr>)))))
      | _ \<Rightarrow> Inl ValueError)"

section \<open>Helpers\<close>

fun matches :: "pydict \<Rightarrow> score_input \<Rightarrow> bool" where
  "matches [] inp = True"
| "matches ((key, expected) # rest) inp =
     (let actual = attr inp key in
      if key = ''is_free_mail'' then truthy actual = truthy expected \<and> matches rest inp
      else actual = expected \<and> matches rest inp)"

definition route_min :: "pyval \<Rightarrow> int res" where
  "route_min item = sub_int item ''min''"

text \<open>\<open>sorted(..., reverse=True)\<close> keeps the order of items with equal keys.\<close>

definition route_from_score :: "int \<Rightarrow> scoring_config \<Rightarrow> string res" where
  "route_from_score tot cfg =
     rbind (rmap (\<lambda>item. rbind (route_min item) (\<lambda>m. Inr (m, item))) (routes cfg)) (\<lambda>keyed.
     case find (\<lambda>(m, item). tot \<ge> m) (sort_key (\<lambda>(m, item). - m) keyed) of
       Some (m, item) \<Rightarrow> rbind (sub item ''name'') (\<lambda>n. Inr (py_str n))
     | None \<Rightarrow> Inr ''archive'')"

fun index_of :: "'a \<Rightarrow> 'a list \<Rightarrow> nat" where
  "index_of x [] = 0"
| "index_of x (y # ys) = (if x = y then 0 else Suc (index_of x ys))"

definition cap_route :: "string \<Rightarrow> string \<Rightarrow> string" where
  "cap_route current cap =
     (if current \<notin> set LADDER_ROUTES \<or> cap \<notin> set LADDER_ROUTES then current
      else if index_of current LADDER_ROUTES > index_of cap LADDER_ROUTES then cap
      else current)"

definition band_points :: "pyval \<Rightarrow> string option \<Rightarrow> (int \<times> string) res" where
  "band_points bands key =
     rbind (items bands) (\<lambda>d.
     rbind (rmap (\<lambda>(name, v). rbind (py_int_of v) (\<lambda>i. Inr (name, i))) d) (\<lambda>lookup.
     let unknown = (case map_of lookup ''unknown'' of None \<Rightarrow> 0 | Some p \<Rightarrow> p);
         normalized = py_strip (or_empty key)
     in if normalized = [] then Inr (unknown, ''unknown'')
        else case map_of lookup normalized of
          Some p \<Rightarrow> Inr (p, normalized)
        | None \<Rightarrow> Inr (unknown, ''unknown'')))"

definition cap_component :: "string \<Rightarrow> int \<Rightarrow> pyval \<Rightarrow> int res" where
  "cap_component name points component =
     rbind (sub_int component ''max'') (\<lambda>mx.
     let capped = min points mx
     in Inr (if name = ''ai_qualification'' then min capped LLM_SCORE_CAP else capped))"

section \<open>The five components\<close>

definition company_size_points :: "score_input \<Rightarrow> scoring_config \<Rightarrow> (int \<times> string list) res" where
  "company_size_points inp cfg =
     rbind (dsub (components cfg) ''company_size'') (\<lambda>component.
     rbind (sub component ''bands'') (\<lambda>bands.
     rbind (band_points bands (company_size inp)) (\<lambda>(raw, used).
     rbind (cap_component ''company_size'' raw component) (\<lambda>points.
     Inr (points, [''company_size='' @ used @ '' -> '' @ str_int points])))))"

definition lowered :: "pyval \<Rightarrow> string" where
  "lowered item = py_lower (py_str item)"

definition industry_points :: "score_input \<Rightarrow> scoring_config \<Rightarrow> (int \<times> string list) res" where
  "industry_points inp cfg =
     rbind (dsub (components cfg) ''industry_fit'') (\<lambda>component.
     let ind = py_lower (py_strip (or_empty (industry inp))) in
     rbind (rbind (sub component ''fit'') iter) (\<lambda>fit.
     rbind (rbind (sub component ''partial'') iter) (\<lambda>part.
     let (key, kind, ind') =
           (if ind \<in> set (map lowered fit) then (''fit_points'', ''fit'', ind)
            else if ind \<in> set (map lowered part) then (''partial_points'', ''partial'', ind)
            else (''other_points'', ''other'', if ind = [] then ''unknown'' else ind))
     in
     rbind (sub_int component key) (\<lambda>raw.
     rbind (cap_component ''industry_fit'' raw component) (\<lambda>points.
     Inr (points, [''industry='' @ ind' @ '' ('' @ kind @ '') -> '' @ str_int points]))))))"

definition budget_points :: "score_input \<Rightarrow> scoring_config \<Rightarrow> (int \<times> string list) res" where
  "budget_points inp cfg =
     rbind (dsub (components cfg) ''budget'') (\<lambda>component.
     rbind (get_str component ''form_field'' ''budget_range'') (\<lambda>fld.
     rbind (sub component ''bands'') (\<lambda>bands.
     rbind (band_points bands (str_or_none (attr inp fld))) (\<lambda>(raw, used).
     rbind (cap_component ''budget'' raw component) (\<lambda>points.
     Inr (points, [''budget='' @ used @ '' -> '' @ str_int points]))))))"

text \<open>The form's timeline, or the band of the model's hint when the form gives none.\<close>

definition urgency_band :: "pyval \<Rightarrow> string \<Rightarrow> string \<Rightarrow> (string option \<times> string list) res" where
  "urgency_band component stripped hint =
     (let given = (if stripped = [] then None else Some stripped) in
      if given = None \<or> given = Some ''unknown''
      then rbind (get_str component ''llm_fallback_field'' ''urgency_hint'') (\<lambda>fallback.
             if hint \<noteq> []
             then let band = (case URGENCY_HINT_TO_BAND hint of None \<Rightarrow> ''unknown'' | Some b \<Rightarrow> b)
                  in Inr (Some band, [''urgency used '' @ fallback @ ''='' @ hint @ '' as '' @ band])
             else Inr (given, []))
      else Inr (given, []))"

definition urgency_points :: "score_input \<Rightarrow> scoring_config \<Rightarrow> (int \<times> string list) res" where
  "urgency_points inp cfg =
     rbind (dsub (components cfg) ''urgency'') (\<lambda>component.
     rbind (get_str component ''form_field'' ''timeline'') (\<lambda>fld.
     rbind (urgency_band component (py_strip (or_empty (str_or_none (attr inp fld))))
              (py_strip (or_empty (urgency_hint inp)))) (\<lambda>(band, why).
     rbind (sub component ''bands'') (\<lambda>bands.
     rbind (band_points bands band) (\<lambda>(raw, used).
     rbind (cap_component ''urgency'' raw component) (\<lambda>points.
     Inr (points, why @ [''urgency='' @ used @ '' -> '' @ str_int points])))))))"

definition ai_points :: "score_input \<Rightarrow> scoring_config \<Rightarrow> (int \<times> string list) res" where
  "ai_points inp cfg =
     rbind (dsub (components cfg) ''ai_qualification'') (\<lambda>component.
     if llm_status inp = Some ''failed'' then Inr (0, [''llm_status=failed -> ai_qualification=0''])
     else
       rbind (rbind (sub component ''intent_points'') items) (\<lambda>d.
       rbind (rmap (\<lambda>(k, v). rbind (py_int_of v) (\<lambda>i. Inr (k, i))) d) (\<lambda>lookup.
       let wanted = py_strip (or_empty (intent inp)) in
       if wanted = [] then Inr (0, [''ai_qualification missing intent -> 0''])
       else
         rbind (cap_component ''ai_qualification''
                  (case map_of lookup wanted of None \<Rightarrow> 0 | Some p \<Rightarrow> p) component) (\<lambda>points.
         Inr (points, [''intent='' @ wanted @ '' -> '' @ str_int points @ '' (LLM cap '' @ str_int LLM_SCORE_CAP @ '')''])))))"

section \<open>Overrides\<close>

record override_state =
  os_total :: int
  os_route :: string
  os_forced :: bool
  os_reasons :: "string list"

definition apply_cap_score :: "scoring_config \<Rightarrow> pydict \<Rightarrow> override_state \<Rightarrow> override_state res" where
  "apply_cap_score cfg ov st =
     (case map_of ov ''cap_score'' of
        None \<Rightarrow> Inr st
      | Some v \<Rightarrow>
          rbind (py_int_of v) (\<lambda>cap.
          let st1 = (if os_total st > cap
                     then st\<lparr>os_reasons := os_reasons st
                               @ [''override cap_score='' @ str_int cap @ '' (was '' @ str_int (os_total st) @ '')''],
                             os_total := cap\<rparr>
                     else st\<lparr>os_reasons := os_reasons st
                               @ [''override cap_score='' @ str_int cap @ '' (score already '' @ str_int (os_total st) @ '')'']\<rparr>)
          in if \<not> os_forced st1
             then rbind (route_from_score (os_total st1) cfg) (\<lambda>r. Inr (st1\<lparr>os_route := r\<rparr>))
             else Inr st1))"

definition apply_route :: "pydict \<Rightarrow> override_state \<Rightarrow> override_state" where
  "apply_route ov st =
     (case map_of ov ''route'' of
        None \<Rightarrow> st
      | Some v \<Rightarrow> st\<lparr>os_route := py_str v, os_forced := True,
                    os_reasons := os_reasons st @ [''override route='' @ py_str v]\<rparr>)"

definition apply_cap_route :: "pydict \<Rightarrow> override_state \<Rightarrow> override_state" where
  "apply_cap_route ov st =
     (case map_of ov ''cap_route'' of
        None \<Rightarrow> st
      | Some v \<Rightarrow>
          let capped = cap_route (os_route st) (py_str v) in
          if capped \<noteq> os_route st
          then st\<lparr>os_reasons := os_reasons st
                    @ [''override cap_route='' @ py_str v @ '' (was '' @ os_route st @ '')''], os_route := capped\<rparr>
          else st\<lparr>os_reasons := os_reasons st
                    @ [''override cap_route='' @ py_str v @ '' (route stays '' @ os_route st @ '')'']\<rparr>)"

definition apply_override :: "score_input \<Rightarrow> scoring_config \<Rightarrow> pyval \<Rightarrow> override_state \<Rightarrow> override_state res" where
  "apply_override inp cfg ov st =
     rbind (items ov) (\<lambda>d.
     case py_or (dget d ''when'') (PDict []) of
       PDict cond \<Rightarrow>
         if \<not> matches cond inp then Inr st
         else rbind (apply_cap_score cfg d st) (\<lambda>st1. Inr (apply_cap_route d (apply_route d st1)))
     | _ \<Rightarrow> Inr st)"

fun apply_overrides :: "score_input \<Rightarrow> scoring_config \<Rightarrow> pyval list \<Rightarrow> override_state \<Rightarrow> override_state res" where
  "apply_overrides inp cfg [] st = Inr st"
| "apply_overrides inp cfg (ov # ovs) st = rbind (apply_override inp cfg ov st) (apply_overrides inp cfg ovs)"

section \<open>The score\<close>

definition score_lead :: "score_input \<Rightarrow> scoring_config \<Rightarrow> score_result res" where
  "score_lead inp cfg =
     rbind (company_size_points inp cfg) (\<lambda>(c, rc).
     rbind (industry_points inp cfg) (\<lambda>(i, ri).
     rbind (budget_points inp cfg) (\<lambda>(b, rb).
     rbind (urgency_points inp cfg) (\<lambda>(u, ru).
     rbind (ai_points inp cfg) (\<lambda>(a, ra).
     let tot = min (c + i + b + u + a) (max_score cfg) in
     rbind (route_from_score tot cfg) (\<lambda>first_route.
     rbind (apply_overrides inp cfg (overrides cfg)
              \<lparr>os_total = tot, os_route = first_route, os_forced = False,
               os_reasons = rc @ ri @ rb @ ru @ ra\<rparr>) (\<lambda>st.
     Inr \<lparr>score = os_total st,
          breakdown = [(''company_size'', c), (''industry_fit'', i), (''budget'', b), (''urgency'', u),
                       (''ai_qualification'', a)],
          route = os_route st,
          reasons = os_reasons st
            @ [''route='' @ os_route st @ '' score='' @ str_int (os_total st)]\<rparr>)))))))"

lemmas score_defs =
  get_str_def sub_int_def LLM_SCORE_CAP_def LADDER_ROUTES_def URGENCY_HINT_TO_BAND_def attr_def load_config_def
  route_min_def route_from_score_def cap_route_def band_points_def cap_component_def company_size_points_def
  lowered_def industry_points_def budget_points_def urgency_band_def urgency_points_def ai_points_def apply_cap_score_def
  apply_route_def apply_cap_route_def apply_override_def score_lead_def

section \<open>Limits that hold for every configuration\<close>

text \<open>The points of a component stay within its configured maximum, or are the 0 of a failed or missing model answer.\<close>

definition component_capped :: "scoring_config \<Rightarrow> string \<times> int \<Rightarrow> bool" where
  "component_capped cfg np \<longleftrightarrow>
     (case np of (name, p) \<Rightarrow>
        (\<exists>component mx. dsub (components cfg) name = Inr component \<and> sub_int component ''max'' = Inr mx \<and> p \<le> mx)
        \<or> name = ''ai_qualification'' \<and> p = 0)"

lemma cap_component_le:
  "cap_component name p component = Inr q \<Longrightarrow>
     (\<exists>mx. sub_int component ''max'' = Inr mx \<and> q \<le> mx) \<and> (name = ''ai_qualification'' \<longrightarrow> q \<le> 20)"
  by (auto simp: cap_component_def rbind_eq_Inr_iff Let_def LLM_SCORE_CAP_def)

lemma components_capped:
  "company_size_points inp cfg = Inr (p, why) \<Longrightarrow> component_capped cfg (''company_size'', p)"
  "industry_points inp cfg = Inr (p, why) \<Longrightarrow> component_capped cfg (''industry_fit'', p)"
  "budget_points inp cfg = Inr (p, why) \<Longrightarrow> component_capped cfg (''budget'', p)"
  "urgency_points inp cfg = Inr (p, why) \<Longrightarrow> component_capped cfg (''urgency'', p)"
  "ai_points inp cfg = Inr (p, why) \<Longrightarrow> component_capped cfg (''ai_qualification'', p) \<and> p \<le> 20"
  by (auto simp: company_size_points_def industry_points_def budget_points_def urgency_points_def ai_points_def
      component_capped_def rbind_eq_Inr_iff Let_def split: if_splits prod.splits dest!: cap_component_le)

lemma apply_route_total [simp]: "os_total (apply_route d st) = os_total st"
  by (simp add: apply_route_def split: option.split)

lemma apply_cap_route_total [simp]: "os_total (apply_cap_route d st) = os_total st"
  by (simp add: apply_cap_route_def Let_def split: option.split)

lemma apply_cap_score_lowers: "apply_cap_score cfg d st = Inr st' \<Longrightarrow> os_total st' \<le> os_total st"
  by (auto simp: apply_cap_score_def rbind_eq_Inr_iff Let_def split: if_splits option.splits)

lemma apply_override_lowers:
  assumes "apply_override inp cfg ov st = Inr st'"
  shows "os_total st' \<le> os_total st"
proof -
  obtain d where d: "items ov = Inr d" using assms by (auto simp: apply_override_def rbind_eq_Inr_iff)
  show ?thesis
    using assms d apply_cap_score_lowers
    by (cases "py_or (dget d ''when'') (PDict [])")
      (auto simp: apply_override_def rbind_eq_Inr_iff split: if_splits)
qed

lemma apply_overrides_lower: "apply_overrides inp cfg ovs st = Inr st' \<Longrightarrow> os_total st' \<le> os_total st"
proof (induction ovs arbitrary: st)
  case (Cons ov ovs)
  then show ?case by (fastforce simp: rbind_eq_Inr_iff dest: apply_override_lowers)
qed simp

text \<open>
  C22: Whatever the configuration and the lead, a score that is returned is at most the configured maximum and
  at most the sum of the breakdown, every part of the breakdown is within its component's maximum, and the part
  that comes from the model's intent is at most 20.
\<close>

theorem score_within_limits:
  assumes "score_lead inp cfg = Inr r"
  shows "score r \<le> max_score cfg \<and> score r \<le> sum_list (map snd (breakdown r))
     \<and> list_all (component_capped cfg) (breakdown r)
     \<and> (\<exists>p. map_of (breakdown r) ''ai_qualification'' = Some p \<and> p \<le> 20)"
proof -
  from assms obtain c rc i ri b rb u ru a ra st first where parts:
      "company_size_points inp cfg = Inr (c, rc)" "industry_points inp cfg = Inr (i, ri)"
      "budget_points inp cfg = Inr (b, rb)" "urgency_points inp cfg = Inr (u, ru)" "ai_points inp cfg = Inr (a, ra)"
      "apply_overrides inp cfg (overrides cfg)
        \<lparr>os_total = min (c + i + b + u + a) (max_score cfg), os_route = first, os_forced = False,
         os_reasons = rc @ ri @ rb @ ru @ ra\<rparr> = Inr st"
      "score r = os_total st" "breakdown r = [(''company_size'', c), (''industry_fit'', i), (''budget'', b), (''urgency'', u),
                       (''ai_qualification'', a)]"
    by (auto simp: score_lead_def rbind_eq_Inr_iff Let_def)
  from apply_overrides_lower [OF parts(6)] show ?thesis
    using components_capped(1) [OF parts(1)] components_capped(2) [OF parts(2)] components_capped(3) [OF parts(3)]
      components_capped(4) [OF parts(4)] components_capped(5) [OF parts(5)]
    by (simp add: parts(7,8))
qed

definition tiny_config :: scoring_config where
  "tiny_config =
     \<lparr>sc_version = 1, max_score = 30,
      components =
        [(''company_size'', PDict [(''max'', PInt 25), (''bands'', PDict [(''1-10'', PInt 40)])]),
         (''industry_fit'', PDict [(''max'', PInt 20), (''fit'', PList []), (''partial'', PList []), (''fit_points'', PInt 0),
            (''partial_points'', PInt 0), (''other_points'', PInt 3)]),
         (''budget'', PDict [(''max'', PInt 20), (''bands'', PDict [])]),
         (''urgency'', PDict [(''max'', PInt 15), (''bands'', PDict [])]),
         (''ai_qualification'', PDict [(''max'', PInt 50), (''intent_points'', PDict [(''pricing'', PInt 50)])])],
      routes = [], overrides = []\<rparr>"

definition tiny_lead :: score_input where
  "tiny_lead =
     \<lparr>company_size = Some ''1-10'', industry = None, budget_range = None, timeline = None, urgency_hint = None,
      intent = Some ''pricing'', is_free_mail = False, llm_status = None\<rparr>"

theorem score_within_limits_witness:
  "\<exists>r. score_lead tiny_lead tiny_config = Inr r \<and> score r \<le> 30
     \<and> (\<exists>p. map_of (breakdown r) ''ai_qualification'' = Some p \<and> p \<le> 20)"
proof -
  obtain r where r: "score_lead tiny_lead tiny_config = Inr r"
    by (simp add: tiny_lead_def tiny_config_def score_defs dsub_def eval_simps Let_def)
  from score_within_limits [OF r] r show ?thesis by (auto simp: tiny_config_def)
qed

end
