(* ===== verification/Score_Shipped.thy ===== *)
theory Score_Shipped
  imports Score
begin

text \<open>
  The scorer with the configuration the repository ships, \<open>p01-lead-qualification/backend/config/scoring.yaml\<close>:
  it never raises, the score and the route are the ones of a table-driven reference, and how far the
  fields the language model fills in can move the score.
\<close>

section \<open>The shipped file\<close>

definition int_dict :: "(string \<times> int) list \<Rightarrow> pyval" where
  "int_dict tbl = PDict (map (\<lambda>(k, i). (k, PInt i)) tbl)"

definition SIZE_BANDS :: "(string \<times> int) list" where
  "SIZE_BANDS =
     [(''1-10'', 5), (''11-50'', 15), (''51-200'', 25), (''201-1000'', 20), (''1000+'', 10), (''unknown'', 5)]"

definition BUDGET_BANDS :: "(string \<times> int) list" where
  "BUDGET_BANDS = [(''<5k'', 0), (''5k-20k'', 10), (''20k-50k'', 16), (''50k+'', 20), (''unknown'', 5)]"

definition URGENCY_BANDS :: "(string \<times> int) list" where
  "URGENCY_BANDS =
     [(''now'', 15), (''1-3 months'', 10), (''3-6 months'', 5), (''exploring'', 2), (''unknown'', 3)]"

definition INTENT_POINTS :: "(string \<times> int) list" where
  "INTENT_POINTS =
     [(''demo_request'', 20), (''pricing'', 16), (''partnership'', 8), (''other'', 4), (''support'', 0),
      (''job_application'', 0), (''spam'', 0)]"

definition FIT :: "string list" where
  "FIT = [''software'', ''saas'', ''manufacturing'', ''logistics'']"

definition PARTIAL :: "string list" where
  "PARTIAL = [''retail'', ''public_sector'']"

definition scoring_yaml :: pyval where
  "scoring_yaml = PDict
     [(''version'', PInt 1), (''max_score'', PInt 100),
      (''components'', PDict
         [(''company_size'', PDict [(''max'', PInt 25), (''bands'', int_dict SIZE_BANDS)]),
          (''industry_fit'', PDict
             [(''max'', PInt 20), (''fit'', PList (map PStr FIT)), (''partial'', PList (map PStr PARTIAL)),
              (''fit_points'', PInt 20), (''partial_points'', PInt 10), (''other_points'', PInt 0)]),
          (''budget'', PDict
             [(''max'', PInt 20), (''form_field'', PStr ''budget_range''), (''bands'', int_dict BUDGET_BANDS)]),
          (''urgency'', PDict
             [(''max'', PInt 15), (''form_field'', PStr ''timeline''), (''bands'', int_dict URGENCY_BANDS),
              (''llm_fallback_field'', PStr ''urgency_hint'')]),
          (''ai_qualification'', PDict [(''max'', PInt 20), (''intent_points'', int_dict INTENT_POINTS)])]),
      (''routes'', PList
         [PDict [(''name'', PStr ''sales''), (''min'', PInt 80)],
          PDict [(''name'', PStr ''nurture''), (''min'', PInt 50)],
          PDict [(''name'', PStr ''archive''), (''min'', PInt 0)]]),
      (''overrides'', PList
         [PDict [(''when'', PDict [(''intent'', PStr ''spam'')]), (''route'', PStr ''archive'')],
          PDict [(''when'', PDict [(''intent'', PStr ''job_application'')]), (''route'', PStr ''hr_forward'')],
          PDict [(''when'', PDict [(''intent'', PStr ''support'')]), (''route'', PStr ''support_forward'')],
          PDict [(''when'', PDict [(''is_free_mail'', PBool True)]), (''cap_score'', PInt 60)],
          PDict [(''when'', PDict [(''llm_status'', PStr ''failed'')]), (''cap_route'', PStr ''nurture'')]])]"

section \<open>The reference\<close>

definition band :: "(string \<times> int) list \<Rightarrow> string option \<Rightarrow> int" where
  "band tbl key =
     (case map_of tbl (py_strip (or_empty key)) of Some p \<Rightarrow> p | None \<Rightarrow> the (map_of tbl ''unknown''))"

definition ref_industry :: "string option \<Rightarrow> int" where
  "ref_industry v =
     (let ind = py_lower (py_strip (or_empty v))
      in if ind \<in> set FIT then 20 else if ind \<in> set PARTIAL then 10 else 0)"

text \<open>The band of the form, or of the model's hint when the form says nothing.\<close>

definition ref_timeline :: "score_input \<Rightarrow> string option" where
  "ref_timeline inp =
     (let given = py_strip (or_empty (timeline inp)); hint = py_strip (or_empty (urgency_hint inp))
      in if (given = [] \<or> given = ''unknown'') \<and> hint \<noteq> []
         then Some (case URGENCY_HINT_TO_BAND hint of None \<Rightarrow> ''unknown'' | Some b \<Rightarrow> b)
         else timeline inp)"

definition ref_ai :: "score_input \<Rightarrow> int" where
  "ref_ai inp =
     (if llm_status inp = Some ''failed'' then 0
      else case map_of INTENT_POINTS (py_strip (or_empty (intent inp))) of None \<Rightarrow> 0 | Some p \<Rightarrow> p)"

definition ref_sum :: "score_input \<Rightarrow> int" where
  "ref_sum inp =
     band SIZE_BANDS (company_size inp) + ref_industry (industry inp) + band BUDGET_BANDS (budget_range inp)
     + band URGENCY_BANDS (ref_timeline inp) + ref_ai inp"

definition ref_score :: "score_input \<Rightarrow> int" where
  "ref_score inp = (if is_free_mail inp then min (ref_sum inp) 60 else ref_sum inp)"

definition ref_ladder :: "int \<Rightarrow> string" where
  "ref_ladder s = (if 80 \<le> s then ''sales'' else if 50 \<le> s then ''nurture'' else ''archive'')"

definition ref_route :: "score_input \<Rightarrow> string" where
  "ref_route inp =
     (if intent inp = Some ''spam'' then ''archive''
      else if intent inp = Some ''job_application'' then ''hr_forward''
      else if intent inp = Some ''support'' then ''support_forward''
      else if llm_status inp = Some ''failed'' \<and> ref_ladder (ref_score inp) = ''sales'' then ''nurture''
      else ref_ladder (ref_score inp))"

lemmas table_defs = SIZE_BANDS_def BUDGET_BANDS_def URGENCY_BANDS_def INTENT_POINTS_def FIT_def PARTIAL_def

section \<open>The scorer meets the reference\<close>

definition shipped :: scoring_config where
  "shipped =
     (case load_config scoring_yaml of Inr cfg \<Rightarrow> cfg | Inl _ \<Rightarrow> \<lparr>sc_version = 0, max_score = 0, components = [], routes = [], overrides = []\<rparr>)"

lemma load_shipped: "load_config scoring_yaml = Inr shipped"
  by (simp add: shipped_def scoring_yaml_def load_config_def py_or_def dget_def dsub_def as_dict_def)

lemma shipped_fields:
  "max_score shipped = 100"
  "components shipped =
     [(''company_size'', PDict [(''max'', PInt 25), (''bands'', int_dict SIZE_BANDS)]),
      (''industry_fit'', PDict
             [(''max'', PInt 20), (''fit'', PList (map PStr FIT)), (''partial'', PList (map PStr PARTIAL)),
              (''fit_points'', PInt 20), (''partial_points'', PInt 10), (''other_points'', PInt 0)]),
      (''budget'', PDict
             [(''max'', PInt 20), (''form_field'', PStr ''budget_range''), (''bands'', int_dict BUDGET_BANDS)]),
      (''urgency'', PDict
             [(''max'', PInt 15), (''form_field'', PStr ''timeline''), (''bands'', int_dict URGENCY_BANDS),
              (''llm_fallback_field'', PStr ''urgency_hint'')]),
      (''ai_qualification'', PDict [(''max'', PInt 20), (''intent_points'', int_dict INTENT_POINTS)])]"
  "routes shipped =
     [PDict [(''name'', PStr ''sales''), (''min'', PInt 80)], PDict [(''name'', PStr ''nurture''), (''min'', PInt 50)],
      PDict [(''name'', PStr ''archive''), (''min'', PInt 0)]]"
  "overrides shipped =
     [PDict [(''when'', PDict [(''intent'', PStr ''spam'')]), (''route'', PStr ''archive'')],
      PDict [(''when'', PDict [(''intent'', PStr ''job_application'')]), (''route'', PStr ''hr_forward'')],
      PDict [(''when'', PDict [(''intent'', PStr ''support'')]), (''route'', PStr ''support_forward'')],
      PDict [(''when'', PDict [(''is_free_mail'', PBool True)]), (''cap_score'', PInt 60)],
      PDict [(''when'', PDict [(''llm_status'', PStr ''failed'')]), (''cap_route'', PStr ''nurture'')]]"
  by (simp_all add: shipped_def scoring_yaml_def load_config_def py_or_def dget_def dsub_def as_dict_def)

lemma rmap_ints:
  "rmap (\<lambda>(k, v). rbind (py_int_of v) (\<lambda>i. Inr (k, i))) (map (\<lambda>(k, i). (k, PInt i)) tbl) = Inr tbl"
  by (induction tbl) auto

lemma band_points_ints:
  assumes "map_of tbl [] = None" "map_of tbl ''unknown'' = Some u"
  shows "\<exists>used. band_points (int_dict tbl) key = Inr (band tbl key, used)"
  using assms by (auto simp: band_points_def int_dict_def rmap_ints band_def Let_def split: option.splits)

lemma band_range: "map_of tbl ''unknown'' = Some u \<Longrightarrow> list_all (\<lambda>(k, p). lo \<le> p \<and> p \<le> hi) tbl \<Longrightarrow> lo \<le> band tbl key \<and> band tbl key \<le> hi"
  by (auto simp: band_def list_all_iff split: option.splits dest!: map_of_SomeD)

lemma band_bounds:
  "5 \<le> band SIZE_BANDS key \<and> band SIZE_BANDS key \<le> 25"
  "0 \<le> band BUDGET_BANDS key \<and> band BUDGET_BANDS key \<le> 20"
  "2 \<le> band URGENCY_BANDS key \<and> band URGENCY_BANDS key \<le> 15"
  by (rule band_range [where u = 5], simp_all add: table_defs)
    (rule band_range [where u = 5], simp_all add: table_defs,
     rule band_range [where u = 3], simp_all add: table_defs)

lemma ref_ai_bounds: "0 \<le> ref_ai inp \<and> ref_ai inp \<le> 20"
proof -
  have "list_all (\<lambda>(k, p). 0 \<le> p \<and> p \<le> 20) INTENT_POINTS" by (simp add: INTENT_POINTS_def)
  then show ?thesis by (auto simp: ref_ai_def list_all_iff split: option.splits dest!: map_of_SomeD)
qed

lemma ref_industry_bounds: "0 \<le> ref_industry v \<and> ref_industry v \<le> 20"
  by (simp add: ref_industry_def Let_def)

lemma company_size_shipped: "\<exists>why. company_size_points inp shipped = Inr (band SIZE_BANDS (company_size inp), why)"
proof -
  obtain used where "band_points (int_dict SIZE_BANDS) (company_size inp) = Inr (band SIZE_BANDS (company_size inp), used)"
    using band_points_ints [of SIZE_BANDS 5 "company_size inp"] by (auto simp: SIZE_BANDS_def)
  then show ?thesis
    using band_bounds(1) [of "company_size inp"]
    by (simp add: company_size_points_def shipped_fields dsub_def cap_component_def sub_int_def Let_def)
qed

lemma budget_shipped: "\<exists>why. budget_points inp shipped = Inr (band BUDGET_BANDS (budget_range inp), why)"
proof -
  obtain used where "band_points (int_dict BUDGET_BANDS) (budget_range inp) = Inr (band BUDGET_BANDS (budget_range inp), used)"
    using band_points_ints [of BUDGET_BANDS 5 "budget_range inp"] by (auto simp: BUDGET_BANDS_def)
  moreover have "str_or_none (attr inp ''budget_range'') = budget_range inp"
    by (simp add: attr_def opt_str_def split: option.split)
  ultimately show ?thesis
    using band_bounds(2) [of "budget_range inp"]
    by (simp add: budget_points_def shipped_fields dsub_def cap_component_def sub_int_def get_str_def Let_def)
qed

lemma industry_shipped: "\<exists>why. industry_points inp shipped = Inr (ref_industry (industry inp), why)"
proof -
  have low: "lowered ` PStr ` set FIT = set FIT" "lowered ` PStr ` set PARTIAL = set PARTIAL"
    by (simp_all add: lowered_def FIT_def PARTIAL_def eval_simps)
  show ?thesis
    by (simp add: industry_points_def shipped_fields dsub_def cap_component_def sub_int_def Let_def low low [unfolded image_image]
        ref_industry_def)
qed

lemma ai_shipped: "\<exists>why. ai_points inp shipped = Inr (ref_ai inp, why)"
proof -
  have empty: "map_of INTENT_POINTS [] = None" by (simp add: INTENT_POINTS_def)
  show ?thesis
    using ref_ai_bounds [of inp] empty
    by (auto simp: ai_points_def shipped_fields dsub_def cap_component_def sub_int_def Let_def int_dict_def rmap_ints
        ref_ai_def LLM_SCORE_CAP_def split: option.splits)
qed

lemma band_strip: "py_strip (or_empty k) = py_strip (or_empty k') \<Longrightarrow> band tbl k = band tbl k'"
  by (simp add: band_def)

lemma urgency_band_shipped:
  "\<exists>k why. urgency_band (PDict
             [(''max'', PInt 15), (''form_field'', PStr ''timeline''), (''bands'', int_dict URGENCY_BANDS),
              (''llm_fallback_field'', PStr ''urgency_hint'')])
        (py_strip (or_empty (timeline inp))) (py_strip (or_empty (urgency_hint inp))) = Inr (k, why)
     \<and> band URGENCY_BANDS k = band URGENCY_BANDS (ref_timeline inp)"
proof -
  have same: "band tbl (Some (py_strip (or_empty (timeline inp)))) = band tbl (timeline inp)"
    "py_strip (or_empty (timeline inp)) = [] \<Longrightarrow> band tbl None = band tbl (timeline inp)" for tbl
    using py_strip_id [of "[]"] by (simp_all add: band_def)
  consider "py_strip (or_empty (timeline inp)) = []" | "py_strip (or_empty (timeline inp)) = ''unknown''"
    | "py_strip (or_empty (timeline inp)) \<noteq> []" "py_strip (or_empty (timeline inp)) \<noteq> ''unknown''" by blast
  then show ?thesis
  proof cases
    case 1
    with same(2) show ?thesis
      by (cases "py_strip (or_empty (urgency_hint inp)) = []")
        (simp_all add: urgency_band_def get_str_def ref_timeline_def Let_def)
  next
    case 2
    with same(1) show ?thesis
      by (cases "py_strip (or_empty (urgency_hint inp)) = []")
        (simp_all add: urgency_band_def get_str_def ref_timeline_def Let_def)
  next
    case 3
    with same(1) show ?thesis by (simp add: urgency_band_def ref_timeline_def Let_def)
  qed
qed

lemma urgency_shipped: "\<exists>why. urgency_points inp shipped = Inr (band URGENCY_BANDS (ref_timeline inp), why)"
proof -
  have points: "\<exists>used. band_points (int_dict URGENCY_BANDS) key = Inr (band URGENCY_BANDS key, used)" for key
    using band_points_ints [of URGENCY_BANDS 3 key] by (auto simp: URGENCY_BANDS_def)
  have attr: "str_or_none (attr inp ''timeline'') = timeline inp"
    by (simp add: attr_def opt_str_def split: option.split)
  have cap: "band URGENCY_BANDS k \<le> 15" for k using band_bounds(3) by blast
  define component where "component = PDict
             [(''max'', PInt 15), (''form_field'', PStr ''timeline''), (''bands'', int_dict URGENCY_BANDS),
              (''llm_fallback_field'', PStr ''urgency_hint'')]"
  obtain k why where k: "urgency_band component (py_strip (or_empty (timeline inp))) (py_strip (or_empty (urgency_hint inp)))
      = Inr (k, why)" "band URGENCY_BANDS k = band URGENCY_BANDS (ref_timeline inp)"
    using urgency_band_shipped unfolding component_def by blast
  obtain used where "band_points (int_dict URGENCY_BANDS) k = Inr (band URGENCY_BANDS k, used)" using points by blast
  then show ?thesis
    using k cap [of "ref_timeline inp"]
    by (simp add: urgency_points_def shipped_fields dsub_def get_str_def attr component_def cap_component_def
        sub_int_def Let_def)
qed

lemma route_shipped: "route_from_score tot shipped = Inr (ref_ladder tot)"
  by (simp add: route_from_score_def shipped_fields route_min_def sub_int_def dsub_def ref_ladder_def)

lemma matches_field:
  "matches [(''intent'', PStr x)] inp \<longleftrightarrow> intent inp = Some x"
  "matches [(''llm_status'', PStr x)] inp \<longleftrightarrow> llm_status inp = Some x"
  "matches [(''is_free_mail'', PBool True)] inp \<longleftrightarrow> is_free_mail inp"
  by (auto simp: attr_def opt_str_def split: option.splits)

lemma cap_route_nurture:
  "cap_route r ''nurture'' = (if r = ''sales'' then ''nurture'' else r)"
  by (simp add: cap_route_def LADDER_ROUTES_def)

lemma override_route:
  "apply_override inp cfg (PDict [(''when'', PDict [c]), (''route'', PStr x)]) st =
     Inr (if matches [c] inp
          then st\<lparr>os_route := x, os_forced := True, os_reasons := os_reasons st @ [''override route='' @ x]\<rparr> else st)"
  by (simp add: apply_override_def py_or_def dget_def apply_cap_score_def apply_cap_route_def apply_route_def)

lemma override_cap_score:
  "\<exists>st'. apply_override inp shipped (PDict [(''when'', PDict [(''is_free_mail'', PBool True)]), (''cap_score'', PInt 60)]) st = Inr st'
     \<and> os_total st' = (if is_free_mail inp then min (os_total st) 60 else os_total st)
     \<and> os_route st' = (if is_free_mail inp \<and> \<not> os_forced st then ref_ladder (min (os_total st) 60) else os_route st)"
  using matches_field(3) [of inp]
  by (cases "is_free_mail inp")
    (auto simp: apply_override_def py_or_def dget_def apply_cap_score_def apply_cap_route_def apply_route_def
      route_shipped Let_def min_def simp del: matches.simps)

lemma override_cap_route:
  "\<exists>st'. apply_override inp cfg (PDict [(''when'', PDict [(''llm_status'', PStr ''failed'')]), (''cap_route'', PStr ''nurture'')]) st
       = Inr st'
     \<and> os_total st' = os_total st
     \<and> os_route st' = (if llm_status inp = Some ''failed'' \<and> os_route st = ''sales'' then ''nurture'' else os_route st)"
  using matches_field(2) [of "''failed''" inp]
  by (auto simp: apply_override_def py_or_def dget_def apply_cap_score_def apply_cap_route_def apply_route_def
      cap_route_nurture Let_def simp del: matches.simps)

lemma override_intents:
  assumes "\<not> os_forced st"
  shows "\<exists>st'. rbind (apply_override inp cfg
        (PDict [(''when'', PDict [(''intent'', PStr ''spam'')]), (''route'', PStr ''archive'')]) st)
      (\<lambda>s. rbind (apply_override inp cfg
        (PDict [(''when'', PDict [(''intent'', PStr ''job_application'')]), (''route'', PStr ''hr_forward'')]) s)
      (apply_override inp cfg
        (PDict [(''when'', PDict [(''intent'', PStr ''support'')]), (''route'', PStr ''support_forward'')]))) = Inr st'
    \<and> os_total st' = os_total st
    \<and> os_forced st' = (intent inp \<in> {Some ''spam'', Some ''job_application'', Some ''support''})
    \<and> os_route st' = (if os_forced st' then ref_route inp else os_route st)"
  using assms
  by (cases "intent inp = Some ''spam''"; cases "intent inp = Some ''job_application''"; cases "intent inp = Some ''support''")
    (simp_all add: override_route matches_field ref_route_def del: matches.simps)

lemma overrides_shipped:
  assumes st: "os_total st = ref_sum inp" "os_route st = ref_ladder (ref_sum inp)" "\<not> os_forced st"
  shows "\<exists>st'. apply_overrides inp shipped (overrides shipped) st = Inr st'
    \<and> os_total st' = ref_score inp \<and> os_route st' = ref_route inp"
proof -
  let ?i1 = "PDict [(''when'', PDict [(''intent'', PStr ''spam'')]), (''route'', PStr ''archive'')]"
  let ?i2 = "PDict [(''when'', PDict [(''intent'', PStr ''job_application'')]), (''route'', PStr ''hr_forward'')]"
  let ?i3 = "PDict [(''when'', PDict [(''intent'', PStr ''support'')]), (''route'', PStr ''support_forward'')]"
  define forced where "forced = (intent inp \<in> {Some ''spam'', Some ''job_application'', Some ''support''})"
  obtain s3 where s3: "rbind (apply_override inp shipped ?i1 st) (\<lambda>s. rbind (apply_override inp shipped ?i2 s)
      (apply_override inp shipped ?i3)) = Inr s3"
      "os_total s3 = ref_sum inp" "os_forced s3 = forced" "\<not> forced \<Longrightarrow> os_route s3 = ref_ladder (ref_sum inp)"
      "forced \<Longrightarrow> os_route s3 = ref_route inp"
    using override_intents [OF st(3), of inp shipped] st(1,2) unfolding forced_def by fastforce
  obtain s4 where s4: "apply_override inp shipped
        (PDict [(''when'', PDict [(''is_free_mail'', PBool True)]), (''cap_score'', PInt 60)]) s3 = Inr s4"
      "os_total s4 = ref_score inp" "\<not> forced \<Longrightarrow> os_route s4 = ref_ladder (ref_score inp)"
      "forced \<Longrightarrow> os_route s4 = ref_route inp"
    using override_cap_score [of inp s3] s3 by (auto simp: ref_score_def)
  obtain s5 where s5: "apply_override inp shipped
        (PDict [(''when'', PDict [(''llm_status'', PStr ''failed'')]), (''cap_route'', PStr ''nurture'')]) s4 = Inr s5"
      "os_total s5 = ref_score inp"
      "os_route s5 = (if llm_status inp = Some ''failed'' \<and> os_route s4 = ''sales'' then ''nurture'' else os_route s4)"
    using override_cap_route [of inp shipped s4] s4 by auto
  have "os_route s5 = ref_route inp"
    using s4(3,4) s5(3) by (cases forced) (auto simp: ref_route_def forced_def)
  moreover have "apply_overrides inp shipped (overrides shipped) st = Inr s5"
    using s3(1) s4(1) s5(1) by (auto simp: shipped_fields rbind_eq_Inr_iff)
  ultimately show ?thesis using s5(2) by blast
qed

lemma ref_sum_bounds: "0 \<le> ref_sum inp \<and> ref_sum inp \<le> 100"
  using band_bounds(1) [of "company_size inp"] band_bounds(2) [of "budget_range inp"]
    band_bounds(3) [of "ref_timeline inp"] ref_ai_bounds [of inp] ref_industry_bounds [of "industry inp"]
  by (simp add: ref_sum_def)

lemma score_lead_shipped:
  "\<exists>r. score_lead inp shipped = Inr r \<and> score r = ref_score inp \<and> route r = ref_route inp"
proof -
  obtain w1 w2 w3 w4 w5 where parts:
      "company_size_points inp shipped = Inr (band SIZE_BANDS (company_size inp), w1)"
      "industry_points inp shipped = Inr (ref_industry (industry inp), w2)"
      "budget_points inp shipped = Inr (band BUDGET_BANDS (budget_range inp), w3)"
      "urgency_points inp shipped = Inr (band URGENCY_BANDS (ref_timeline inp), w4)"
      "ai_points inp shipped = Inr (ref_ai inp, w5)"
    using company_size_shipped industry_shipped budget_shipped urgency_shipped ai_shipped by metis
  have tot: "min (band SIZE_BANDS (company_size inp) + ref_industry (industry inp) + band BUDGET_BANDS (budget_range inp)
      + band URGENCY_BANDS (ref_timeline inp) + ref_ai inp) (max_score shipped) = ref_sum inp"
    using ref_sum_bounds [of inp] by (simp add: shipped_fields ref_sum_def)
  obtain st where st: "apply_overrides inp shipped (overrides shipped)
      \<lparr>os_total = ref_sum inp, os_route = ref_ladder (ref_sum inp), os_forced = False, os_reasons = w1 @ w2 @ w3 @ w4 @ w5\<rparr>
      = Inr st" "os_total st = ref_score inp" "os_route st = ref_route inp"
    using overrides_shipped [of "\<lparr>os_total = ref_sum inp, os_route = ref_ladder (ref_sum inp), os_forced = False,
        os_reasons = w1 @ w2 @ w3 @ w4 @ w5\<rparr>" inp] by auto
  show ?thesis using parts st by (simp add: score_lead_def tot route_shipped Let_def del: append_assoc)
qed

section \<open>Properties\<close>

text \<open>
  C23: With the shipped configuration the scorer returns for every lead (no key is missing, no value has the wrong
  type), and its score and route are those of the table-driven reference; the score is between 0 and 100.
\<close>

theorem shipped_score_exact:
  "\<exists>cfg r. load_config scoring_yaml = Inr cfg \<and> score_lead inp cfg = Inr r
     \<and> score r = ref_score inp \<and> route r = ref_route inp \<and> 0 \<le> score r \<and> score r \<le> 100"
proof -
  have "0 \<le> ref_score inp \<and> ref_score inp \<le> 100" using ref_sum_bounds [of inp] by (simp add: ref_score_def min_def)
  then show ?thesis using score_lead_shipped [of inp] load_shipped by auto
qed

text \<open>
  With the shipped configuration a lead is routed to sales only when its score is at least 80, its address is
  not a free-mail address, the model did not fail, and the model did not classify it as spam, a job application or
  a support request.
\<close>

theorem sales_route_requires:
  assumes "score_lead inp shipped = Inr r" and "route r = ''sales''"
  shows "80 \<le> score r \<and> \<not> is_free_mail inp \<and> llm_status inp \<noteq> Some ''failed''
    \<and> intent inp \<notin> {Some ''spam'', Some ''job_application'', Some ''support''}"
proof -
  have r: "score r = ref_score inp" "ref_route inp = ''sales''" using score_lead_shipped [of inp] assms by auto
  then have "80 \<le> ref_score inp"
    by (auto simp: ref_route_def ref_ladder_def split: if_splits)
  then show ?thesis using r by (auto simp: ref_route_def ref_score_def split: if_splits)
qed

definition hot_lead :: score_input where
  "hot_lead =
     \<lparr>company_size = Some ''51-200'', industry = Some ''SaaS'', budget_range = Some ''50k+'', timeline = None,
      urgency_hint = Some ''now'', intent = Some ''demo_request'', is_free_mail = False, llm_status = None\<rparr>"

text \<open>The same form without an answer of the model.\<close>

definition cold_lead :: score_input where
  "cold_lead = hot_lead\<lparr>urgency_hint := None, intent := None\<rparr>"

lemma hot_cold_scores: "ref_score hot_lead = 100" "ref_score cold_lead = 68" "ref_route hot_lead = ''sales''"
proof -
  show "ref_score hot_lead = 100"
    by (simp add: ref_score_def ref_sum_def hot_lead_def band_def ref_industry_def ref_timeline_def ref_ai_def
        table_defs URGENCY_HINT_TO_BAND_def eval_simps Let_def)
  then show "ref_route hot_lead = ''sales''" by (simp add: ref_route_def ref_ladder_def hot_lead_def)
  show "ref_score cold_lead = 68"
    by (simp add: ref_score_def ref_sum_def cold_lead_def hot_lead_def band_def ref_industry_def ref_timeline_def ref_ai_def
        table_defs URGENCY_HINT_TO_BAND_def eval_simps Let_def)
qed

theorem sales_route_requires_witness:
  "\<exists>r. score_lead hot_lead shipped = Inr r \<and> route r = ''sales'' \<and> 80 \<le> score r"
proof -
  obtain r where r: "score_lead hot_lead shipped = Inr r" "route r = ''sales''"
    using score_lead_shipped [of hot_lead] hot_cold_scores(3) by auto
  from sales_route_requires [OF r] r show ?thesis by blast
qed

lemma hint_band_bounds:
  "3 \<le> band URGENCY_BANDS (Some (case URGENCY_HINT_TO_BAND hint of None \<Rightarrow> ''unknown'' | Some b \<Rightarrow> b))"
proof -
  have "URGENCY_HINT_TO_BAND hint \<in> {None, Some ''now'', Some ''1-3 months'', Some ''3-6 months'', Some ''unknown''}"
    by (simp add: URGENCY_HINT_TO_BAND_def)
  then show ?thesis by (auto simp: band_def URGENCY_BANDS_def eval_simps)
qed

lemma urgency_swing:
  assumes "timeline inp = timeline inp'"
  shows "\<bar>band URGENCY_BANDS (ref_timeline inp) - band URGENCY_BANDS (ref_timeline inp')\<bar> \<le> 12"
    "py_strip (or_empty (timeline inp)) \<in> {[], ''unknown''}
      \<or> band URGENCY_BANDS (ref_timeline inp) = band URGENCY_BANDS (ref_timeline inp')"
proof -
  show same: "py_strip (or_empty (timeline inp)) \<in> {[], ''unknown''}
      \<or> band URGENCY_BANDS (ref_timeline inp) = band URGENCY_BANDS (ref_timeline inp')"
    using assms by (auto simp: ref_timeline_def Let_def)
  have "band URGENCY_BANDS (timeline inp) = 3" if "py_strip (or_empty (timeline inp)) \<in> {[], ''unknown''}"
    using that by (auto simp: band_def URGENCY_BANDS_def)
  then have "3 \<le> band URGENCY_BANDS (ref_timeline inp)" "3 \<le> band URGENCY_BANDS (ref_timeline inp')"
    if "py_strip (or_empty (timeline inp)) \<in> {[], ''unknown''}"
    using that assms hint_band_bounds by (auto simp: ref_timeline_def Let_def)
  moreover have "band URGENCY_BANDS k \<le> 15" for k using band_bounds(3) by blast
  ultimately show "\<bar>band URGENCY_BANDS (ref_timeline inp) - band URGENCY_BANDS (ref_timeline inp')\<bar> \<le> 12"
    using same by (smt (verit))
qed

text \<open>
  C24: With the shipped configuration, two leads whose form fields agree, and which so differ only in what the
  model filled in (intent, urgency hint, status), differ by at most 32 points; by at most 20 when the form
  states a timeline.  The bound 32 is reached: beside the intent's 20 points the urgency hint moves 12.
\<close>

theorem llm_influence:
  assumes "company_size inp = company_size inp'" "industry inp = industry inp'" "budget_range inp = budget_range inp'"
    "timeline inp = timeline inp'" "is_free_mail inp = is_free_mail inp'"
  shows "(\<exists>r r'. score_lead inp shipped = Inr r \<and> score_lead inp' shipped = Inr r' \<and> \<bar>score r - score r'\<bar> \<le> 32
      \<and> (py_strip (or_empty (timeline inp)) \<in> {[], ''unknown''} \<or> \<bar>score r - score r'\<bar> \<le> 20))
   \<and> (\<exists>r r'. score_lead hot_lead shipped = Inr r \<and> score_lead cold_lead shipped = Inr r' \<and> score r - score r' = 32)"
proof
  have "\<bar>ref_score inp - ref_score inp'\<bar> \<le> \<bar>ref_sum inp - ref_sum inp'\<bar>"
    using assms(5) by (auto simp: ref_score_def min_def)
  moreover have "ref_sum inp - ref_sum inp' =
      (band URGENCY_BANDS (ref_timeline inp) - band URGENCY_BANDS (ref_timeline inp')) + (ref_ai inp - ref_ai inp')"
    using assms(1-3) by (simp add: ref_sum_def)
  moreover have "\<bar>ref_ai inp - ref_ai inp'\<bar> \<le> 20" using ref_ai_bounds [of inp] ref_ai_bounds [of inp'] by linarith
  ultimately have "\<bar>ref_score inp - ref_score inp'\<bar> \<le> 32"
    "py_strip (or_empty (timeline inp)) \<in> {[], ''unknown''} \<or> \<bar>ref_score inp - ref_score inp'\<bar> \<le> 20"
    using urgency_swing [OF assms(4)] by linarith+
  then show "\<exists>r r'. score_lead inp shipped = Inr r \<and> score_lead inp' shipped = Inr r' \<and> \<bar>score r - score r'\<bar> \<le> 32
      \<and> (py_strip (or_empty (timeline inp)) \<in> {[], ''unknown''} \<or> \<bar>score r - score r'\<bar> \<le> 20)"
    using score_lead_shipped [of inp] score_lead_shipped [of inp'] by metis
  show "\<exists>r r'. score_lead hot_lead shipped = Inr r \<and> score_lead cold_lead shipped = Inr r' \<and> score r - score r' = 32"
    using score_lead_shipped [of hot_lead] score_lead_shipped [of cold_lead] hot_cold_scores(1,2) by auto
qed

theorem llm_influence_witness:
  "\<exists>r r'. score_lead hot_lead shipped = Inr r \<and> score_lead cold_lead shipped = Inr r' \<and> \<bar>score r - score r'\<bar> \<le> 32"
  using llm_influence [of hot_lead cold_lead] by (simp add: cold_lead_def) blast

end
