(* ===== verification/Lead_Api.thy ===== *)
theory Lead_Api
  imports Http Normalize Score_Shipped
begin

text \<open>
  \<open>p01_backend/main.py\<close> and \<open>p01_backend/config.py\<close>: the settings, the start-up and the two authenticated
  endpoints of the lead service.  An exception that is not an \<open>HTTPException\<close> is answered with 500 by the framework.
\<close>

section \<open>config.py\<close>

record settings =
  internal_api_token :: string
  p01_scoring_config :: string
  mx_check :: bool

definition token_not_blank :: "string \<Rightarrow> string res" where
  "token_not_blank value = (let token = py_strip value in if token = [] then Inl ValueError else Inr token)"

text \<open>
  The settings from the environment's values; a missing variable has the field's default, and defaults are validated.
  \<open>parse_bool\<close> stands for the settings package's reading of a flag.
\<close>

definition load_settings :: "(string \<Rightarrow> bool res) \<Rightarrow> (string \<rightharpoonup> string) \<Rightarrow> settings res" where
  "load_settings parse_bool env =
     rbind (token_not_blank (or_empty (env ''INTERNAL_API_TOKEN''))) (\<lambda>token.
     rbind (case env ''MX_CHECK'' of None \<Rightarrow> Inr False | Some v \<Rightarrow> parse_bool v) (\<lambda>mx.
     Inr \<lparr>internal_api_token = token, p01_scoring_config = or_empty (env ''P01_SCORING_CONFIG''), mx_check = mx\<rparr>))"

definition scoring_path :: "string \<Rightarrow> settings \<Rightarrow> string" where
  "scoring_path default_path st =
     (let raw = py_strip (p01_scoring_config st) in if raw \<noteq> [] then raw else default_path)"

section \<open>main.py\<close>

record lead_app =
  app_internal_api_token :: string
  app_scoring_config :: scoring_config
  app_mx_check :: bool

text \<open>\<open>read_yaml\<close> is \<open>None\<close> for a path that is not a file.\<close>

definition lead_lifespan ::
    "(string \<Rightarrow> bool res) \<Rightarrow> (string \<rightharpoonup> string) \<Rightarrow> string \<Rightarrow> (string \<Rightarrow> pyval res option) \<Rightarrow> lead_app res" where
  "lead_lifespan parse_bool env default_path read_yaml =
     (case load_settings parse_bool env of
        Inl _ \<Rightarrow> Inl (RuntimeError ''INTERNAL_API_TOKEN is missing or empty'')
      | Inr st \<Rightarrow>
          (let path = scoring_path default_path st in
           case read_yaml path of
             None \<Rightarrow> Inl (RuntimeError (''scoring config not found: '' @ path))
           | Some content \<Rightarrow>
               rbind content (\<lambda>raw.
               rbind (load_config raw) (\<lambda>cfg.
               Inr \<lparr>app_internal_api_token = internal_api_token st, app_scoring_config = cfg,
                    app_mx_check = mx_check st\<rparr>))))"

definition lead_require_token :: "lead_app \<Rightarrow> string option \<Rightarrow> http_error + unit" where
  "lead_require_token app provided =
     (case compare_digest (or_empty provided) (app_internal_api_token app) of
        Inl e \<Rightarrow> Inl (Unhandled e)
      | Inr ok \<Rightarrow> if \<not> ok then Inl (HTTPException 401 ''unauthorized'') else Inr ())"

definition lead_health :: "(string \<times> string) list" where
  "lead_health = [(''status'', ''ok'')]"

definition post_normalize ::
    "(string \<Rightarrow> bool \<Rightarrow> string option) \<Rightarrow> (string \<Rightarrow> 'p option) \<Rightarrow> ('p \<Rightarrow> bool) \<Rightarrow> ('p \<Rightarrow> string)
     \<Rightarrow> string \<Rightarrow> string \<Rightarrow> lead_app \<Rightarrow> string option \<Rightarrow> normalize_input \<Rightarrow> http_error + normalize_result" where
  "post_normalize validate_email phone_parse is_possible_number format_e164 free_txt disposable_txt app provided body =
     rbind (lead_require_token app provided) (\<lambda>_.
     Inr (normalize_lead validate_email phone_parse is_possible_number format_e164 free_txt disposable_txt body
            (app_mx_check app)))"

definition lift_error :: "'a res \<Rightarrow> http_error + 'a" where
  "lift_error r = (case r of Inl e \<Rightarrow> Inl (Unhandled e) | Inr x \<Rightarrow> Inr x)"

definition post_score :: "lead_app \<Rightarrow> string option \<Rightarrow> score_input \<Rightarrow> http_error + score_result" where
  "post_score app provided body =
     rbind (lead_require_token app provided) (\<lambda>_. lift_error (score_lead body (app_scoring_config app)))"

lemmas lead_api_defs [eval_simps] =
  token_not_blank_def load_settings_def scoring_path_def lead_lifespan_def lead_require_token_def post_normalize_def
  lift_error_def post_score_def

section \<open>Properties\<close>

lemma load_settings_token: "load_settings parse_bool env = Inr st \<Longrightarrow> internal_api_token st \<noteq> []"
  by (auto simp: load_settings_def token_not_blank_def rbind_eq_Inr_iff Let_def split: if_splits)

lemma lead_lifespan_started:
  assumes "lead_lifespan parse_bool env default_path read_yaml = Inr app"
  obtains st raw where "load_settings parse_bool env = Inr st" "app_internal_api_token app = internal_api_token st"
    "read_yaml (scoring_path default_path st) = Some (Inr raw)" "load_config raw = Inr (app_scoring_config app)"
  using assms
  by (auto simp: lead_lifespan_def rbind_eq_Inr_iff Let_def split: sum.splits option.splits)

text \<open>
  C25: A lead service that has started with the shipped scoring file answers a score request exactly when the
  request carries the configured token, which is not empty and ASCII: then every lead gets the score and the route
  of the reference.  Any other request ends in 401, or in the TypeError of comparing text that is not ASCII.
\<close>

theorem score_endpoint_exact:
  assumes "lead_lifespan parse_bool env default_path (\<lambda>_. Some (Inr scoring_yaml)) = Inr app"
  shows "case post_score app provided body of
      Inr r \<Rightarrow> or_empty provided = app_internal_api_token app \<and> provided \<noteq> None
        \<and> score r = ref_score body \<and> route r = ref_route body
    | Inl e \<Rightarrow> (e = HTTPException 401 ''unauthorized'' \<and> or_empty provided \<noteq> app_internal_api_token app)
        \<or> (e = Unhandled TypeError
            \<and> \<not> list_all (\<lambda>c. code c < 128) (or_empty provided @ app_internal_api_token app))"
proof -
  have st: "app_internal_api_token app \<noteq> []" "app_scoring_config app = shipped"
    using assms load_shipped by (auto elim!: lead_lifespan_started dest!: load_settings_token)
  obtain r where "score_lead body shipped = Inr r" "score r = ref_score body" "route r = ref_route body"
    using score_lead_shipped by blast
  then show ?thesis
    using st by (cases provided) (auto simp: post_score_def lead_require_token_def compare_digest_def lift_error_def)
qed

theorem score_endpoint_exact_witness:
  "\<exists>app r. lead_lifespan (\<lambda>_. Inr False) [''INTERNAL_API_TOKEN'' \<mapsto> '' s3cret ''] ''/config/scoring.yaml''
        (\<lambda>_. Some (Inr scoring_yaml)) = Inr app
     \<and> post_score app (Some ''s3cret'') hot_lead = Inr r \<and> score r = 100 \<and> route r = ''sales''"
proof -
  define app where "app = \<lparr>app_internal_api_token = ''s3cret'', app_scoring_config = shipped, app_mx_check = False\<rparr>"
  have start: "lead_lifespan (\<lambda>_. Inr False) [''INTERNAL_API_TOKEN'' \<mapsto> '' s3cret ''] ''/config/scoring.yaml''
        (\<lambda>_. Some (Inr scoring_yaml)) = Inr app"
    by (simp add: lead_lifespan_def load_settings_def token_not_blank_def scoring_path_def app_def load_shipped eval_simps Let_def)
  obtain r where r: "post_score app (Some ''s3cret'') hot_lead = Inr r"
    using score_lead_shipped [of hot_lead]
    by (auto simp: post_score_def lead_require_token_def compare_digest_def lift_error_def app_def)
  show ?thesis
    using score_endpoint_exact [OF start, of "Some ''s3cret''" hot_lead] start r hot_cold_scores by auto
qed

end
