(* ===== verification/Error_Taxonomy.thy ===== *)
theory Error_Taxonomy
  imports Py_Value
begin

text \<open>
  \<open>platform/libs/python/errors.py\<close>: the error classes of the platform and the retry delay.  An input is a parsed
  JSON value; the two regular expressions are matchers that return the digits of the leftmost match.
\<close>

section \<open>Constants\<close>

definition MAX_ATTEMPTS :: nat where "MAX_ATTEMPTS = 6"
definition BASE_DELAY_S :: rat where "BASE_DELAY_S = 2"
definition CAP_DELAY_S :: rat where "CAP_DELAY_S = 300"

definition TRANSIENT_STATUS :: "int list" where "TRANSIENT_STATUS = [500, 502, 503, 504]"
definition RATE_LIMIT_STATUS :: "int list" where "RATE_LIMIT_STATUS = [429]"
definition INVALID_STATUS :: "int list" where "INVALID_STATUS = [400, 422]"
definition AUTH_STATUS :: "int list" where "AUTH_STATUS = [401, 403]"
definition PERMANENT_STATUS :: "int list" where "PERMANENT_STATUS = [404, 410, 501, 409]"

definition TRANSIENT_CODES :: "string list" where
  "TRANSIENT_CODES =
     [''etimedout'', ''esockettimedout'', ''econnreset'', ''econnrefused'', ''econnaborted'', ''epipe'', ''eai_again'',
      ''enotfound'', ''eai_noname'', ''und_err_connect_timeout'', ''und_err_headers_timeout'', ''und_err_body_timeout'',
      ''timeout'', ''timeouterror'']"

definition TRANSIENT_MARKERS :: "string list" where
  "TRANSIENT_MARKERS =
     [''timed out'', ''timeout'', ''deadline exceeded'', ''connection reset'', ''connection refused'', ''socket hang up'',
      ''econnreset'', ''econnrefused'', ''eai_again'', ''enotfound'', ''temporary failure in name resolution'',
      ''getaddrinfo'']"

definition RATE_LIMIT_MARKERS :: "string list" where
  "RATE_LIMIT_MARKERS =
     [''rate_limit'', ''ratelimit'', ''too many requests'', ''too_many_requests'', ''throttl'', ''resource_exhausted'']"

definition INVALID_MARKERS :: "string list" where
  "INVALID_MARKERS =
     [''schema validation'', ''validation error'', ''validation failed'', ''json schema'', ''schema_validation'',
      ''validation_error'', ''pydantic'']"

definition STATUS_KEYS :: "string list" where
  "STATUS_KEYS = [''status'', ''statusCode'', ''httpCode'', ''status_code'', ''http_code'']"

definition CODE_KEYS :: "string list" where "CODE_KEYS = [''code'', ''errno'', ''errorCode'', ''error_code'']"
definition MESSAGE_KEYS :: "string list" where "MESSAGE_KEYS = [''message'', ''description'']"

section \<open>The regular expressions\<close>

definition is_word :: "char \<Rightarrow> bool" where
  "is_word c \<longleftrightarrow> is_alnum c \<or> c = CHR ''_''"

text \<open>The three digits at the head of a text.\<close>

definition three_digits :: "string \<Rightarrow> string option" where
  "three_digits s = (if length s \<ge> 3 \<and> list_all is_decimal (take 3 s) then Some (take 3 s) else None)"

text \<open>\<open>status code (\d{3})\<close>, ignoring case.\<close>

fun status_in_message :: "string \<Rightarrow> string option" where
  "status_in_message [] = None"
| "status_in_message (c # cs) =
     (case (if prefix ''status code '' (py_lower (c # cs)) then three_digits (drop 12 (c # cs)) else None) of
        Some d \<Rightarrow> Some d
      | None \<Rightarrow> status_in_message cs)"

text \<open>\<open>\bHTTP[ /](\d{3})\b\<close>, ignoring case; the first argument says whether a word character precedes.\<close>

definition http_here :: "bool \<Rightarrow> string \<Rightarrow> string option" where
  "http_here after_word s =
     (if \<not> after_word \<and> (prefix ''http '' (py_lower s) \<or> prefix ''http/'' (py_lower s))
      then case three_digits (drop 5 s) of
             Some d \<Rightarrow> if drop 8 s \<noteq> [] \<and> is_word (hd (drop 8 s)) then None else Some d
           | None \<Rightarrow> None
      else None)"

fun http_in_message :: "bool \<Rightarrow> string \<Rightarrow> string option" where
  "http_in_message after_word [] = None"
| "http_in_message after_word (c # cs) =
     (case http_here after_word (c # cs) of
        Some d \<Rightarrow> Some d
      | None \<Rightarrow> http_in_message (is_word c) cs)"

section \<open>Reading the input\<close>

definition in_status_range :: "int \<Rightarrow> int option" where
  "in_status_range n = (if 100 \<le> n \<and> n \<le> 599 then Some n else None)"

fun to_status :: "pyval \<Rightarrow> int option res" where
  "to_status (PInt i) = Inr (in_status_range i)"
| "to_status (PFloat t) =
     (case float_val t of
        Some q \<Rightarrow> if of_int \<lfloor>q\<rfloor> = q then Inr (in_status_range \<lfloor>q\<rfloor>) else Inr None
      | None \<Rightarrow> Inr None)"
| "to_status (PStr s) =
     (if py_isdigit (py_strip s) then rbind (py_int (py_strip s)) (\<lambda>n. Inr (in_status_range n)) else Inr None)"
| "to_status _ = Inr None"

text \<open>The loop over the status keys; each is looked up in the outer mapping, then in the nested one.\<close>

fun status_from :: "pyval list \<Rightarrow> int option res" where
  "status_from [] = Inr None"
| "status_from (v # vs) =
     rbind (to_status v) (\<lambda>r. case r of Some n \<Rightarrow> Inr (Some n) | None \<Rightarrow> status_from vs)"

definition looked_up :: "pydict \<Rightarrow> pydict \<Rightarrow> string list \<Rightarrow> pyval list" where
  "looked_up src nested ks = concat (map (\<lambda>k. [dget src k, dget nested k]) ks)"

definition first_status :: "pydict \<Rightarrow> pydict \<Rightarrow> int option res" where
  "first_status src nested =
     rbind (status_from (looked_up src nested STATUS_KEYS)) (\<lambda>found.
     case found of
       Some n \<Rightarrow> Inr (Some n)
     | None \<Rightarrow>
         (let msg = py_str (py_or (dget src ''message'') (py_or (dget nested ''message'') (py_or (dget src ''error'') (PStr []))));
              m = (case status_in_message msg of Some d \<Rightarrow> Some d | None \<Rightarrow> http_in_message False msg)
          in case m of Some d \<Rightarrow> to_status (PStr d) | None \<Rightarrow> Inr None))"

fun first_string :: "pyval list \<Rightarrow> string" where
  "first_string [] = []"
| "first_string (PStr s # vs) = (if s \<noteq> [] then s else first_string vs)"
| "first_string (_ # vs) = first_string vs"

definition first_text :: "pydict \<Rightarrow> pydict \<Rightarrow> string list \<Rightarrow> string" where
  "first_text src nested ks = first_string (looked_up src nested ks)"

definition norm_code :: "string \<Rightarrow> string" where
  "norm_code v = replace_char CHR ''-'' CHR ''_'' (py_lower v)"

record parsed_error =
  p_status :: "int option"
  p_code :: string
  p_blob :: string
  p_idempotent_create :: bool

fun mapping_or_empty :: "pyval \<Rightarrow> pydict" where
  "mapping_or_empty (PDict d) = d"
| "mapping_or_empty _ = []"

definition parse_error :: "pyval \<Rightarrow> parsed_error res" where
  "parse_error input_value =
     (let src = mapping_or_empty input_value;
          error_field = dget src ''error'';
          nested = mapping_or_empty error_field
      in rbind (first_status src nested) (\<lambda>st.
         let cd = norm_code (first_text src nested CODE_KEYS);
             message = py_lower (first_text src nested MESSAGE_KEYS);
             error_text = (case error_field of PStr s \<Rightarrow> py_lower s | _ \<Rightarrow> [])
         in Inr \<lparr>p_status = st, p_code = cd,
                 p_blob = replace_char CHR ''-'' CHR ''_'' (cd @ '' '' @ message @ '' '' @ error_text),
                 p_idempotent_create =
                   list_ex (\<lambda>v. v = PBool True) (looked_up src nested [''idempotent_create'', ''idempotentCreate''])\<rparr>))"

section \<open>Classification\<close>

record classification =
  error_class :: string
  retry :: bool
  idempotent_success :: bool

definition result_of :: "string \<Rightarrow> bool \<Rightarrow> bool \<Rightarrow> classification" where
  "result_of cls rt idem = \<lparr>error_class = cls, retry = rt, idempotent_success = idem\<rparr>"

definition has_marker :: "string \<Rightarrow> string list \<Rightarrow> bool" where
  "has_marker blob markers = list_ex (\<lambda>m. contains m blob) markers"

definition is_transient :: "string \<Rightarrow> string \<Rightarrow> bool" where
  "is_transient cd blob \<longleftrightarrow> cd \<in> set TRANSIENT_CODES \<or> has_marker blob TRANSIENT_MARKERS"

definition status_in :: "int option \<Rightarrow> int list \<Rightarrow> bool" where
  "status_in st xs = (case st of None \<Rightarrow> False | Some n \<Rightarrow> n \<in> set xs)"

definition classify_parsed :: "parsed_error \<Rightarrow> classification" where
  "classify_parsed p =
     (if p_status p = Some 409 \<and> p_idempotent_create p then result_of ''success'' False True
      else if status_in (p_status p) TRANSIENT_STATUS then result_of ''transient'' True False
      else if status_in (p_status p) RATE_LIMIT_STATUS then result_of ''rate_limited'' True False
      else if status_in (p_status p) INVALID_STATUS then result_of ''invalid_data'' False False
      else if status_in (p_status p) AUTH_STATUS then result_of ''auth'' False False
      else if status_in (p_status p) PERMANENT_STATUS then result_of ''permanent'' False False
      else if is_transient (p_code p) (p_blob p) then result_of ''transient'' True False
      else if has_marker (p_blob p) RATE_LIMIT_MARKERS then result_of ''rate_limited'' True False
      else if has_marker (p_blob p) INVALID_MARKERS then result_of ''invalid_data'' False False
      else result_of ''unknown'' False False)"

definition classify_error :: "pyval \<Rightarrow> classification res" where
  "classify_error input_value = rbind (parse_error input_value) (\<lambda>p. Inr (classify_parsed p))"

section \<open>The retry delay\<close>

text \<open>
  \<open>2**exp\<close> is an exact integer that is converted to a double for the product, which raises from \<open>2**1024\<close> on; the
  product with a power of two is exact.  \<open>fl\<close> is the rounding of the last product to a double.
\<close>

definition delay_ceiling :: "int \<Rightarrow> rat \<Rightarrow> rat \<Rightarrow> rat res" where
  "delay_ceiling attempt base_s cap =
     (let ex = (if attempt < 0 then 0 else nat attempt) in
      if ex \<ge> 1024 then Inl OverflowError else Inr (min cap (base_s * 2 ^ ex)))"

definition compute_next_delay :: "(rat \<Rightarrow> rat) \<Rightarrow> int \<Rightarrow> rat \<Rightarrow> rat \<Rightarrow> rat \<Rightarrow> rat res" where
  "compute_next_delay fl attempt base_s cap jitter =
     rbind (delay_ceiling attempt base_s cap) (\<lambda>c. Inr (fl (jitter * c)))"

lemmas taxonomy_defs [eval_simps] =
  MAX_ATTEMPTS_def BASE_DELAY_S_def CAP_DELAY_S_def TRANSIENT_STATUS_def RATE_LIMIT_STATUS_def INVALID_STATUS_def
  AUTH_STATUS_def PERMANENT_STATUS_def TRANSIENT_CODES_def TRANSIENT_MARKERS_def RATE_LIMIT_MARKERS_def INVALID_MARKERS_def
  STATUS_KEYS_def CODE_KEYS_def MESSAGE_KEYS_def is_word_def three_digits_def http_here_def in_status_range_def
  looked_up_def first_status_def first_text_def norm_code_def parse_error_def result_of_def has_marker_def
  is_transient_def status_in_def classify_parsed_def classify_error_def delay_ceiling_def compute_next_delay_def

section \<open>What an error says\<close>

text \<open>The value of a key, and the values at the places where a setting is looked for: at each key the outer object first.\<close>

definition at_key :: "pyval \<Rightarrow> string \<Rightarrow> pyval" where
  "at_key v k = (case v of PDict d \<Rightarrow> (case map_of d k of Some w \<Rightarrow> w | None \<Rightarrow> PNone) | _ \<Rightarrow> PNone)"

definition places :: "pyval \<Rightarrow> string list \<Rightarrow> pyval list" where
  "places v ks = concat (map (\<lambda>k. [at_key v k, at_key (at_key v ''error'') k]) ks)"

text \<open>A value that is a status: a whole number, or a text of decimal digits between spaces, from 100 to 599.\<close>

inductive names_status :: "pyval \<Rightarrow> int \<Rightarrow> bool" where
  "100 \<le> n \<Longrightarrow> n \<le> 599 \<Longrightarrow> names_status (PInt n) n"
| "100 \<le> n \<Longrightarrow> n \<le> 599 \<Longrightarrow> float_val t = Some (of_int n) \<Longrightarrow> names_status (PFloat t) n"
| "100 \<le> n \<Longrightarrow> n \<le> 599 \<Longrightarrow> list_all is_decimal (py_strip s) \<Longrightarrow> py_strip s \<noteq> [] \<Longrightarrow> length (py_strip s) \<le> 4300
    \<Longrightarrow> n = int (int_of_digits (py_strip s)) \<Longrightarrow> names_status (PStr s) n"

inductive_simps names_status_simps:
  "names_status (PInt i) n" "names_status (PFloat t) n" "names_status (PStr s) n" "names_status PNone n"
  "names_status (PBool b) n" "names_status (PList xs) n" "names_status (PDict d) n"

text \<open>A text of digits in the sense of \<open>str.isdigit\<close> that \<open>int()\<close> does not take.\<close>

definition bad_status_text :: "pyval \<Rightarrow> bool" where
  "bad_status_text v \<longleftrightarrow>
     (case v of
        PStr s \<Rightarrow> py_isdigit (py_strip s) \<and> (\<not> list_all is_decimal (py_strip s) \<or> 4300 < length (py_strip s))
      | _ \<Rightarrow> False)"

definition silent :: "pyval \<Rightarrow> bool" where
  "silent w \<longleftrightarrow> \<not> bad_status_text w \<and> (\<nexists>n. names_status w n)"

text \<open>The first place that is not silent.\<close>

definition first_telling :: "pyval list \<Rightarrow> pyval \<Rightarrow> bool" where
  "first_telling vs w \<longleftrightarrow> (\<exists>us ws. vs = us @ w # ws \<and> list_all silent us \<and> \<not> silent w)"

definition status_places :: "pyval \<Rightarrow> pyval list" where
  "status_places v = places v [''status'', ''statusCode'', ''httpCode'', ''status_code'', ''http_code'']"

definition unreadable_status :: "pyval \<Rightarrow> bool" where
  "unreadable_status v \<longleftrightarrow> (\<exists>w. first_telling (status_places v) w \<and> bad_status_text w)"

text \<open>A status in the message: \<open>status code ddd\<close> anywhere, else \<open>HTTP ddd\<close> or \<open>HTTP/ddd\<close> as whole words; leftmost.\<close>

definition three_at :: "string \<Rightarrow> nat \<Rightarrow> string \<Rightarrow> bool" where
  "three_at msg i d \<longleftrightarrow> d = take 3 (drop i msg) \<and> length d = 3 \<and> list_all is_decimal d"

definition code_at :: "string \<Rightarrow> nat \<Rightarrow> string \<Rightarrow> bool" where
  "code_at msg i d \<longleftrightarrow> py_lower (take 12 (drop i msg)) = ''status code '' \<and> three_at msg (i + 12) d"

definition http_at :: "string \<Rightarrow> nat \<Rightarrow> string \<Rightarrow> bool" where
  "http_at msg i d \<longleftrightarrow>
     py_lower (take 5 (drop i msg)) \<in> {''http '', ''http/''} \<and> three_at msg (i + 5) d
     \<and> (i = 0 \<or> \<not> is_word (msg ! (i - 1))) \<and> (i + 8 = length msg \<or> \<not> is_word (msg ! (i + 8)))"

definition leftmost :: "(nat \<Rightarrow> string \<Rightarrow> bool) \<Rightarrow> string \<Rightarrow> bool" where
  "leftmost P d \<longleftrightarrow> (\<exists>i. P i d \<and> (\<forall>j < i. \<nexists>d'. P j d'))"

definition message_status :: "string \<Rightarrow> int option \<Rightarrow> bool" where
  "message_status msg st \<longleftrightarrow>
     (if \<exists>i d. code_at msg i d then \<exists>d. leftmost (code_at msg) d \<and> st = in_status_range (int (int_of_digits d))
      else if \<exists>i d. http_at msg i d then \<exists>d. leftmost (http_at msg) d \<and> st = in_status_range (int (int_of_digits d))
      else st = None)"

definition message_of :: "pyval \<Rightarrow> string" where
  "message_of v =
     (case find truthy [at_key v ''message'', at_key (at_key v ''error'') ''message'', at_key v ''error''] of
        Some w \<Rightarrow> py_str w
      | None \<Rightarrow> [])"

definition stated_status :: "pyval \<Rightarrow> int option \<Rightarrow> bool" where
  "stated_status v st \<longleftrightarrow>
     (\<exists>w n. first_telling (status_places v) w \<and> names_status w n \<and> st = Some n)
     \<or> list_all silent (status_places v) \<and> message_status (message_of v) st"

definition idempotent :: "pyval \<Rightarrow> bool" where
  "idempotent v \<longleftrightarrow> PBool True \<in> set (places v [''idempotent_create'', ''idempotentCreate''])"

text \<open>The text an error without a listed status is classified by.\<close>

definition said :: "pyval \<Rightarrow> string list \<Rightarrow> string" where
  "said v ks = (case find (\<lambda>w. \<exists>s. w = PStr s \<and> s \<noteq> []) (places v ks) of Some (PStr s) \<Rightarrow> s | _ \<Rightarrow> [])"

definition dashes :: "string \<Rightarrow> string" where
  "dashes s = map (\<lambda>c. if c = CHR ''-'' then CHR ''_'' else c) (py_lower s)"

definition said_code :: "pyval \<Rightarrow> string" where
  "said_code v = dashes (said v [''code'', ''errno'', ''errorCode'', ''error_code''])"

definition said_text :: "pyval \<Rightarrow> string" where
  "said_text v =
     said_code v @ '' '' @ dashes (said v [''message'', ''description'']) @ '' ''
     @ (case at_key v ''error'' of PStr s \<Rightarrow> dashes s | _ \<Rightarrow> [])"

definition text_class :: "pyval \<Rightarrow> string" where
  "text_class v =
     (if said_code v \<in> set TRANSIENT_CODES \<or> (\<exists>m \<in> set TRANSIENT_MARKERS. contains m (said_text v)) then ''transient''
      else if \<exists>m \<in> set RATE_LIMIT_MARKERS. contains m (said_text v) then ''rate_limited''
      else if \<exists>m \<in> set INVALID_MARKERS. contains m (said_text v) then ''invalid_data''
      else ''unknown'')"

section \<open>The parser reads what is said\<close>

lemma looked_up_places:
  "looked_up (mapping_or_empty v) (mapping_or_empty (dget (mapping_or_empty v) ''error'')) ks = places v ks"
proof -
  have key: "dget (mapping_or_empty w) k = at_key w k" for w k
    by (cases w) (auto simp: dget_def at_key_def split: option.split)
  show ?thesis unfolding looked_up_def places_def key ..
qed

lemma dget_at_key: "dget (mapping_or_empty w) k = at_key w k"
  by (cases w) (auto simp: dget_def at_key_def split: option.split)

lemma to_status_cases:
  "(case to_status w of
      Inl e \<Rightarrow> e = ValueError \<and> bad_status_text w
    | Inr (Some n) \<Rightarrow> names_status w n \<and> \<not> bad_status_text w
    | Inr None \<Rightarrow> silent w)"
proof (cases w)
  case (PStr s)
  define t where "t = py_strip s"
  consider "\<not> py_isdigit t" | "py_isdigit t" "\<not> list_all is_decimal t" | "py_isdigit t" "list_all is_decimal t" "4300 < length t"
    | "py_isdigit t" "list_all is_decimal t" "length t \<le> 4300" by fastforce
  then show ?thesis
  proof cases
    case 1
    have "list_all is_decimal t \<Longrightarrow> t = []"
      using 1 by (auto simp: py_isdigit_def all_chars_def list_all_iff char_simps)
    then show ?thesis using 1 by (auto simp: PStr t_def silent_def bad_status_text_def names_status_simps)
  next
    case 2
    then show ?thesis using py_int_bad_digit [of t] by (simp add: PStr t_def bad_status_text_def py_isdigit_def all_chars_def)
  next
    case 3
    then show ?thesis using py_int_too_long [of t] by (simp add: PStr t_def bad_status_text_def py_isdigit_def all_chars_def)
  next
    case 4
    then have "t \<noteq> []" by (simp add: py_isdigit_def all_chars_def)
    then show ?thesis
      using 4 py_int_decimal [of t]
      by (auto simp: PStr t_def bad_status_text_def names_status_simps silent_def in_status_range_def)
  qed
qed (auto simp: names_status_simps silent_def bad_status_text_def in_status_range_def floor_eq_iff split: option.splits)

lemma first_telling_Cons: "first_telling (w # ws) x \<longleftrightarrow> (if silent w then first_telling ws x else x = w)"
proof -
  have "w # ws = us @ x # ys \<longleftrightarrow> us = [] \<and> w = x \<and> ws = ys \<or> (\<exists>vs. us = w # vs \<and> ws = vs @ x # ys)" for us ys
    by (cases us) auto
  then have "first_telling (w # ws) x \<longleftrightarrow> \<not> silent x \<and> (w = x \<or> silent w \<and> (\<exists>us ys. ws = us @ x # ys \<and> list_all silent us))"
    unfolding first_telling_def by (metis (no_types, lifting) list.pred_inject)
  then show ?thesis by (auto simp: first_telling_def)
qed

lemma status_from_cases:
  "(case status_from vs of
      Inl e \<Rightarrow> e = ValueError \<and> (\<exists>w. first_telling vs w \<and> bad_status_text w)
    | Inr (Some n) \<Rightarrow> \<exists>w. first_telling vs w \<and> names_status w n \<and> \<not> bad_status_text w
    | Inr None \<Rightarrow> list_all silent vs)"
proof (induction vs)
  case (Cons w ws)
  show ?case
  proof (cases "to_status w")
    case (Inl e)
    then show ?thesis using to_status_cases [of w] by (auto simp: first_telling_Cons silent_def)
  next
    case (Inr st)
    then show ?thesis
      using to_status_cases [of w] Cons by (cases st) (auto simp: first_telling_Cons silent_def [of w] split: sum.splits option.splits)
  qed
qed simp

lemma leftmost_step: "leftmost P d \<longleftrightarrow> (if \<exists>d'. P 0 d' then P 0 d else leftmost (\<lambda>i. P (Suc i)) d)"
proof (cases "\<exists>d'. P 0 d'")
  case True
  then have "P i d \<and> (\<forall>j < i. \<nexists>d'. P j d') \<longleftrightarrow> i = 0 \<and> P 0 d" for i by (cases i) auto
  then show ?thesis using True by (simp add: leftmost_def)
next
  case False
  then have "(\<forall>j < Suc i. \<nexists>d'. P j d') \<longleftrightarrow> (\<forall>j < i. \<nexists>d'. P (Suc j) d')" for i
    by (auto simp: less_Suc_eq_0_disj)
  moreover have "leftmost P d \<longleftrightarrow> (\<exists>i. P (Suc i) d \<and> (\<forall>j < Suc i. \<nexists>d'. P j d'))"
    unfolding leftmost_def using False by (metis not0_implies_Suc)
  ultimately show ?thesis using False by (simp add: leftmost_def [of "\<lambda>i. P (Suc i)"])
qed

lemma leftmost_ex: "(\<exists>d. leftmost P d) \<longleftrightarrow> (\<exists>i d. P i d)"
proof
  assume "\<exists>i d. P i d"
  then obtain d where "P (LEAST i. \<exists>d. P i d) d" using LeastI_ex [of "\<lambda>i. \<exists>d. P i d"] by blast
  then show "\<exists>d. leftmost P d" unfolding leftmost_def using not_less_Least by blast
qed (auto simp: leftmost_def)

lemma three_digits_iff: "three_digits t = Some d \<longleftrightarrow> three_at t 0 d"
  by (auto simp: three_digits_def three_at_def)

lemma lower_prefix: "length p = n \<Longrightarrow> prefix p (py_lower s) \<longleftrightarrow> py_lower (take n s) = p"
proof -
  assume n: "length p = n"
  have "prefix p t \<longleftrightarrow> take n t = p" for t using n by (auto simp: prefix_def) (metis append_take_drop_id)
  then show ?thesis by (simp add: py_lower_def take_map)
qed

lemmas keyword_prefix =
  lower_prefix [of "''status code ''" 12] lower_prefix [of "''http ''" 5] lower_prefix [of "''http/''" 5]

lemma three_at_Suc: "three_at (c # cs) (Suc i + k) d \<longleftrightarrow> three_at cs (i + k) d"
  by (simp add: three_at_def)

lemma three_at_drop: "three_at (drop n s) i d \<longleftrightarrow> three_at s (n + i) d"
  by (simp add: three_at_def add.commute)

lemma code_at_0: "code_at s 0 d \<longleftrightarrow> (if prefix ''status code '' (py_lower s) then three_digits (drop 12 s) else None) = Some d"
  by (auto simp: code_at_def three_digits_iff three_at_drop keyword_prefix)

lemma status_in_message_iff: "status_in_message s = Some d \<longleftrightarrow> leftmost (code_at s) d"
proof (induction s)
  case Nil
  then show ?case by (auto simp: leftmost_def code_at_def py_lower_def)
next
  case (Cons c cs)
  have "(\<lambda>i. code_at (c # cs) (Suc i)) = code_at cs" unfolding fun_eq_iff code_at_def three_at_Suc by simp
  then show ?case unfolding leftmost_step [of "code_at (c # cs)"] code_at_0
    using Cons by (auto split: option.split)
qed

definition http_from :: "bool \<Rightarrow> string \<Rightarrow> nat \<Rightarrow> string \<Rightarrow> bool" where
  "http_from after_word s i d \<longleftrightarrow>
     py_lower (take 5 (drop i s)) \<in> {''http '', ''http/''} \<and> three_at s (i + 5) d
     \<and> (if i = 0 then \<not> after_word else \<not> is_word (s ! (i - 1))) \<and> (i + 8 = length s \<or> \<not> is_word (s ! (i + 8)))"

lemma http_from_0: "http_from w s 0 d \<longleftrightarrow> http_here w s = Some d"
proof (cases "three_at s 5 d")
  case True
  then have "8 \<le> length s" by (auto simp: three_at_def)
  then have "drop 8 s \<noteq> [] \<and> is_word (hd (drop 8 s)) \<longleftrightarrow> \<not> (8 = length s \<or> \<not> is_word (s ! 8))"
    by (auto simp: hd_drop_conv_nth)
  moreover have "three_digits (drop 5 s) = Some d" using True by (simp add: three_digits_iff three_at_drop)
  ultimately show ?thesis using True by (auto simp: http_from_def http_here_def keyword_prefix)
next
  case False
  then have "three_digits (drop 5 s) \<noteq> Some d" by (simp add: three_digits_iff three_at_drop)
  then show ?thesis using False by (auto simp: http_from_def http_here_def keyword_prefix split: option.splits if_splits)
qed

lemma http_in_message_iff: "http_in_message w s = Some d \<longleftrightarrow> leftmost (http_from w s) d"
proof (induction w s rule: http_in_message.induct)
  case (1 w)
  then show ?case by (auto simp: leftmost_def http_from_def py_lower_def)
next
  case (2 w c cs)
  have "(\<lambda>i. http_from w (c # cs) (Suc i)) = http_from (is_word c) cs"
    unfolding fun_eq_iff http_from_def three_at_Suc by (auto simp: nth_Cons split: nat.split)
  then show ?case unfolding leftmost_step [of "http_from w (c # cs)"] http_from_0
    using 2 by (auto split: option.split)
qed

lemma http_at_from: "http_at msg = http_from False msg"
  by (auto simp: fun_eq_iff http_at_def http_from_def)

lemma digits_status:
  assumes "leftmost (code_at msg) d \<or> leftmost (http_at msg) d"
  shows "to_status (PStr d) = Inr (in_status_range (int (int_of_digits d)))"
proof -
  have d: "list_all is_decimal d" "length d = 3"
    using assms by (auto simp: leftmost_def code_at_def http_at_def three_at_def)
  have "list_all (\<lambda>c. \<not> is_space c) d" using d(1) digit_not_space by (auto simp: list_all_iff)
  then have "py_strip d = d" by (rule py_strip_no_space)
  moreover have "py_isdigit d" using d by (auto simp: py_isdigit_def all_chars_def list_all_iff char_simps)
  moreover have "d \<noteq> []" using d(2) by auto
  ultimately show ?thesis using d py_int_decimal [of d] by simp
qed

lemma message_status_parsed:
  "\<exists>st. (case (case status_in_message msg of Some d \<Rightarrow> Some d | None \<Rightarrow> http_in_message False msg) of
           Some d \<Rightarrow> to_status (PStr d) | None \<Rightarrow> Inr None) = Inr st \<and> message_status msg st"
proof (cases "status_in_message msg")
  case (Some d)
  then have d: "leftmost (code_at msg) d" by (simp add: status_in_message_iff)
  then have "\<exists>i d. code_at msg i d" using leftmost_ex by blast
  then show ?thesis using Some d digits_status [of msg d] by (auto simp: message_status_def)
next
  case None
  then have no_code: "\<nexists>i d. code_at msg i d" using leftmost_ex [of "code_at msg"] status_in_message_iff [of msg] by force
  show ?thesis
  proof (cases "http_in_message False msg")
    case (Some d)
    then have d: "leftmost (http_at msg) d" by (simp add: http_in_message_iff http_at_from)
    then have "\<exists>i d. http_at msg i d" using leftmost_ex by blast
    then show ?thesis using None Some no_code d digits_status [of msg d] unfolding message_status_def by auto
  next
    case no_http: None
    then have "\<nexists>i d. http_at msg i d"
      using leftmost_ex [of "http_at msg"] http_in_message_iff [of False msg] by (force simp: http_at_from)
    then show ?thesis using None no_http no_code unfolding message_status_def by auto
  qed
qed

lemma first_telling_unique: "first_telling vs w \<Longrightarrow> first_telling vs x \<Longrightarrow> w = x"
  by (induction vs) (auto simp: first_telling_Cons first_telling_def [of "[]"] split: if_splits)

lemma silent_not_telling: "list_all silent vs \<Longrightarrow> \<not> first_telling vs w"
  by (auto simp: first_telling_def)

lemma first_status_said:
  "(case first_status (mapping_or_empty v) (mapping_or_empty (dget (mapping_or_empty v) ''error'')) of
      Inl e \<Rightarrow> e = ValueError \<and> unreadable_status v
    | Inr st \<Rightarrow> \<not> unreadable_status v \<and> stated_status v st)"
proof -
  have places: "looked_up (mapping_or_empty v) (mapping_or_empty (dget (mapping_or_empty v) ''error'')) STATUS_KEYS = status_places v"
    unfolding looked_up_places status_places_def STATUS_KEYS_def ..
  have msg: "py_str (py_or (at_key v ''message'') (py_or (at_key (at_key v ''error'') ''message'')
      (py_or (at_key v ''error'') (PStr [])))) = message_of v"
    by (simp add: message_of_def py_or_def)
  show ?thesis
  proof (cases "status_from (status_places v)")
    case (Inl e)
    then show ?thesis
      using status_from_cases [of "status_places v"] by (auto simp: first_status_def places unreadable_status_def)
  next
    case (Inr found)
    show ?thesis
    proof (cases found)
      case None
      then have "list_all silent (status_places v)" using status_from_cases [of "status_places v"] Inr by simp
      then have "\<not> unreadable_status v" "message_status (message_of v) st \<Longrightarrow> stated_status v st" for st
        using silent_not_telling by (auto simp: unreadable_status_def stated_status_def)
      then show ?thesis
        using message_status_parsed [of "message_of v"] Inr None
        unfolding first_status_def dget_at_key places [unfolded dget_at_key] Let_def msg by auto
    next
      case (Some n)
      then obtain w where w: "first_telling (status_places v) w" "names_status w n" "\<not> bad_status_text w"
        using status_from_cases [of "status_places v"] Inr by auto
      then have "\<not> unreadable_status v" using first_telling_unique by (auto simp: unreadable_status_def)
      then show ?thesis using w Inr Some by (auto simp: first_status_def places stated_status_def)
    qed
  qed
qed

lemma first_string_said: "first_string vs = (case find (\<lambda>w. \<exists>s. w = PStr s \<and> s \<noteq> []) vs of Some (PStr s) \<Rightarrow> s | _ \<Rightarrow> [])"
  by (induction vs rule: first_string.induct) auto

lemma first_text_said:
  "first_text (mapping_or_empty v) (mapping_or_empty (dget (mapping_or_empty v) ''error'')) ks = said v ks"
  unfolding first_text_def looked_up_places said_def by (rule first_string_said)

lemma norm_code_dashes: "norm_code s = dashes s"
  by (simp add: norm_code_def dashes_def replace_char_def)

lemma parse_error_said:
  "parse_error v = rbind (first_status (mapping_or_empty v) (mapping_or_empty (dget (mapping_or_empty v) ''error''))) (\<lambda>st.
     Inr \<lparr>p_status = st, p_code = said_code v, p_blob = said_text v, p_idempotent_create = idempotent v\<rparr>)"
proof -
  have "replace_char CHR ''-'' CHR ''_'' (said_code v @ '' '' @ py_lower (said v MESSAGE_KEYS) @ '' ''
      @ (case at_key v ''error'' of PStr s \<Rightarrow> py_lower s | _ \<Rightarrow> [])) = said_text v"
    by (auto simp: said_text_def said_code_def dashes_def replace_char_def MESSAGE_KEYS_def split: pyval.split)
  moreover have "list_ex (\<lambda>v. v = PBool True) (places v [''idempotent_create'', ''idempotentCreate'']) = idempotent v"
    by (auto simp: idempotent_def list_ex_iff)
  moreover have "norm_code (said v CODE_KEYS) = said_code v" by (simp add: norm_code_dashes said_code_def CODE_KEYS_def)
  ultimately show ?thesis
    unfolding parse_error_def Let_def looked_up_places first_text_said by (simp add: dget_at_key)
qed

section \<open>Properties\<close>

text \<open>The classes of spec 00, section 4, for the statuses it lists.\<close>

fun spec_class :: "bool \<Rightarrow> int \<Rightarrow> string option" where
  "spec_class idempotent_create s =
     (if s = 409 then Some (if idempotent_create then ''success'' else ''permanent'')
      else if s \<in> {500, 502, 503, 504} then Some ''transient''
      else if s = 429 then Some ''rate_limited''
      else if s \<in> {400, 422} then Some ''invalid_data''
      else if s \<in> {401, 403} then Some ''auth''
      else if s \<in> {404, 410, 501} then Some ''permanent''
      else None)"

lemma classify_parsed_class:
  assumes "p_code p = said_code v" "p_blob p = said_text v" "p_idempotent_create p = idempotent v"
  shows "error_class (classify_parsed p) =
      (case Option.bind (p_status p) (spec_class (idempotent v)) of Some cls \<Rightarrow> cls | None \<Rightarrow> text_class v)"
    and "retry (classify_parsed p) \<longleftrightarrow> error_class (classify_parsed p) \<in> {''transient'', ''rate_limited''}"
    and "idempotent_success (classify_parsed p) \<longleftrightarrow> error_class (classify_parsed p) = ''success''"
proof -
  show "error_class (classify_parsed p) =
      (case Option.bind (p_status p) (spec_class (idempotent v)) of Some cls \<Rightarrow> cls | None \<Rightarrow> text_class v)"
    by (cases "p_status p")
      (auto simp: assms classify_parsed_def result_of_def status_in_def is_transient_def has_marker_def list_ex_iff text_class_def
        TRANSIENT_STATUS_def RATE_LIMIT_STATUS_def INVALID_STATUS_def AUTH_STATUS_def PERMANENT_STATUS_def)
qed (auto simp: classify_parsed_def result_of_def)

text \<open>
  C27: The classifier raises exactly when, of the values at the status keys (each key looked up in the object and then in
  its \<open>error\<close> object), the first one that is not ignored is a text which \<open>str.isdigit\<close> accepts and \<open>int()\<close> refuses (among
  the Latin-1 characters a superscript digit, or more than 4300 digits); the exception is ValueError.  Otherwise the
  status is the first of these values that is a status, or else the number that follows \<open>status code\<close> or \<open>HTTP\<close> in the
  message, or none; a status of the specification's table decides the class whatever the message says, and without one
  the class is that of the first list of codes and markers that the error's code, message and text match, or unknown.
  An error is retried exactly when its class is transient or rate limited, and idempotent success is exactly the class
  success.
\<close>

theorem classification_correct:
  "case classify_error v of
     Inl e \<Rightarrow> e = ValueError \<and> unreadable_status v
   | Inr c \<Rightarrow>
       \<not> unreadable_status v
       \<and> (\<exists>st. stated_status v st
            \<and> error_class c = (case Option.bind st (spec_class (idempotent v)) of Some cls \<Rightarrow> cls | None \<Rightarrow> text_class v))
       \<and> (retry c \<longleftrightarrow> error_class c \<in> {''transient'', ''rate_limited''})
       \<and> (idempotent_success c \<longleftrightarrow> error_class c = ''success'')"
proof (cases "first_status (mapping_or_empty v) (mapping_or_empty (dget (mapping_or_empty v) ''error''))")
  case (Inl e)
  then show ?thesis using first_status_said [of v] by (simp add: classify_error_def parse_error_said)
next
  case (Inr st)
  then show ?thesis
    using first_status_said [of v]
      classify_parsed_class [of "\<lparr>p_status = st, p_code = said_code v, p_blob = said_text v, p_idempotent_create = idempotent v\<rparr>" v]
    by (auto simp: classify_error_def parse_error_said)
qed

text \<open>The delay.  A rounding to doubles is monotone and exact on doubles, which 0 and the ceiling are.\<close>

lemma delay_ceiling_bounds:
  assumes "0 \<le> base_s" "0 \<le> cap" "delay_ceiling attempt base_s cap = Inr c"
  shows "0 \<le> c" "c \<le> cap" "c \<le> base_s * 2 ^ nat attempt"
  using assms by (auto simp: delay_ceiling_def Let_def split: if_splits)

text \<open>
  C28: With the default base and cap and a jitter in [0, 1], the delay after any failure before the 1025th is between 0 and
  300 seconds and at most twice two to the number of the attempt, attempts below 0 counting as 0; a negative
  attempt and all six attempts of the policy return.  From attempt 1024 on the computation raises OverflowError
  although the ceiling would still be 300.
\<close>

theorem next_delay_bounded:
  assumes "mono fl" and "fl 0 = 0" and "fl (min 300 (2 * 2 ^ nat attempt)) = min 300 (2 * 2 ^ nat attempt)"
    and "0 \<le> jitter" and "jitter \<le> 1"
  shows "(if attempt < 1024
          then \<exists>d. compute_next_delay fl attempt BASE_DELAY_S CAP_DELAY_S jitter = Inr d
                 \<and> 0 \<le> d \<and> d \<le> 300 \<and> d \<le> 2 * 2 ^ nat attempt
          else compute_next_delay fl attempt BASE_DELAY_S CAP_DELAY_S jitter = Inl OverflowError)"
proof (cases "attempt < 1024")
  case True
  define c :: rat where "c = min 300 (2 * 2 ^ nat attempt)"
  have ceil: "delay_ceiling attempt BASE_DELAY_S CAP_DELAY_S = Inr c"
    using True by (auto simp: delay_ceiling_def BASE_DELAY_S_def CAP_DELAY_S_def c_def Let_def)
  have "0 \<le> c" by (simp add: c_def)
  then have "0 \<le> jitter * c" "jitter * c \<le> c" using assms(4,5) by (simp_all add: mult_left_le_one_le)
  then have "0 \<le> fl (jitter * c)" "fl (jitter * c) \<le> c"
    using monoD [OF assms(1), of 0 "jitter * c"] monoD [OF assms(1), of "jitter * c" c] assms(2,3) by (simp_all add: c_def)
  moreover have "c \<le> 300" "c \<le> 2 * 2 ^ nat attempt" by (simp_all add: c_def)
  ultimately show ?thesis using True ceil by (auto simp: compute_next_delay_def intro: order_trans)
qed (simp add: compute_next_delay_def delay_ceiling_def Let_def)

theorem next_delay_bounded_witness:
  "\<exists>d. compute_next_delay (\<lambda>q. q) 3 BASE_DELAY_S CAP_DELAY_S (1 / 2) = Inr d \<and> 0 \<le> d \<and> d \<le> 300"
  using next_delay_bounded [of "\<lambda>q. q" 3 "1 / 2"] by (auto simp: mono_def)

end
