(* ===== verification/Py_Json.thy ===== *)
theory Py_Json
  imports Py_Path "HOL-Library.List_Lexorder" "HOL-Library.Char_ord"
begin

text \<open>
  \<open>json.dumps\<close> as the sources call it, with and without \<open>ensure_ascii\<close>, compact or indented; the separators are
  arguments and keys may be sorted by code point.  UTF-8 encoding, and assignment to a dict.
\<close>

section \<open>Strings\<close>

definition json_char :: "char \<Rightarrow> string" where
  "json_char c =
     (if c = CHR 0x22 \<or> c = CHR 0x5C then [CHR 0x5C, c]
      else if c = CHR 0x08 then CHR 0x5C # ''b''
      else if c = CHR 0x0C then CHR 0x5C # ''f''
      else if c = CHR 0x0A then CHR 0x5C # ''n''
      else if c = CHR 0x0D then CHR 0x5C # ''r''
      else if c = CHR 0x09 then CHR 0x5C # ''t''
      else if 32 \<le> code c \<and> code c \<le> 126 then [c]
      else CHR 0x5C # ''u00'' @ hex2 c)"

definition json_str :: "string \<Rightarrow> string" where
  "json_str s = CHR 0x22 # concat (map json_char s) @ [CHR 0x22]"

text \<open>\<open>ensure_ascii=False\<close>: only the quote, the backslash and control characters are escaped.\<close>

definition json_raw_char :: "char \<Rightarrow> string" where
  "json_raw_char c = (if 127 \<le> code c then [c] else json_char c)"

definition json_raw_str :: "string \<Rightarrow> string" where
  "json_raw_str s = CHR 0x22 # concat (map json_raw_char s) @ [CHR 0x22]"

text \<open>\<open>encode("utf-8")\<close>.\<close>

definition utf8_char :: "char \<Rightarrow> bytes" where
  "utf8_char c = (if code c < 128 then [c] else [char_of (192 + code c div 64), char_of (128 + code c mod 64)])"

definition utf8 :: "string \<Rightarrow> bytes" where
  "utf8 s = concat (map utf8_char s)"

section \<open>Values\<close>

definition json_float :: "string \<Rightarrow> string" where
  "json_float t =
     (if t = ''inf'' then ''Infinity'' else if t = ''-inf'' then ''-Infinity'' else if t = ''nan'' then ''NaN'' else t)"

fun json_text :: "(string \<Rightarrow> string) \<Rightarrow> string \<Rightarrow> string \<Rightarrow> bool \<Rightarrow> pyval \<Rightarrow> string" where
  "json_text quote isep ksep sorted_keys PNone = ''null''"
| "json_text quote isep ksep sorted_keys (PBool b) = (if b then ''true'' else ''false'')"
| "json_text quote isep ksep sorted_keys (PInt i) = str_int i"
| "json_text quote isep ksep sorted_keys (PFloat t) = json_float t"
| "json_text quote isep ksep sorted_keys (PStr s) = quote s"
| "json_text quote isep ksep sorted_keys (PList xs) =
     ''['' @ join isep (map (json_text quote isep ksep sorted_keys) xs) @ '']''"
| "json_text quote isep ksep sorted_keys (PDict d) =
     (let entries = map (\<lambda>(k, v). (k, json_text quote isep ksep sorted_keys v)) d
      in CHR 0x7B # join isep (map (\<lambda>(k, t). quote k @ ksep @ t)
                                (if sorted_keys then sort_key fst entries else entries)) @ [CHR 0x7D])"

text \<open>With \<open>ensure_ascii\<close>, and without.\<close>

abbreviation json_dumps :: "string \<Rightarrow> string \<Rightarrow> bool \<Rightarrow> pyval \<Rightarrow> string" where
  "json_dumps \<equiv> json_text json_str"

abbreviation json_dumps_raw :: "string \<Rightarrow> string \<Rightarrow> bool \<Rightarrow> pyval \<Rightarrow> string" where
  "json_dumps_raw \<equiv> json_text json_raw_str"

text \<open>\<open>json.dumps(value, indent=2, sort_keys=True)\<close>.\<close>

definition newline_indent :: "nat \<Rightarrow> string" where
  "newline_indent level = CHR 0x0A # replicate (2 * level) CHR '' ''"

fun json_indent :: "(string \<Rightarrow> string) \<Rightarrow> nat \<Rightarrow> pyval \<Rightarrow> string" where
  "json_indent quote level (PList xs) =
     (if xs = [] then ''[]''
      else ''['' @ newline_indent (Suc level)
           @ join ('','' @ newline_indent (Suc level)) (map (json_indent quote (Suc level)) xs) @ newline_indent level @ '']'')"
| "json_indent quote level (PDict d) =
     (let entries = sort_key fst (map (\<lambda>(k, v). (k, json_indent quote (Suc level) v)) d)
      in if d = [] then [CHR 0x7B, CHR 0x7D]
         else CHR 0x7B # newline_indent (Suc level)
              @ join ('','' @ newline_indent (Suc level)) (map (\<lambda>(k, t). quote k @ '': '' @ t) entries)
              @ newline_indent level @ [CHR 0x7D])"
| "json_indent quote level v = json_text quote '','' '':'' True v"

lemmas json_defs [eval_simps] =
  json_char_def json_str_def json_raw_char_def json_raw_str_def utf8_char_def utf8_def json_float_def
  newline_indent_def

text \<open>Assignment to a dict keeps the place of a key it already has.\<close>

fun dict_set :: "pydict \<Rightarrow> string \<Rightarrow> pyval \<Rightarrow> pydict" where
  "dict_set [] k v = [(k, v)]"
| "dict_set ((k', w) # d) k v = (if k = k' then (k', v) # d else (k', w) # dict_set d k v)"

definition dict_of :: "(string \<times> pyval) list \<Rightarrow> pydict" where
  "dict_of entries = foldl (\<lambda>d (k, v). dict_set d k v) [] entries"

lemma map_of_dict_set: "map_of (dict_set d k v) = (map_of d)(k \<mapsto> v)"
  by (induction d k v rule: dict_set.induct) auto

lemma keys_dict_set: "map fst (dict_set d k v) = (if k \<in> fst ` set d then map fst d else map fst d @ [k])"
  by (induction d k v rule: dict_set.induct) auto

lemma distinct_dict_of: "distinct (map fst (dict_of entries))"
proof -
  have "distinct (map fst d) \<Longrightarrow> distinct (map fst (foldl (\<lambda>d (k, v). dict_set d k v) d entries))" for d
    by (induction entries arbitrary: d) (auto simp: keys_dict_set)
  then show ?thesis by (simp add: dict_of_def)
qed

section \<open>A string can be read back from the front of a text\<close>

lemma hex_digit_inject: "m < 16 \<Longrightarrow> n < 16 \<Longrightarrow> hex_digit m = hex_digit n \<longleftrightarrow> m = n"
proof -
  assume "m < 16" "n < 16"
  moreover have "distinct ''0123456789abcdef''" by simp
  ultimately show ?thesis by (simp add: hex_digit_def nth_eq_iff_index_eq)
qed

lemma code_less_256: "code c < 256"
  by (metis of_char_mod_256 mod_less_divisor zero_less_numeral)

lemma hex2_inject: "hex2 c = hex2 d \<longleftrightarrow> c = d"
proof -
  have "hex2 c = hex2 d \<longleftrightarrow> code c div 16 = code d div 16 \<and> code c mod 16 = code d mod 16"
    by (simp add: hex2_def hex_digit_inject less_mult_imp_div_less code_less_256)
  also have "\<dots> \<longleftrightarrow> code c = code d" by (metis div_mult_mod_eq)
  finally show ?thesis by simp
qed

lemma hex_digit_ascii: "n < 16 \<Longrightarrow> 32 \<le> code (hex_digit n) \<and> code (hex_digit n) < 127"
proof -
  assume "n < 16"
  moreover have "list_all (\<lambda>c. 32 \<le> code c \<and> code c < 127) ''0123456789abcdef''" by simp
  ultimately show ?thesis unfolding hex_digit_def list_all_length by simp
qed

lemma hex2_ascii: "x \<in> set (hex2 c) \<Longrightarrow> 32 \<le> code x \<and> code x < 127"
proof -
  have "code c div 16 < 16" "code c mod 16 < 16" by (simp_all add: less_mult_imp_div_less code_less_256)
  then show "x \<in> set (hex2 c) \<Longrightarrow> ?thesis" 
    using hex_digit_ascii [of "code c div 16"] hex_digit_ascii [of "code c mod 16"] by (auto simp: hex2_def)
qed

lemma length_hex2 [simp]: "length (hex2 c) = 2"
  by (simp add: hex2_def)

lemma json_char_shape:
  obtains (plain) "json_char c = [c]" "c \<noteq> CHR 0x22" "c \<noteq> CHR 0x5C"
  | (short) e where "json_char c = [CHR 0x5C, e]" "e \<noteq> CHR ''u''"
      "e = (if c = CHR 0x08 then CHR ''b'' else if c = CHR 0x0C then CHR ''f'' else if c = CHR 0x0A then CHR ''n''
            else if c = CHR 0x0D then CHR ''r'' else if c = CHR 0x09 then CHR ''t'' else c)"
      "c \<in> {CHR 0x22, CHR 0x5C, CHR 0x08, CHR 0x0C, CHR 0x0A, CHR 0x0D, CHR 0x09}"
  | (unicode) "json_char c = CHR 0x5C # ''u00'' @ hex2 c"
proof (cases "c \<in> {CHR 0x22, CHR 0x5C, CHR 0x08, CHR 0x0C, CHR 0x0A, CHR 0x0D, CHR 0x09}")
  case True
  then show thesis using short by (auto simp: json_char_def)
next
  case False
  then show thesis
    using plain unicode by (cases "32 \<le> code c \<and> code c \<le> 126") (auto simp: json_char_def)
qed

lemma json_char_prefix_free:
  assumes "json_char c @ x = json_char d @ y"
  shows "c = d \<and> x = y"
proof (cases c rule: json_char_shape)
  case plain
  then show ?thesis using assms by (cases d rule: json_char_shape) auto
next
  case (short e)
  then show ?thesis
    using assms by (cases d rule: json_char_shape) (auto split: if_splits)
next
  case unicode
  then show ?thesis
  proof (cases d rule: json_char_shape)
    case unicode': unicode
    have "hex2 c @ x = hex2 d @ y" using assms unicode unicode' by simp
    then have "hex2 c = hex2 d" "x = y" by (simp_all add: append_eq_append_conv)
    then show ?thesis by (simp add: hex2_inject)
  qed (use assms unicode in auto)
qed

lemma json_char_not_quote: "json_char c @ x \<noteq> CHR 0x22 # y"
  by (cases c rule: json_char_shape) auto

lemma json_body_prefix_free:
  "concat (map json_char s) @ CHR 0x22 # x = concat (map json_char t) @ CHR 0x22 # y \<Longrightarrow> s = t \<and> x = y"
proof (induction s arbitrary: t)
  case Nil
  show ?case
  proof (cases t)
    case (Cons d t')
    then have "json_char d @ (concat (map json_char t') @ CHR 0x22 # y) = CHR 0x22 # x" using Nil by simp
    with json_char_not_quote show ?thesis by blast
  qed (use Nil in simp)
next
  case (Cons c s)
  have "t \<noteq> []"
  proof
    assume "t = []"
    then have "json_char c @ (concat (map json_char s) @ CHR 0x22 # x) = CHR 0x22 # y" using Cons.prems by simp
    with json_char_not_quote show False by blast
  qed
  then obtain d t' where t: "t = d # t'" by (cases t) auto
  have "c = d \<and> concat (map json_char s) @ CHR 0x22 # x = concat (map json_char t') @ CHR 0x22 # y"
    using Cons.prems unfolding t by (intro json_char_prefix_free) simp
  then show ?case using Cons.IH t by blast
qed

lemma json_str_prefix_free: "json_str s @ x = json_str t @ y \<Longrightarrow> s = t \<and> x = y"
  using json_body_prefix_free [of s x t y] by (simp add: json_str_def)

lemma json_opt_prefix_free:
  assumes "json_dumps isep ksep srt (opt_str v) @ x = json_dumps isep ksep srt (opt_str w) @ y"
  shows "v = w \<and> x = y"
proof (cases v; cases w)
  fix s t assume "v = Some s" "w = Some t"
  then show ?thesis using assms json_str_prefix_free [of s x t y] by (simp add: opt_str_def)
qed (use assms in \<open>auto simp: opt_str_def json_str_def\<close>)

end
