(* ===== verification/Review_Signing.thy ===== *)
theory Review_Signing
  imports Py_Json Http
begin

text \<open>
  \<open>review_ui/signing.py\<close>, \<open>auth.py\<close>, \<open>config.py\<close>: the signed body of a decision, basic authentication and the
  settings.  HMAC-SHA256 in hexadecimal is the argument \<open>hmac\<close> of key and message; keys and messages are
  bytes, and \<open>utf8\<close> encodes a text of code points below 256.
\<close>

section \<open>signing.py\<close>

definition SIGNATURE_HEADER :: string where "SIGNATURE_HEADER = ''X-Signature-256''"
definition SIGNATURE_PREFIX :: string where "SIGNATURE_PREFIX = ''sha256=''"

definition encode_body :: "pydict \<Rightarrow> bytes" where
  "encode_body payload = utf8 (json_dumps '','' '':'' True (PDict payload))"

datatype secret = TextSecret string | BytesSecret bytes

definition secret_key :: "secret \<Rightarrow> bytes" where
  "secret_key s = (case s of TextSecret t \<Rightarrow> utf8 t | BytesSecret b \<Rightarrow> b)"

definition sign_body :: "(bytes \<Rightarrow> bytes \<Rightarrow> string) \<Rightarrow> secret \<Rightarrow> bytes \<Rightarrow> string" where
  "sign_body hmac s body = SIGNATURE_PREFIX @ hmac (secret_key s) body"

definition constant_time_equals :: "string \<Rightarrow> string \<Rightarrow> bool res" where
  "constant_time_equals left right = compare_digest left right"

definition signatures_match :: "string \<Rightarrow> string \<Rightarrow> bool res" where
  "signatures_match expected provided =
     (if expected = [] \<or> provided = [] then Inr False
      else if length expected \<noteq> length provided then Inr False
      else constant_time_equals expected provided)"

section \<open>config.py\<close>

record review_settings =
  review_ui_user :: string
  review_ui_password :: string
  review_hmac_secret :: string
  review_receiver_url :: string
  review_ui_actor_id :: string
  database_url :: string

definition validate_local_auth :: "review_settings \<Rightarrow> unit res" where
  "validate_local_auth st =
     (if review_ui_user st = [] then Inl (RuntimeError ''REVIEW_UI_USER is empty'')
      else if review_ui_password st = [] then Inl (RuntimeError ''REVIEW_UI_PASSWORD is empty'')
      else if review_hmac_secret st = [] then Inl (RuntimeError ''REVIEW_HMAC_SECRET is empty'')
      else if review_receiver_url st = [] then Inl (RuntimeError ''REVIEW_RECEIVER_URL is empty'')
      else Inr ())"

definition env_or :: "(string \<rightharpoonup> string) \<Rightarrow> string \<Rightarrow> string \<Rightarrow> string" where
  "env_or env name dflt = (case env name of None \<Rightarrow> dflt | Some v \<Rightarrow> v)"

definition load_review_settings :: "(string \<rightharpoonup> string) \<Rightarrow> review_settings res" where
  "load_review_settings env =
     (let st = \<lparr>review_ui_user = env_or env ''REVIEW_UI_USER'' ''reviewer'',
                review_ui_password = env_or env ''REVIEW_UI_PASSWORD'' ''change-me'',
                review_hmac_secret = env_or env ''REVIEW_HMAC_SECRET'' ''change-me'',
                review_receiver_url = env_or env ''REVIEW_RECEIVER_URL'' ''http://n8n-main:5678/webhook/plt/review-decision'',
                review_ui_actor_id = env_or env ''REVIEW_UI_ACTOR_ID'' ''local-reviewer'',
                database_url = env_or env ''DATABASE_URL'' []\<rparr>
      in rbind (validate_local_auth st) (\<lambda>_. Inr st))"

section \<open>auth.py\<close>

definition require_basic :: "string \<Rightarrow> string \<Rightarrow> review_settings \<Rightarrow> http_error + string" where
  "require_basic username password st =
     (case constant_time_equals username (review_ui_user st) of
        Inl e \<Rightarrow> Inl (Unhandled e)
      | Inr user_ok \<Rightarrow>
          (case constant_time_equals password (review_ui_password st) of
             Inl e \<Rightarrow> Inl (Unhandled e)
           | Inr password_ok \<Rightarrow>
               if \<not> user_ok \<or> \<not> password_ok then Inl (HTTPException 401 ''invalid credentials'')
               else Inr (review_ui_actor_id st)))"

lemmas signing_defs [eval_simps] =
  SIGNATURE_HEADER_def SIGNATURE_PREFIX_def encode_body_def secret_key_def sign_body_def
  constant_time_equals_def signatures_match_def validate_local_auth_def env_or_def load_review_settings_def require_basic_def

section \<open>Lemmas\<close>

lemma json_char_ascii: "list_all (\<lambda>c. code c < 128) (json_char c)"
  by (auto simp: json_char_def list_all_iff dest!: hex2_ascii)

lemma json_str_ascii: "list_all (\<lambda>c. code c < 128) (json_str s)"
  using json_char_ascii by (auto simp: json_str_def list_all_iff)

lemma utf8_ascii: "list_all (\<lambda>c. code c < 128) s \<Longrightarrow> utf8 s = s"
  by (induction s) (auto simp: utf8_def utf8_char_def)

end
