(* ===== verification/Review_Queue.thy ===== *)
theory Review_Queue
  imports Review_Signing "HOL-Library.Product_Lexorder"
begin

text \<open>
  \<open>review_ui/decisions.py\<close> and \<open>review_ui/db.py\<close>: the review queue and the audit log.  The two tables are
  lists of rows; each SQL statement is a function on them, and \<open>apply_decision\<close> runs its two statements in one
  transaction.  Where the connection can fail is the argument \<open>fault\<close>: a failed statement rolls back,
  and a connection lost during the commit leaves the decision committed although the caller sees an error.
\<close>

section \<open>Rows\<close>

type_synonym uuid = string

record review_item =
  r_id :: uuid
  r_project :: "string option"
  r_kind :: "string option"
  r_subject_id :: "string option"
  r_payload :: pyval
  r_status :: "string option"
  r_created_at :: int
  r_decided_at :: "int option"
  r_decided_by :: "string option"
  r_decision :: pyval
  r_callback :: "string option"

record audit_row =
  a_actor_type :: string
  a_actor_id :: string
  a_project :: "string option"
  a_action :: string
  a_subject_type :: string
  a_subject_id :: string
  a_before :: pyval
  a_after :: pyval
  a_reason :: "string option"

record review_db =
  queue :: "review_item list"
  audit_log :: "audit_row list"

section \<open>decisions.py\<close>

definition PENDING_STATUS :: string where "PENDING_STATUS = ''pending''"

text \<open>\<open>CLAIM_DECISION_SQL\<close>: the rows returned and the new table.\<close>

definition claimable :: "uuid \<Rightarrow> review_item \<Rightarrow> bool" where
  "claimable rid r \<longleftrightarrow> r_id r = rid \<and> r_status r = Some ''pending''"

definition decided_row :: "int \<Rightarrow> string \<Rightarrow> string \<Rightarrow> pyval \<Rightarrow> review_item \<Rightarrow> review_item" where
  "decided_row now st by dec r =
     r\<lparr>r_status := Some st, r_decided_at := Some now, r_decided_by := Some by, r_decision := dec\<rparr>"

definition claim_decision_sql ::
    "int \<Rightarrow> uuid \<Rightarrow> string \<Rightarrow> string \<Rightarrow> pyval \<Rightarrow> review_item list \<Rightarrow> review_item list \<times> review_item list" where
  "claim_decision_sql now rid st by dec q =
     (map (decided_row now st by dec) (filter (claimable rid) q),
      map (\<lambda>r. if claimable rid r then decided_row now st by dec r else r) q)"

text \<open>\<open>LIST_PENDING_SQL\<close>; \<open>collate\<close> is the database's order of kinds.\<close>

definition list_pending_sql :: "(string option \<Rightarrow> 'k :: linorder) \<Rightarrow> review_item list \<Rightarrow> review_item list" where
  "list_pending_sql collate q =
     sort_key (\<lambda>r. (collate (r_kind r), r_created_at r)) (filter (\<lambda>r. r_status r = Some ''pending'') q)"

definition get_item_sql :: "uuid \<Rightarrow> review_item list \<Rightarrow> review_item option" where
  "get_item_sql rid q = find (\<lambda>r. r_id r = rid) q"

definition already_decided :: "nat \<Rightarrow> bool" where
  "already_decided returning_rowcount \<longleftrightarrow> returning_rowcount = 0"

definition rowcount_for_claim :: "string option \<Rightarrow> nat" where
  "rowcount_for_claim current_status = (if current_status = Some PENDING_STATUS then 1 else 0)"

definition decision_body ::
    "uuid \<Rightarrow> string \<Rightarrow> string \<Rightarrow> string option \<Rightarrow> string option \<Rightarrow> string option \<Rightarrow> string option \<Rightarrow> string option \<Rightarrow> pydict"
  where
  "decision_body review_id st decided_by reason project kind subject_id callback =
     [(''callback_workflow_id'', opt_str callback), (''decided_by'', PStr decided_by), (''id'', PStr review_id),
      (''kind'', opt_str kind), (''project'', opt_str project), (''reason'', opt_str reason), (''status'', PStr st),
      (''subject_id'', opt_str subject_id)]"

definition audit_action :: "string \<Rightarrow> string res" where
  "audit_action st =
     (if st = ''approved'' then Inr ''review.approve''
      else if st = ''rejected'' then Inr ''review.reject''
      else Inl ValueError)"

definition audit_payloads :: "string \<Rightarrow> string \<Rightarrow> string option \<Rightarrow> pyval \<times> pyval" where
  "audit_payloads st decided_by reason =
     (PDict [(''status'', PStr PENDING_STATUS)],
      PDict [(''decided_by'', PStr decided_by), (''reason'', opt_str reason), (''status'', PStr st)])"

section \<open>db.py\<close>

text \<open>\<open>DatabaseUnavailable\<close> carries its message; \<open>why\<close> is the text of the database's own error.\<close>

datatype review_error = DatabaseUnavailable string | Raised py_error

datatype db_fault = Healthy | ConnectFails | ReadFails | ClaimFails | AuditFails | CommitFails | CommitUnknown

definition connect_error :: "string \<Rightarrow> string \<Rightarrow> db_fault \<Rightarrow> review_error option" where
  "connect_error why url fault =
     (if url = [] then Some (DatabaseUnavailable ''DATABASE_URL is not set'')
      else if fault = ConnectFails then Some (DatabaseUnavailable (''database connection failed: '' @ why))
      else None)"

definition write_failed :: "string \<Rightarrow> review_error" where
  "write_failed why = DatabaseUnavailable (''database write failed: '' @ why)"

definition list_pending ::
    "(string option \<Rightarrow> 'k :: linorder) \<Rightarrow> string \<Rightarrow> string \<Rightarrow> db_fault \<Rightarrow> review_db
     \<Rightarrow> review_error + review_item list" where
  "list_pending collate why url fault db =
     (case connect_error why url fault of
        Some e \<Rightarrow> Inl e
      | None \<Rightarrow> if fault = ReadFails then Inl (Raised DatabaseError) else Inr (list_pending_sql collate (queue db)))"

definition get_item :: "string \<Rightarrow> string \<Rightarrow> db_fault \<Rightarrow> uuid \<Rightarrow> review_db \<Rightarrow> review_error + review_item option" where
  "get_item why url fault rid db =
     (case connect_error why url fault of
        Some e \<Rightarrow> Inl e
      | None \<Rightarrow> if fault = ReadFails then Inl (Raised DatabaseError) else Inr (get_item_sql rid (queue db)))"

text \<open>Text the database refuses: the NUL character.  The status is checked by the table's constraint.\<close>

definition has_nul :: "string option \<Rightarrow> bool" where
  "has_nul v \<longleftrightarrow> CHR 0x00 \<in> set (or_empty v)"

definition status_allowed :: "string \<Rightarrow> bool" where
  "status_allowed st \<longleftrightarrow> st \<in> {''pending'', ''approved'', ''rejected'', ''expired''}"

definition audit_entry :: "uuid \<Rightarrow> string \<Rightarrow> string \<Rightarrow> string \<Rightarrow> string option \<Rightarrow> string option \<Rightarrow> audit_row" where
  "audit_entry rid st action by reason project =
     \<lparr>a_actor_type = ''human'', a_actor_id = by, a_project = project, a_action = action,
      a_subject_type = ''review_queue'', a_subject_id = rid, a_before = fst (audit_payloads st by reason),
      a_after = snd (audit_payloads st by reason), a_reason = reason\<rparr>"

definition apply_decision ::
    "string \<Rightarrow> string \<Rightarrow> db_fault \<Rightarrow> int \<Rightarrow> uuid \<Rightarrow> string \<Rightarrow> string \<Rightarrow> string option \<Rightarrow> review_db
     \<Rightarrow> (review_error + review_item option) \<times> review_db" where
  "apply_decision why url fault now rid st by reason db =
     (case connect_error why url fault of
        Some e \<Rightarrow> (Inl e, db)
      | None \<Rightarrow>
          (let dec = PDict [(''reason'', opt_str reason), (''status'', PStr st)];
               (rows, q') = claim_decision_sql now rid st by dec (queue db)
           in if fault = ClaimFails \<or> has_nul reason \<or> has_nul (Some by) \<or> \<not> status_allowed st \<and> rows \<noteq> []
              then (Inl (write_failed why), db)
              else if already_decided (length rows)
              then (if fault = CommitFails \<or> fault = CommitUnknown then Inl (write_failed why) else Inr None, db)
              else
                let claimed = hd rows in
                case audit_action st of
                  Inl e \<Rightarrow> (Inl (Raised e), db)
                | Inr action \<Rightarrow>
                    if fault = AuditFails \<or> fault = CommitFails then (Inl (write_failed why), db)
                    else
                      let db' = \<lparr>queue = q', audit_log = audit_log db @ [audit_entry rid st action by reason (r_project claimed)]\<rparr>
                      in (if fault = CommitUnknown then Inl (write_failed why) else Inr (Some claimed), db')))"

text \<open>\<open>iter_kinds\<close>: the groups in the order of their first item.\<close>

definition kind_of :: "review_item \<Rightarrow> string" where
  "kind_of r = (if or_empty (r_kind r) = [] then ''unknown'' else or_empty (r_kind r))"

fun append_to_group :: "(string \<times> 'a list) list \<Rightarrow> string \<Rightarrow> 'a \<Rightarrow> (string \<times> 'a list) list" where
  "append_to_group [] k x = [(k, [x])]"
| "append_to_group ((k', xs) # gs) k x = (if k = k' then (k', xs @ [x]) # gs else (k', xs) # append_to_group gs k x)"

definition iter_kinds :: "review_item list \<Rightarrow> (string \<times> review_item list) list" where
  "iter_kinds rows = foldl (\<lambda>gs r. append_to_group gs (kind_of r) r) [] rows"

lemmas review_queue_defs [eval_simps] =
  PENDING_STATUS_def claimable_def decided_row_def claim_decision_sql_def get_item_sql_def already_decided_def
  rowcount_for_claim_def decision_body_def audit_action_def audit_payloads_def connect_error_def write_failed_def list_pending_def
  get_item_def has_nul_def status_allowed_def audit_entry_def apply_decision_def kind_of_def iter_kinds_def

section \<open>Lemmas\<close>

lemma filter_claimable:
  assumes "distinct (map r_id q)"
  shows "filter (claimable rid) q =
    (case get_item_sql rid q of None \<Rightarrow> [] | Some r \<Rightarrow> if r_status r = Some ''pending'' then [r] else [])"
  using assms
proof (induction q)
  case (Cons r q)
  have "filter (claimable rid) q = []" if "r_id r = rid"
    using Cons.prems that by (auto simp: claimable_def filter_empty_conv image_iff)
  then show ?case using Cons by (auto simp: get_item_sql_def claimable_def [of rid r])
qed (simp add: get_item_sql_def)

lemma ids_claim: "map r_id (map (\<lambda>r. if claimable rid r then decided_row now st by dec r else r) q) = map r_id q"
  by (simp add: decided_row_def)

text \<open>\<open>rowcount_for_claim\<close> predicts what the statement returns.\<close>

lemma rowcount_predicts:
  assumes "distinct (map r_id q)"
  shows "length (fst (claim_decision_sql now rid st by dec q)) =
    (case get_item_sql rid q of None \<Rightarrow> 0 | Some r \<Rightarrow> rowcount_for_claim (r_status r))"
  using filter_claimable [OF assms, of rid]
  by (auto simp: claim_decision_sql_def rowcount_for_claim_def PENDING_STATUS_def split: option.splits)

text \<open>
  A decision that changes the tables rewrites one pending row and appends its audit row; every other call leaves
  them as they were and does not return a row.
\<close>

definition commits :: "string \<Rightarrow> db_fault \<Rightarrow> string \<Rightarrow> string option \<Rightarrow> bool" where
  "commits url fault by reason \<longleftrightarrow>
     url \<noteq> [] \<and> fault \<in> {Healthy, ReadFails, CommitUnknown} \<and> \<not> has_nul reason \<and> \<not> has_nul (Some by)"

definition decision_value :: "string option \<Rightarrow> string \<Rightarrow> pyval" where
  "decision_value reason st = PDict [(''reason'', opt_str reason), (''status'', PStr st)]"

lemma apply_decision_pending:
  assumes "distinct (map r_id (queue db))" "st \<in> {''approved'', ''rejected''}"
    "queue db = xs @ r # ys" "claimable rid r" "commits url fault by reason"
  shows "apply_decision why url fault now rid st by reason db =
    (let r' = decided_row now st by (decision_value reason st) r
     in (if fault = CommitUnknown then Inl (write_failed why) else Inr (Some r'),
         \<lparr>queue = xs @ r' # ys,
          audit_log = audit_log db @ [audit_entry rid st (projr (audit_action st)) by reason (r_project r)]\<rparr>))"
proof -
  have "\<forall>x \<in> set xs \<union> set ys. \<not> claimable rid x" using assms(1,3,4) by (auto simp: claimable_def image_iff)
  then have "filter (claimable rid) (queue db) = [r]"
    "map (\<lambda>r. if claimable rid r then f r else r) (queue db) = xs @ f r # ys" for f
    using assms(3,4) by (auto simp: filter_empty_conv intro!: map_idI)
  then show ?thesis
    using assms(2,5)
    by (auto simp: apply_decision_def commits_def connect_error_def claim_decision_sql_def already_decided_def Let_def
        status_allowed_def audit_action_def decision_value_def decided_row_def)
qed

lemma apply_decision_unchanged:
  assumes "st \<in> {''approved'', ''rejected''}"
    "\<not> (commits url fault by reason \<and> (\<exists>r \<in> set (queue db). claimable rid r))"
  shows "snd (apply_decision why url fault now rid st by reason db) = db"
    and "fst (apply_decision why url fault now rid st by reason db) \<noteq> Inr (Some r')"
proof -
  have "filter (claimable rid) (queue db) = [] \<or> \<not> commits url fault by reason"
    using assms(2) by (auto simp: filter_empty_conv)
  then show "snd (apply_decision why url fault now rid st by reason db) = db"
    and "fst (apply_decision why url fault now rid st by reason db) \<noteq> Inr (Some r')"
    using assms(1)
    by (cases fault; auto simp: apply_decision_def commits_def connect_error_def claim_decision_sql_def already_decided_def
        Let_def audit_action_def write_failed_def)+
qed

section \<open>The encoded decision\<close>

text \<open>The keys of \<open>decision_body\<close> are already sorted, so \<open>encode_body\<close> writes them in this order.\<close>

lemma json_ascii_opt: "list_all (\<lambda>c. code c < 128) (json_dumps isep ksep srt (opt_str v))"
  by (cases v) (simp_all add: opt_str_def json_str_ascii)

lemma encode_decision_body:
  "encode_body (decision_body rid st by reason project kind subject cb) =
     CHR 0x7B # json_str ''callback_workflow_id'' @ '':'' @ json_dumps '','' '':'' True (opt_str cb)
     @ '','' @ json_str ''decided_by'' @ '':'' @ json_str by
     @ '','' @ json_str ''id'' @ '':'' @ json_str rid
     @ '','' @ json_str ''kind'' @ '':'' @ json_dumps '','' '':'' True (opt_str kind)
     @ '','' @ json_str ''project'' @ '':'' @ json_dumps '','' '':'' True (opt_str project)
     @ '','' @ json_str ''reason'' @ '':'' @ json_dumps '','' '':'' True (opt_str reason)
     @ '','' @ json_str ''status'' @ '':'' @ json_str st
     @ '','' @ json_str ''subject_id'' @ '':'' @ json_dumps '','' '':'' True (opt_str subject) @ [CHR 0x7D]"
  (is "_ = ?text")
proof -
  have "json_dumps '','' '':'' True (PDict (decision_body rid st by reason project kind subject cb)) = ?text"
    by (simp add: decision_body_def Let_def sort_key_id_if_sorted)
  moreover have "list_all (\<lambda>c. code c < 128) ?text" by (simp add: json_str_ascii json_ascii_opt)
  ultimately show ?thesis by (simp add: encode_body_def utf8_ascii)
qed

text \<open>Different decisions have different bodies.\<close>

lemma decision_body_injective:
  assumes "encode_body (decision_body rid st by reason project kind subject cb) =
    encode_body (decision_body rid' st' by' reason' project' kind' subject' cb')"
  shows "(rid, st, by, reason, project, kind, subject, cb) = (rid', st', by', reason', project', kind', subject', cb')"
  using assms unfolding encode_decision_body
  by (auto dest!: json_str_prefix_free json_opt_prefix_free json_opt_prefix_free [where x = "[]" and y = "[]", simplified])

section \<open>Grouping\<close>

lemma append_to_group_keys:
  "map fst (append_to_group gs k x) = (if k \<in> fst ` set gs then map fst gs else map fst gs @ [k])"
  by (induction gs k x rule: append_to_group.induct) (auto split: if_splits)

lemma append_to_group_lookup:
  "map_of (append_to_group gs k x) k' =
     (if k' = k then Some ((case map_of gs k of None \<Rightarrow> [] | Some xs \<Rightarrow> xs) @ [x]) else map_of gs k')"
  by (induction gs k x rule: append_to_group.induct) auto

lemma iter_kinds_fold:
  "map_of (foldl (\<lambda>gs r. append_to_group gs (kind_of r) r) [] rows) k =
     (if filter (\<lambda>r. kind_of r = k) rows = [] then None else Some (filter (\<lambda>r. kind_of r = k) rows))
   \<and> distinct (map fst (foldl (\<lambda>gs r. append_to_group gs (kind_of r) r) [] rows))"
proof (induction rows rule: rev_induct)
  case (snoc r rows)
  then show ?case
    by (auto simp: append_to_group_lookup append_to_group_keys)
qed simp

text \<open>
  The groups of the list page are the items by kind: every kind that occurs has exactly one group, which holds
  exactly its items in the order they were listed; no item is lost and no group is empty.
\<close>

theorem iter_kinds_groups:
  "distinct (map fst (iter_kinds rows))
   \<and> map_of (iter_kinds rows) k =
       (if filter (\<lambda>r. kind_of r = k) rows = [] then None else Some (filter (\<lambda>r. kind_of r = k) rows))"
  using iter_kinds_fold unfolding iter_kinds_def by blast

end
