(* ===== verification/Review_App.thy ===== *)
theory Review_App
  imports Review_Queue "HOL-Library.Multiset"
begin

text \<open>
  \<open>review_ui/receiver.py\<close> and \<open>review_ui/app.py\<close>: the signed POST of a decision and the handlers of the review
  pages.  \<open>_decide\<close> is \<open>decide_claim\<close>, which ends with the answer or with the body to post, followed by
  \<open>decide_post\<close>; handlers run concurrently and the process may die between the two, so the system
  is a step relation over them.  Templates are outside the model: a page is its template, status and context.
\<close>

section \<open>receiver.py\<close>

definition WEBHOOK_TIMEOUT_S :: int where "WEBHOOK_TIMEOUT_S = 10"

record decision_request =
  req_url :: string
  req_content :: bytes
  req_headers :: "(string \<times> string) list"
  req_timeout :: int

definition decision_request_for :: "(bytes \<Rightarrow> bytes \<Rightarrow> string) \<Rightarrow> string \<Rightarrow> string \<Rightarrow> pydict \<Rightarrow> decision_request" where
  "decision_request_for hmac url secret payload =
     (let body = encode_body payload
      in \<lparr>req_url = url, req_content = body,
          req_headers = [(''Content-Type'', ''application/json''), (SIGNATURE_HEADER, sign_body hmac (TextSecret secret) body)],
          req_timeout = WEBHOOK_TIMEOUT_S\<rparr>)"

datatype receiver_error = ReceiverError | Escaped py_error

definition post_decision ::
    "(bytes \<Rightarrow> bytes \<Rightarrow> string) \<Rightarrow> (decision_request \<Rightarrow> post_outcome) \<Rightarrow> string \<Rightarrow> string \<Rightarrow> pydict
     \<Rightarrow> (receiver_error + unit) \<times> decision_request list" where
  "post_decision hmac post url secret payload =
     (let req = decision_request_for hmac url secret payload
      in (case post req of Delivered \<Rightarrow> Inr () | HTTPError \<Rightarrow> Inl ReceiverError | OtherError e \<Rightarrow> Inl (Escaped e), [req]))"

section \<open>app.py: helpers\<close>

definition app_settings :: "review_settings option \<Rightarrow> review_settings res" where
  "app_settings configured =
     (case configured of None \<Rightarrow> Inl (RuntimeError ''review-ui settings are not configured'') | Some st \<Rightarrow> Inr st)"

definition actor :: "review_settings option \<Rightarrow> string \<Rightarrow> string \<Rightarrow> http_error + string" where
  "actor configured username password =
     (case app_settings configured of Inl e \<Rightarrow> Inl (Unhandled e) | Inr st \<Rightarrow> require_basic username password st)"

definition templates_dir :: "filesystem \<Rightarrow> path \<Rightarrow> path" where
  "templates_dir fs package_dir =
     (let candidates = [[''app'', ''templates''], butlast (butlast package_dir) @ [''templates''], package_dir @ [''templates'']]
      in case find (\<lambda>p. \<not> file_above fs (p @ [''base.html'']) \<and> is_file (fs (p @ [''base.html'']))) candidates of
           Some p \<Rightarrow> p
         | None \<Rightarrow> candidates ! 1)"

definition pretty_json :: "pyval \<Rightarrow> string" where
  "pretty_json v = json_indent json_str 0 v"

section \<open>app.py: handlers\<close>

datatype response =
    JsonPage pydict
  | Redirect string int
  | ListPage "string option" "(string \<times> review_item list) list" "string option"
  | DetailPage int "string option" "review_item option" string "string option" bool

definition review_health :: response where
  "review_health = JsonPage [(''status'', PStr ''ok''), (''service'', PStr ''review-ui'')]"

definition root_page :: response where
  "root_page = Redirect ''/reviews'' 302"

definition reviews_list ::
    "(string option \<Rightarrow> 'k :: linorder) \<Rightarrow> string \<Rightarrow> db_fault \<Rightarrow> review_settings option \<Rightarrow> review_settings
     \<Rightarrow> string \<Rightarrow> string \<Rightarrow> string option \<Rightarrow> review_db \<Rightarrow> http_error + response" where
  "reviews_list collate why fault configured resolved username password notice db =
     rbind (actor configured username password) (\<lambda>_.
       rbind (case list_pending collate why (database_url resolved) fault db of
                Inl (DatabaseUnavailable msg) \<Rightarrow> Inr (Some msg, [])
              | Inl (Raised e) \<Rightarrow> Inl (Unhandled e)
              | Inr items \<Rightarrow> Inr (None, items))
         (\<lambda>(error, items).
            Inr (ListPage error (if or_empty error = [] then iter_kinds items else []) notice)))"

definition reviews_detail ::
    "string \<Rightarrow> db_fault \<Rightarrow> review_settings option \<Rightarrow> review_settings \<Rightarrow> string \<Rightarrow> string \<Rightarrow> uuid \<Rightarrow> string option
     \<Rightarrow> review_db \<Rightarrow> http_error + response" where
  "reviews_detail why fault configured resolved username password review_id notice db =
     rbind (actor configured username password) (\<lambda>_.
       rbind (case get_item why (database_url resolved) fault review_id db of
                Inl (DatabaseUnavailable msg) \<Rightarrow> Inr (Some msg, None)
              | Inl (Raised e) \<Rightarrow> Inl (Unhandled e)
              | Inr item \<Rightarrow> Inr (None, item))
         (\<lambda>(error, item).
            if error = None \<and> item = None then Inr (DetailPage 404 (Some ''Review item not found.'') None [] notice False)
            else Inr (DetailPage 200 error item (case item of None \<Rightarrow> [] | Some r \<Rightarrow> pretty_json (r_payload r)) notice
                        (case item of None \<Rightarrow> False | Some r \<Rightarrow> r_status r = Some ''pending''))))"

section \<open>app.py: decisions\<close>

definition notice_url :: "uuid \<Rightarrow> string \<Rightarrow> response" where
  "notice_url review_id notice = Redirect (''/reviews/'' @ review_id @ ''?notice='' @ notice) 303"

definition reason_value :: "string \<Rightarrow> string option" where
  "reason_value reason = (if py_strip reason = [] then None else Some (py_strip reason))"

text \<open>\<open>_decide\<close> up to the POST.\<close>

definition decide_claim ::
    "string \<Rightarrow> db_fault \<Rightarrow> int \<Rightarrow> review_settings \<Rightarrow> uuid \<Rightarrow> string \<Rightarrow> string \<Rightarrow> string \<Rightarrow> review_db
     \<Rightarrow> ((http_error + response) + pydict) \<times> review_db" where
  "decide_claim why fault now resolved review_id status by reason db =
     (let (result, db') = apply_decision why (database_url resolved) fault now review_id status by (reason_value reason) db
      in (case result of
            Inl (DatabaseUnavailable msg) \<Rightarrow> Inl (Inr (notice_url review_id ''db_error''))
          | Inl (Raised e) \<Rightarrow> Inl (Inl (Unhandled e))
          | Inr None \<Rightarrow> Inl (Inr (notice_url review_id ''already_decided''))
          | Inr (Some claimed) \<Rightarrow>
              Inr (decision_body review_id status by (reason_value reason) (r_project claimed) (r_kind claimed)
                     (r_subject_id claimed) (r_callback claimed)), db'))"

text \<open>The rest of \<open>_decide\<close>.\<close>

definition decide_post ::
    "(bytes \<Rightarrow> bytes \<Rightarrow> string) \<Rightarrow> (decision_request \<Rightarrow> post_outcome) \<Rightarrow> review_settings \<Rightarrow> uuid \<Rightarrow> string \<Rightarrow> pydict
     \<Rightarrow> (http_error + response) \<times> decision_request list" where
  "decide_post hmac post resolved review_id status body =
     (let (result, sent) = post_decision hmac post (review_receiver_url resolved) (review_hmac_secret resolved) body
      in (case result of
            Inl ReceiverError \<Rightarrow>
              Inr (notice_url review_id
                     (if status = ''approved'' then ''approved_receiver_failed'' else ''rejected_receiver_failed''))
          | Inl (Escaped e) \<Rightarrow> Inl (Unhandled e)
          | Inr _ \<Rightarrow> Inr (notice_url review_id (if status = ''approved'' then ''approved'' else ''rejected'')), sent))"

definition decide ::
    "(bytes \<Rightarrow> bytes \<Rightarrow> string) \<Rightarrow> (decision_request \<Rightarrow> post_outcome) \<Rightarrow> string \<Rightarrow> db_fault \<Rightarrow> int \<Rightarrow> review_settings
     \<Rightarrow> uuid \<Rightarrow> string \<Rightarrow> string \<Rightarrow> string \<Rightarrow> review_db
     \<Rightarrow> (http_error + response) \<times> review_db \<times> decision_request list" where
  "decide hmac post why fault now resolved review_id status by reason db =
     (case decide_claim why fault now resolved review_id status by reason db of
        (Inl answer, db') \<Rightarrow> (answer, db', [])
      | (Inr body, db') \<Rightarrow> (let (answer, sent) = decide_post hmac post resolved review_id status body in (answer, db', sent)))"

definition decision_endpoint ::
    "string \<Rightarrow> (bytes \<Rightarrow> bytes \<Rightarrow> string) \<Rightarrow> (decision_request \<Rightarrow> post_outcome) \<Rightarrow> string \<Rightarrow> db_fault \<Rightarrow> int
     \<Rightarrow> review_settings option \<Rightarrow> review_settings \<Rightarrow> string \<Rightarrow> string \<Rightarrow> uuid \<Rightarrow> string \<Rightarrow> review_db
     \<Rightarrow> (http_error + response) \<times> review_db \<times> decision_request list" where
  "decision_endpoint status hmac post why fault now configured resolved username password review_id reason db =
     (case actor configured username password of
        Inl e \<Rightarrow> (Inl e, db, [])
      | Inr by \<Rightarrow> decide hmac post why fault now resolved review_id status by reason db)"

definition reviews_approve where "reviews_approve = decision_endpoint ''approved''"
definition reviews_reject where "reviews_reject = decision_endpoint ''rejected''"

text \<open>\<open>create_app\<close> stores the settings it resolved; a start with bad settings fails.\<close>

definition create_app :: "review_settings option \<Rightarrow> (string \<rightharpoonup> string) \<Rightarrow> review_settings res" where
  "create_app given env = (case given of Some st \<Rightarrow> Inr st | None \<Rightarrow> load_review_settings env)"

lemmas review_app_defs [eval_simps] =
  WEBHOOK_TIMEOUT_S_def decision_request_for_def post_decision_def app_settings_def actor_def templates_dir_def
  pretty_json_def review_health_def root_page_def reviews_list_def reviews_detail_def notice_url_def
  reason_value_def decide_claim_def decide_post_def decide_def decision_endpoint_def reviews_approve_def
  reviews_reject_def create_app_def

end
