(* ===== verification/Review_System.thy ===== *)
theory Review_System
  imports Review_App
begin

text \<open>
  The review queue as a concurrent system.  Any number of \<open>_decide\<close> calls interleave: a call first runs its
  transaction (\<open>decide_claim\<close>, with any failure of the database) and, when it has claimed the row, is in flight until
  it posts the body (\<open>decide_post\<close>, with any answer of the receiver) or the process dies.  Projects
  enqueue pending rows and pending rows may expire.  The audit log is its part about the review queue.
\<close>

section \<open>What a decided row stands for\<close>

definition decided :: "review_item \<Rightarrow> bool" where
  "decided r \<longleftrightarrow> r_status r \<in> {Some ''approved'', Some ''rejected''}"

definition row_reason :: "review_item \<Rightarrow> string option" where
  "row_reason r = (case r_decision r of PDict d \<Rightarrow> (case dget d ''reason'' of PStr s \<Rightarrow> Some s | _ \<Rightarrow> None) | _ \<Rightarrow> None)"

definition row_audit :: "review_item \<Rightarrow> audit_row" where
  "row_audit r =
     audit_entry (r_id r) (or_empty (r_status r)) (projr (audit_action (or_empty (r_status r)))) (or_empty (r_decided_by r))
       (row_reason r) (r_project r)"

definition row_body :: "review_item \<Rightarrow> pydict" where
  "row_body r =
     decision_body (r_id r) (or_empty (r_status r)) (or_empty (r_decided_by r)) (row_reason r) (r_project r) (r_kind r)
       (r_subject_id r) (r_callback r)"

definition row_request :: "(bytes \<Rightarrow> bytes \<Rightarrow> string) \<Rightarrow> review_settings \<Rightarrow> review_item \<Rightarrow> decision_request" where
  "row_request hmac st r = decision_request_for hmac (review_receiver_url st) (review_hmac_secret st) (row_body r)"

section \<open>Steps\<close>

record in_flight =
  fl_id :: uuid
  fl_status :: string
  fl_body :: pydict

record review_system =
  sys_db :: review_db
  flying :: "in_flight list"
  sent :: "decision_request list"

definition flying_request :: "(bytes \<Rightarrow> bytes \<Rightarrow> string) \<Rightarrow> review_settings \<Rightarrow> in_flight \<Rightarrow> decision_request" where
  "flying_request hmac st f = decision_request_for hmac (review_receiver_url st) (review_hmac_secret st) (fl_body f)"

definition initial :: review_system where
  "initial = \<lparr>sys_db = \<lparr>queue = [], audit_log = []\<rparr>, flying = [], sent = []\<rparr>"

text \<open>One call's transaction, as a step of the system.\<close>

definition run_claim ::
    "string \<Rightarrow> db_fault \<Rightarrow> int \<Rightarrow> review_settings \<Rightarrow> uuid \<Rightarrow> string \<Rightarrow> string \<Rightarrow> string \<Rightarrow> review_system \<Rightarrow> review_system" where
  "run_claim why fault now st rid status who reason s =
     (case decide_claim why fault now st rid status who reason (sys_db s) of
        (Inl answer, db') \<Rightarrow> s\<lparr>sys_db := db'\<rparr>
      | (Inr body, db') \<Rightarrow>
          s\<lparr>sys_db := db', flying := \<lparr>fl_id = rid, fl_status = status, fl_body = body\<rparr> # flying s\<rparr>)"

inductive sys_step :: "(bytes \<Rightarrow> bytes \<Rightarrow> string) \<Rightarrow> review_settings \<Rightarrow> review_system \<Rightarrow> review_system \<Rightarrow> bool"
  for hmac st where
  enqueue: "r_status r = Some ''pending'' \<Longrightarrow> r_id r \<notin> r_id ` set (queue (sys_db s))
    \<Longrightarrow> sys_step hmac st s (s\<lparr>sys_db := (sys_db s)\<lparr>queue := queue (sys_db s) @ [r]\<rparr>\<rparr>)"
| expire: "queue (sys_db s) = xs @ r # ys \<Longrightarrow> r_status r = Some ''pending''
    \<Longrightarrow> sys_step hmac st s (s\<lparr>sys_db := (sys_db s)\<lparr>queue := xs @ r\<lparr>r_status := Some ''expired''\<rparr> # ys\<rparr>\<rparr>)"
| claim: "status \<in> {''approved'', ''rejected''}
    \<Longrightarrow> sys_step hmac st s (run_claim why fault now st rid status who reason s)"
| post: "flying s = fs @ f # gs
    \<Longrightarrow> sys_step hmac st s
          (s\<lparr>flying := fs @ gs,
             sent := sent s @ snd (decide_post hmac outcome st (fl_id f) (fl_status f) (fl_body f))\<rparr>)"
| crash: "sys_step hmac st s (s\<lparr>flying := []\<rparr>)"

inductive_simps sys_step_iff: "sys_step hmac st s s'"

definition reachable :: "(bytes \<Rightarrow> bytes \<Rightarrow> string) \<Rightarrow> review_settings \<Rightarrow> review_system \<Rightarrow> bool" where
  "reachable hmac st s \<longleftrightarrow> (sys_step hmac st)\<^sup>*\<^sup>* initial s"

section \<open>The invariant\<close>

definition sys_inv :: "(bytes \<Rightarrow> bytes \<Rightarrow> string) \<Rightarrow> review_settings \<Rightarrow> review_system \<Rightarrow> bool" where
  "sys_inv hmac st s \<longleftrightarrow>
     distinct (map r_id (queue (sys_db s)))
     \<and> mset (audit_log (sys_db s)) = mset (map row_audit (filter decided (queue (sys_db s))))
     \<and> mset (sent s @ map (flying_request hmac st) (flying s))
         \<subseteq># mset (map (row_request hmac st) (filter decided (queue (sys_db s))))"

lemma sent_by_decide_post:
  "snd (decide_post hmac outcome st rid status body) =
     [decision_request_for hmac (review_receiver_url st) (review_hmac_secret st) body]"
  by (simp add: decide_post_def post_decision_def Let_def)

lemma decided_row_reads:
  assumes "status \<in> {''approved'', ''rejected''}" "claimable rid r"
    "r' = decided_row now status who (decision_value reason status) r"
  shows "r_id r' = r_id r" "decided r'" "\<not> decided r"
    "row_audit r' = audit_entry rid status (projr (audit_action status)) who reason (r_project r)"
    "row_body r' = decision_body rid status who reason (r_project r') (r_kind r') (r_subject_id r') (r_callback r')"
  using assms
  by (auto simp: decided_row_def decided_def row_audit_def row_body_def row_reason_def decision_value_def claimable_def
      dget_def opt_str_def split: option.splits)

text \<open>What \<open>run_claim\<close> does: nothing, or a row decided, its audit row appended and perhaps a call in flight.\<close>

lemma run_claim_cases:
  assumes "distinct (map r_id (queue (sys_db s)))" "status \<in> {''approved'', ''rejected''}"
  obtains (idle) "run_claim why fault now st rid status who reason s = s"
  | (decided) xs r ys fl where
      "queue (sys_db s) = xs @ r # ys" "claimable rid r"
      "run_claim why fault now st rid status who reason s =
         s\<lparr>sys_db := \<lparr>queue = xs @ decided_row now status who (decision_value (reason_value reason) status) r # ys,
                      audit_log = audit_log (sys_db s)
                        @ [row_audit (decided_row now status who (decision_value (reason_value reason) status) r)]\<rparr>,
           flying := fl @ flying s\<rparr>"
      "fl = [] \<or> (\<exists>f. fl = [f]
         \<and> fl_body f = row_body (decided_row now status who (decision_value (reason_value reason) status) r))"
proof (cases "commits (database_url st) fault who (reason_value reason) \<and> (\<exists>r \<in> set (queue (sys_db s)). claimable rid r)")
  case False
  note same = apply_decision_unchanged [OF assms(2) False, where why = why and now = now]
  have "run_claim why fault now st rid status who reason s = s"
    using same by (auto simp: run_claim_def decide_claim_def split_beta Let_def
        split: sum.splits option.splits review_error.splits)
  then show thesis by (rule idle)
next
  case True
  then obtain xs r ys where q: "queue (sys_db s) = xs @ r # ys" and r: "claimable rid r"
    by (metis split_list)
  note eff = apply_decision_pending [OF assms q r, of "database_url st" fault who "reason_value reason" why now]
  note reads = decided_row_reads [OF assms(2) r refl]
  show thesis
    using True eff
    by (intro decided [OF q r, where fl = "if fault = CommitUnknown then [] else
          [\<lparr>fl_id = rid, fl_status = status,
            fl_body = row_body (decided_row now status who (decision_value (reason_value reason) status) r)\<rparr>]"])
      (auto simp: run_claim_def decide_claim_def Let_def write_failed_def reads)
qed

lemma sys_inv_initial: "sys_inv hmac st initial"
  by (simp add: sys_inv_def initial_def)

lemma sys_inv_claim:
  assumes "sys_inv hmac st s" "status \<in> {''approved'', ''rejected''}"
  shows "sys_inv hmac st (run_claim why fault now st rid status who reason s)"
proof -
  have "distinct (map r_id (queue (sys_db s)))" using assms(1) by (simp add: sys_inv_def)
  from this assms(2) show ?thesis
  proof (rule run_claim_cases [where why = why and fault = fault and now = now and st = st and rid = rid and who = who
        and reason = reason])
    fix xs r ys fl
    let ?r = "decided_row now status who (decision_value (reason_value reason) status) r"
    assume q: "queue (sys_db s) = xs @ r # ys" "claimable rid r"
      and eff: "run_claim why fault now st rid status who reason s =
        s\<lparr>sys_db := \<lparr>queue = xs @ ?r # ys, audit_log = audit_log (sys_db s) @ [row_audit ?r]\<rparr>, flying := fl @ flying s\<rparr>"
      and fl: "fl = [] \<or> (\<exists>f. fl = [f] \<and> fl_body f = row_body ?r)"
    show ?thesis
      using assms(1) q eff fl
      by (auto simp: decided_row_reads [OF assms(2) q(2) refl] sys_inv_def flying_request_def row_request_def intro: subset_mset.order_trans)
  qed (use assms(1) in simp)
qed

lemma sys_inv_step: "sys_step hmac st s s' \<Longrightarrow> sys_inv hmac st s \<Longrightarrow> sys_inv hmac st s'"
proof (induction rule: sys_step.induct)
  case (enqueue r s)
  then show ?case by (auto simp: sys_inv_def decided_def)
next
  case (expire s xs r ys)
  then show ?case by (auto simp: sys_inv_def decided_def)
next
  case claim
  then show ?case by (blast intro: sys_inv_claim)
next
  case (post s fs f gs outcome)
  then show ?case by (auto simp: sys_inv_def sent_by_decide_post flying_request_def ac_simps)
next
  case (crash s)
  then show ?case
    by (auto simp: sys_inv_def intro: subset_mset.order_trans [OF mset_subset_eq_add_left])
qed

lemma sys_inv_reachable: "reachable hmac st s \<Longrightarrow> sys_inv hmac st s"
  unfolding reachable_def
  by (induction rule: rtranclp_induct) (blast intro: sys_inv_initial sys_inv_step)+

section \<open>Each decision is recorded once and posted at most once\<close>

lemma row_request_ids:
  "req_content (row_request hmac st r) = req_content (row_request hmac st r') \<Longrightarrow> r_id r = r_id r'"
  by (auto simp: row_request_def decision_request_for_def row_body_def Let_def dest: decision_body_injective)

lemma distinct_contents:
  assumes "distinct (map r_id rows)"
  shows "distinct (map (\<lambda>r. req_content (row_request hmac st r)) rows)"
proof -
  have "inj_on (\<lambda>r. req_content (row_request hmac st r)) (set rows)"
    using assms by (auto simp: distinct_map inj_on_def dest!: row_request_ids)
  then show ?thesis using assms by (simp add: distinct_map)
qed

lemma distinct_sub_mset: "mset xs \<subseteq># mset ys \<Longrightarrow> distinct ys \<Longrightarrow> distinct xs"
  by (metis distinct_append mset_append mset_eq_imp_distinct_iff mset_subset_eq_exists_conv surj_def surj_mset)

lemma sent_sub:
  assumes "sys_inv hmac st s"
  shows "mset (sent s) \<subseteq># mset (map (row_request hmac st) (filter decided (queue (sys_db s))))"
  using assms subset_mset.order_trans [OF mset_subset_eq_add_left]
  by (fastforce simp: sys_inv_def)

lemma sent_once:
  assumes "sys_inv hmac st s"
  shows "distinct (map req_content (sent s))"
proof -
  have "mset (map req_content (sent s))
      \<subseteq># mset (map (\<lambda>r. req_content (row_request hmac st r)) (filter decided (queue (sys_db s))))"
    using image_mset_subseteq_mono [OF sent_sub [OF assms], of req_content] by (simp add: image_mset.compositionality comp_def)
  moreover have "distinct (map r_id (filter decided (queue (sys_db s))))"
    using assms by (simp add: sys_inv_def distinct_map_filter)
  ultimately show ?thesis by (blast intro: distinct_sub_mset distinct_contents)
qed

text \<open>
  C29: In every reachable state of the review system, whatever calls interleave, fail in the database or die before
  they post: ids are unique, the audit log holds exactly one entry for every approved or rejected row and it is
  the entry of that decision, every request sent to the receiver is the signed request of a decided row,
  and no two requests carry the same decision.
\<close>

theorem decisions_recorded_and_posted_once:
  assumes "reachable hmac st s"
  shows "distinct (map r_id (queue (sys_db s)))
    \<and> mset (audit_log (sys_db s)) = mset (map row_audit (filter decided (queue (sys_db s))))
    \<and> set (sent s) \<subseteq> row_request hmac st ` set (filter decided (queue (sys_db s)))
    \<and> distinct (map req_content (sent s))"
  using sys_inv_reachable [OF assms] sent_once sent_sub [THEN set_mset_mono]
  by (auto simp: sys_inv_def)

section \<open>A decision is final\<close>

lemma decided_kept:
  assumes "sys_step hmac st s s'" "sys_inv hmac st s" "r \<in> set (queue (sys_db s))" "decided r"
  shows "r \<in> set (queue (sys_db s'))"
  using assms
proof (induction rule: sys_step.induct)
  case (claim status s why fault now rid who reason)
  have "distinct (map r_id (queue (sys_db s)))" using claim.prems by (simp add: sys_inv_def)
  from this claim.hyps show ?case
    by (rule run_claim_cases [where why = why and fault = fault and now = now and st = st and rid = rid and who = who
          and reason = reason])
      (use claim.prems in \<open>auto simp: decided_def claimable_def\<close>)
qed (auto simp: decided_def)

lemma decided_kept_steps:
  assumes "(sys_step hmac st)\<^sup>*\<^sup>* s s'" "sys_inv hmac st s" "r \<in> set (queue (sys_db s))" "decided r"
  shows "r \<in> set (queue (sys_db s')) \<and> sys_inv hmac st s'"
  using assms by (induction rule: rtranclp_induct) (auto intro: decided_kept sys_inv_step)

text \<open>
  C30: A decision is final: once a row is approved or rejected, no later step of the system changes anything in it,
  be it its status, its decider, its time or its reason.
\<close>

theorem decided_rows_final:
  assumes "reachable hmac st s" "(sys_step hmac st)\<^sup>*\<^sup>* s s'" "r \<in> set (queue (sys_db s))" "decided r"
  shows "r \<in> set (queue (sys_db s'))"
  using decided_kept_steps [OF assms(2) sys_inv_reachable [OF assms(1)] assms(3,4)] by simp

section \<open>A pending review can be decided\<close>

text \<open>
  C31: No state blocks a decision: from any state with unique row ids and a pending row, with a non-empty database url, a
  working database and no NUL in the actor and the reason, exactly two steps suffice: the transaction of that decision,
  after which that row alone has changed, carries the decision and has its audit row, and the POST, after which
  its request is the last one sent and nothing else is different.
\<close>

theorem pending_review_can_be_decided:
  assumes "distinct (map r_id (queue (sys_db s)))" "queue (sys_db s) = xs @ r # ys" "r_status r = Some ''pending''"
    "status \<in> {''approved'', ''rejected''}" "database_url st \<noteq> []" "\<not> has_nul (Some who)" "\<not> has_nul (Some reason)"
  shows "\<exists>s1 s2 r'. s1 = run_claim [] Healthy now st (r_id r) status who reason s
    \<and> sys_step hmac st s s1 \<and> sys_step hmac st s1 s2
    \<and> r' = decided_row now status who (decision_value (reason_value reason) status) r
    \<and> sys_db s1 = \<lparr>queue = xs @ r' # ys, audit_log = audit_log (sys_db s) @ [row_audit r']\<rparr> \<and> sent s1 = sent s
    \<and> sys_db s2 = sys_db s1 \<and> flying s2 = flying s \<and> sent s2 = sent s @ [row_request hmac st r']"
proof -
  let ?r = "decided_row now status who (decision_value (reason_value reason) status) r"
  let ?s = "run_claim [] Healthy now st (r_id r) status who reason s"
  have r: "claimable (r_id r) r" using assms(3) by (simp add: claimable_def)
  have "set (py_strip reason) \<subseteq> set reason"
    by (auto simp: py_strip_def dest!: set_dropWhileD)
  then have "commits (database_url st) Healthy who (reason_value reason)"
    using assms(5-7) by (auto simp: commits_def reason_value_def has_nul_def)
  note eff = apply_decision_pending [OF assms(1,4,2) r this, of "[]" now]
  have s1: "?s = s\<lparr>sys_db := \<lparr>queue = xs @ ?r # ys, audit_log = audit_log (sys_db s) @ [row_audit ?r]\<rparr>,
      flying := \<lparr>fl_id = r_id r, fl_status = status, fl_body = row_body ?r\<rparr> # flying s\<rparr>"
    using eff by (simp add: run_claim_def decide_claim_def Let_def decided_row_reads [OF assms(4) r refl])
  have "sys_step hmac st s ?s" using assms(4) by (rule sys_step.claim)
  moreover have "sys_step hmac st ?s (?s\<lparr>flying := [] @ flying s, sent := sent ?s
      @ snd (decide_post hmac (\<lambda>_. Delivered) st (r_id r) status (row_body ?r))\<rparr>)"
    using sys_step.post [of ?s "[]" "\<lparr>fl_id = r_id r, fl_status = status, fl_body = row_body ?r\<rparr>" "flying s"]
    by (simp add: s1)
  ultimately show ?thesis
    by (intro exI [of _ ?s] exI [of _ "?s\<lparr>flying := [] @ flying s, sent := sent ?s
          @ snd (decide_post hmac (\<lambda>_. Delivered) st (r_id r) status (row_body ?r))\<rparr>"] exI [of _ ?r])
      (auto simp: s1 sent_by_decide_post row_request_def)
qed

section \<open>One decision, end to end\<close>

lemma decision_endpoint_pending:
  assumes "distinct (map r_id (queue db))" "queue db = xs @ r # ys" "claimable rid r" "status \<in> {''approved'', ''rejected''}"
    "actor (Some st) username password = Inr who" "commits (database_url st) fault who (reason_value reason)"
    "r' = decided_row now status who (decision_value (reason_value reason) status) r"
  shows "decision_endpoint status hmac post why fault now (Some st) st username password rid reason db =
    (let db' = \<lparr>queue = xs @ r' # ys, audit_log = audit_log db @ [row_audit r']\<rparr>
     in if fault = CommitUnknown then (Inr (notice_url rid ''db_error''), db', [])
        else (case post (row_request hmac st r') of
                Delivered \<Rightarrow> Inr (notice_url rid status)
              | HTTPError \<Rightarrow> Inr (notice_url rid (status @ ''_receiver_failed''))
              | OtherError e \<Rightarrow> Inl (Unhandled e), db', [row_request hmac st r']))"
  using apply_decision_pending [OF assms(1,4,2,3,6), of why now] assms(4,5,7)
  by (auto simp: decision_endpoint_def decide_def decide_claim_def decide_post_def post_decision_def Let_def write_failed_def
      row_request_def decided_row_reads [OF assms(4,3) refl] split: post_outcome.splits)

lemma actor_credentials:
  "list_all (\<lambda>c. code c < 128) (review_ui_user st @ review_ui_password st)
   \<Longrightarrow> actor (Some st) (review_ui_user st) (review_ui_password st) = Inr (review_ui_actor_id st)"
  by (simp add: actor_def app_settings_def require_basic_def constant_time_equals_def compare_digest_def)

text \<open>
  C32: Approving a pending review with the configured credentials, on a working database: the row and only that row
  becomes approved with actor, time and trimmed reason, one audit row is appended, exactly one request is sent,
  the signed one of that row, and the browser is sent to the notice of the receiver's answer.  When the
  receiver fails the decision stays committed and the notice says so.
\<close>

theorem approve_pending_exact:
  assumes "distinct (map r_id (queue db))" "queue db = xs @ r # ys" "r_id r = rid" "r_status r = Some ''pending''"
    "list_all (\<lambda>c. code c < 128) (review_ui_user st @ review_ui_password st)"
    "database_url st \<noteq> []" "\<not> has_nul (Some (review_ui_actor_id st))" "\<not> has_nul (reason_value reason)"
  shows "let r' = decided_row now ''approved'' (review_ui_actor_id st) (decision_value (reason_value reason) ''approved'') r
    in reviews_approve hmac post why Healthy now (Some st) st (review_ui_user st) (review_ui_password st) rid reason db =
      (case post (row_request hmac st r') of
         Delivered \<Rightarrow> Inr (notice_url rid ''approved'')
       | HTTPError \<Rightarrow> Inr (notice_url rid ''approved_receiver_failed'')
       | OtherError e \<Rightarrow> Inl (Unhandled e),
       \<lparr>queue = xs @ r' # ys, audit_log = audit_log db @ [row_audit r']\<rparr>, [row_request hmac st r'])"
proof -
  have "claimable rid r" using assms(3,4) by (simp add: claimable_def)
  moreover have "commits (database_url st) Healthy (review_ui_actor_id st) (reason_value reason)"
    using assms(6-8) by (simp add: commits_def)
  ultimately show ?thesis
    using decision_endpoint_pending [OF assms(1,2) _ _ actor_credentials [OF assms(5)] _ refl]
    by (simp add: reviews_approve_def Let_def cong: post_outcome.case_cong)
qed

text \<open>
  C33: The signature binds every field of a decision: two decisions verify against each other's signature exactly when
  they are the same decision, in all of id, status, actor, reason, project, kind, subject and callback, provided
  that the digests are ASCII and the two bodies do not collide under the shared secret.
\<close>

theorem signature_binds_decision:
  assumes "\<And>m. list_all (\<lambda>c. code c < 128) (hmac (secret_key s) m)"
    and "hmac (secret_key s) (encode_body (decision_body rid st who reason project kind subject cb))
         = hmac (secret_key s) (encode_body (decision_body rid' st' who' reason' project' kind' subject' cb'))
       \<Longrightarrow> encode_body (decision_body rid st who reason project kind subject cb)
         = encode_body (decision_body rid' st' who' reason' project' kind' subject' cb')"
  shows "signatures_match (sign_body hmac s (encode_body (decision_body rid st who reason project kind subject cb)))
      (sign_body hmac s (encode_body (decision_body rid' st' who' reason' project' kind' subject' cb')))
    = Inr ((rid, st, who, reason, project, kind, subject, cb) = (rid', st', who', reason', project', kind', subject', cb'))"
proof -
  let ?b = "encode_body (decision_body rid st who reason project kind subject cb)"
  let ?b' = "encode_body (decision_body rid' st' who' reason' project' kind' subject' cb')"
  have "signatures_match (sign_body hmac s ?b) (sign_body hmac s ?b') =
      Inr (hmac (secret_key s) ?b = hmac (secret_key s) ?b')"
    using assms(1)
    by (auto simp: signatures_match_def sign_body_def SIGNATURE_PREFIX_def constant_time_equals_def compare_digest_def)
  then show ?thesis using assms(2) by (auto dest: decision_body_injective)
qed

section \<open>A concrete run\<close>

definition demo_settings :: review_settings where
  "demo_settings = \<lparr>review_ui_user = ''reviewer'', review_ui_password = ''pw'', review_hmac_secret = ''key'',
     review_receiver_url = ''http://n8n/hook'', review_ui_actor_id = ''ann'', database_url = ''postgres://db''\<rparr>"

definition demo_row :: review_item where
  "demo_row = \<lparr>r_id = ''r1'', r_project = Some ''p01'', r_kind = Some ''lead'', r_subject_id = Some ''7'', r_payload = PNone,
     r_status = Some ''pending'', r_created_at = 1, r_decided_at = None, r_decided_by = None, r_decision = PNone,
     r_callback = None\<rparr>"

definition demo_enqueued :: review_system where
  "demo_enqueued = initial\<lparr>sys_db := \<lparr>queue = [demo_row], audit_log = []\<rparr>\<rparr>"

definition demo_claimed :: review_system where
  "demo_claimed = run_claim [] Healthy 5 demo_settings ''r1'' ''approved'' ''ann'' '' ok '' demo_enqueued"

definition demo_hmac :: "bytes \<Rightarrow> bytes \<Rightarrow> string" where
  "demo_hmac key m = concat (map hex2 m)"

lemmas demo_defs = demo_settings_def demo_row_def demo_enqueued_def demo_claimed_def initial_def

lemma demo_hmac_ascii: "list_all (\<lambda>c. code c < 128) (demo_hmac key m)"
  by (auto simp: demo_hmac_def list_all_iff dest!: hex2_ascii)

lemma demo_hmac_inject: "demo_hmac key m = demo_hmac key m' \<Longrightarrow> m = m'"
proof (induction m arbitrary: m')
  case (Cons c m)
  then obtain d n where m': "m' = d # n" by (cases m') (auto simp: demo_hmac_def hex2_def)
  have "hex2 c @ demo_hmac key m = hex2 d @ demo_hmac key n" using Cons.prems by (simp add: m' demo_hmac_def)
  then have "hex2 c = hex2 d" "demo_hmac key m = demo_hmac key n" by (simp_all add: append_eq_append_conv)
  then show ?case using Cons.IH m' by (auto simp: hex2_inject)
qed (cases m'; auto simp: demo_hmac_def hex2_def)

lemma demo_enqueued_reachable: "reachable demo_hmac demo_settings demo_enqueued"
proof -
  have "sys_step demo_hmac demo_settings initial demo_enqueued"
    using sys_step.enqueue [of demo_row initial demo_hmac demo_settings] by (simp add: demo_defs)
  then show ?thesis unfolding reachable_def by blast
qed

lemma demo_claim_step: "sys_step demo_hmac demo_settings demo_enqueued demo_claimed"
  unfolding demo_claimed_def by (rule sys_step.claim) simp

lemma demo_claimed_reachable: "reachable demo_hmac demo_settings demo_claimed"
  using demo_enqueued_reachable demo_claim_step unfolding reachable_def by (rule rtranclp.rtrancl_into_rtrancl)

lemma demo_claimed_queue:
  "queue (sys_db demo_claimed) =
     [demo_row\<lparr>r_status := Some ''approved'', r_decided_at := Some 5, r_decided_by := Some ''ann'',
        r_decision := PDict [(''reason'', PStr ''ok''), (''status'', PStr ''approved'')]\<rparr>]"
  by (simp add: demo_defs run_claim_def eval_simps char_simps Let_def)

theorem decisions_recorded_and_posted_once_witness:
  "reachable demo_hmac demo_settings demo_claimed \<and> filter decided (queue (sys_db demo_claimed)) \<noteq> []
   \<and> mset (audit_log (sys_db demo_claimed)) = mset (map row_audit (filter decided (queue (sys_db demo_claimed))))
   \<and> distinct (map req_content (sent demo_claimed))"
  using decisions_recorded_and_posted_once [OF demo_claimed_reachable] demo_claimed_reachable
  by (simp add: demo_claimed_queue decided_def)

theorem decided_rows_final_witness:
  "hd (queue (sys_db demo_claimed)) \<in> set (queue (sys_db (demo_claimed\<lparr>flying := []\<rparr>)))"
proof (rule decided_rows_final [OF demo_claimed_reachable])
  show "(sys_step demo_hmac demo_settings)\<^sup>*\<^sup>* demo_claimed (demo_claimed\<lparr>flying := []\<rparr>)"
    by (blast intro: sys_step.crash)
qed (simp_all add: demo_claimed_queue decided_def)

theorem pending_review_can_be_decided_witness:
  "\<exists>s1 s2 r'. s1 = run_claim [] Healthy 5 demo_settings (r_id demo_row) ''rejected'' ''ann'' ''no'' demo_enqueued
    \<and> sys_step demo_hmac demo_settings demo_enqueued s1 \<and> sys_step demo_hmac demo_settings s1 s2
    \<and> r' = decided_row 5 ''rejected'' ''ann'' (decision_value (reason_value ''no'') ''rejected'') demo_row
    \<and> sys_db s1 = \<lparr>queue = [] @ r' # [], audit_log = audit_log (sys_db demo_enqueued) @ [row_audit r']\<rparr>
    \<and> sent s1 = sent demo_enqueued \<and> sys_db s2 = sys_db s1 \<and> flying s2 = flying demo_enqueued
    \<and> sent s2 = sent demo_enqueued @ [row_request demo_hmac demo_settings r']"
  by (rule pending_review_can_be_decided) (simp_all add: demo_defs has_nul_def)

theorem approve_pending_exact_witness:
  "let r' = decided_row 5 ''approved'' ''ann'' (decision_value (reason_value '' ok '') ''approved'') demo_row
   in reviews_approve demo_hmac (\<lambda>_. HTTPError) [] Healthy 5 (Some demo_settings) demo_settings ''reviewer'' ''pw'' ''r1'' '' ok ''
        \<lparr>queue = [demo_row], audit_log = []\<rparr> =
      (Inr (Redirect ''/reviews/r1?notice=approved_receiver_failed'' 303),
       \<lparr>queue = [r'], audit_log = [row_audit r']\<rparr>, [row_request demo_hmac demo_settings r'])"
  using approve_pending_exact [of "\<lparr>queue = [demo_row], audit_log = []\<rparr>" "[]" demo_row "[]" "''r1''" demo_settings "'' ok ''"
      5 demo_hmac "\<lambda>_. HTTPError" "[]"]
  by (simp add: demo_settings_def demo_row_def eval_simps char_simps Let_def)

theorem signature_binds_decision_witness:
  "signatures_match
     (sign_body demo_hmac (TextSecret ''key'') (encode_body (decision_body ''r1'' ''approved'' ''ann'' None None None None None)))
     (sign_body demo_hmac (TextSecret ''key'') (encode_body (decision_body ''r1'' ''rejected'' ''ann'' None None None None None)))
   = Inr False"
  using signature_binds_decision [of demo_hmac "TextSecret ''key''" "''r1''" "''approved''" "''ann''" None None None None None
      "''r1''" "''rejected''" "''ann''" None None None None None, OF demo_hmac_ascii demo_hmac_inject]
  by simp

end
