(* ===== verification/Mock_Llm.thy ===== *)
theory Mock_Llm
  imports Py_Json
begin

text \<open>
  \<open>mock_llm/main.py\<close>: the OpenAI-compatible mock model.  SHA-256 in hexadecimal is the argument \<open>hexdigest\<close>, the
  clock is \<open>now\<close>.  A fixtures directory is the list of its entries, a file being represented by what
  \<open>json.loads\<close> of its text gives.  Floats are kept by their \<open>repr\<close>.  \<open>chat_completions\<close> is a coroutine: in mode \<open>timeout\<close> other requests run while it
  sleeps, so it takes the state before and after the sleep.
\<close>

section \<open>Settings\<close>

datatype number = Finite rat | Infinite | NotANumber

text \<open>\<open>float(text)\<close> with its special values; the exact value stands for the nearest double.\<close>

definition parse_float :: "string \<Rightarrow> (bool \<times> number) option" where
  "parse_float s =
     (let (neg, body) = sign_and_body (py_lower s)
      in if body \<in> {''inf'', ''infinity''} then Some (neg, Infinite)
         else if body = ''nan'' then Some (neg, NotANumber)
         else map_option (\<lambda>q. (q < 0, Finite q)) (float_of_string s))"

definition env_raw :: "(string \<rightharpoonup> string) \<Rightarrow> string \<Rightarrow> string" where
  "env_raw env name = py_strip (or_empty (env name))"

definition env_float :: "(string \<rightharpoonup> string) \<Rightarrow> string \<Rightarrow> number \<Rightarrow> number res" where
  "env_float env name dflt =
     (let raw = env_raw env name
      in if raw = [] then Inr dflt
         else case parse_float raw of
                None \<Rightarrow> Inl (RuntimeError (name @ '' must be a number, got '' @ repr_str raw))
              | Some (neg, v) \<Rightarrow>
                  if neg \<and> v \<noteq> NotANumber then Inl (RuntimeError (name @ '' must be >= 0'')) else Inr v)"

definition env_int :: "(string \<rightharpoonup> string) \<Rightarrow> string \<Rightarrow> int \<Rightarrow> int res" where
  "env_int env name dflt =
     (let raw = env_raw env name
      in if raw = [] then Inr dflt
         else case py_int raw of
                Inl _ \<Rightarrow> Inl (RuntimeError (name @ '' must be an integer, got '' @ repr_str raw))
              | Inr v \<Rightarrow> if v < 0 then Inl (RuntimeError (name @ '' must be >= 0'')) else Inr v)"

definition env_path :: "(string \<rightharpoonup> string) \<Rightarrow> string \<Rightarrow> string option" where
  "env_path env name = (let raw = env_raw env name in if raw = [] then None else Some raw)"

datatype admin_mode = Mode_invalid_json | Mode_timeout | Mode_429 | Mode_500 | Mode_normal

record service_state =
  mode :: admin_mode
  timeout_seconds :: number
  retry_after_s :: int
  fixtures_dir :: "string option"

definition initial_state :: service_state where
  "initial_state = \<lparr>mode = Mode_normal, timeout_seconds = Finite 60, retry_after_s = 2, fixtures_dir = None\<rparr>"

text \<open>The fields are assigned one after the other; a bad setting leaves the later ones as they were.\<close>

definition reset_app_state :: "(string \<rightharpoonup> string) \<Rightarrow> service_state \<Rightarrow> unit res \<times> service_state" where
  "reset_app_state env st =
     (let st1 = st\<lparr>mode := Mode_normal\<rparr>
      in case env_float env ''MOCK_LLM_TIMEOUT_SECONDS'' (Finite 60) of
           Inl e \<Rightarrow> (Inl e, st1)
         | Inr t \<Rightarrow>
             (let st2 = st1\<lparr>timeout_seconds := t\<rparr>
              in case env_int env ''MOCK_LLM_RETRY_AFTER_S'' 2 of
                   Inl e \<Rightarrow> (Inl e, st2)
                 | Inr n \<Rightarrow> (Inr (), st2\<lparr>retry_after_s := n, fixtures_dir := env_path env ''MOCK_LLM_FIXTURES_DIR''\<rparr>)))"

section \<open>Hash and tokens\<close>

definition normalized_message :: "pydict \<Rightarrow> pyval" where
  "normalized_message message =
     PDict [(''content'', dget message ''content''), (''role'', dget message ''role'')]"

definition request_hash :: "(bytes \<Rightarrow> string) \<Rightarrow> string \<Rightarrow> pydict list \<Rightarrow> string" where
  "request_hash hexdigest model messages =
     hexdigest (utf8 (json_dumps_raw '','' '':'' True
       (PDict [(''messages'', PList (map normalized_message messages)), (''model'', PStr model)])))"

definition count_tokens :: "string \<Rightarrow> nat" where
  "count_tokens s = (if s = [] then 0 else max 1 ((length s + 3) div 4))"

section \<open>Values from a schema\<close>

definition ok_value :: pyval where
  "ok_value = PDict [(''ok'', PBool True)]"

text \<open>\<open>const\<close>, the first of \<open>enum\<close>, or \<open>default\<close>.\<close>

definition enum_first :: "pydict \<Rightarrow> pyval option" where
  "enum_first schema = (case dget schema ''enum'' of PList (v # vs) \<Rightarrow> Some v | _ \<Rightarrow> None)"

definition fixed_value :: "pydict \<Rightarrow> pyval option" where
  "fixed_value schema =
     (case map_of schema ''const'' of
        Some v \<Rightarrow> Some v
      | None \<Rightarrow> (case enum_first schema of Some v \<Rightarrow> Some v | None \<Rightarrow> map_of schema ''default''))"

text \<open>The type: a string, or the first entry of a list that is not \<open>"null"\<close>.\<close>

definition type_name :: "pydict \<Rightarrow> pyval" where
  "type_name schema =
     (case dget schema ''type'' of
        PList xs \<Rightarrow>
          (let found = (case find (\<lambda>x. x \<noteq> PStr ''null'') xs of None \<Rightarrow> PNone | Some x \<Rightarrow> x)
           in if found = PNone \<and> xs \<noteq> [] then PStr (py_str (hd xs)) else found)
      | PStr s \<Rightarrow> PStr s
      | _ \<Rightarrow> PNone)"

definition object_props :: "pydict \<Rightarrow> pydict" where
  "object_props schema = (case dget schema ''properties'' of PDict d \<Rightarrow> d | _ \<Rightarrow> [])"

fun strings_of :: "pyval list \<Rightarrow> string list" where
  "strings_of [] = []"
| "strings_of (PStr s # vs) = s # strings_of vs"
| "strings_of (v # vs) = strings_of vs"

definition object_keys :: "pydict \<Rightarrow> string list" where
  "object_keys schema =
     (case dget schema ''required'' of
        PList (v # vs) \<Rightarrow> strings_of (v # vs)
      | _ \<Rightarrow> map fst (object_props schema))"

definition child_schema :: "pydict \<Rightarrow> string \<Rightarrow> pydict" where
  "child_schema props key = (case dget props key of PDict c \<Rightarrow> c | _ \<Rightarrow> [])"

fun is_number :: "pyval \<Rightarrow> bool" where
  "is_number (PInt _) \<longleftrightarrow> True"
| "is_number (PBool _) \<longleftrightarrow> True"
| "is_number (PFloat _) \<longleftrightarrow> True"
| "is_number _ \<longleftrightarrow> False"

definition int_of_number :: "pyval \<Rightarrow> int res" where
  "int_of_number v = (if v = PFloat ''nan'' then Inl ValueError else if is_number v then py_int_of v else Inr 0)"

text \<open>
  \<open>float(n)\<close> of an integer rounds to 53 significant bits, ties to even, and overflows from 2^1024 - 2^970 on; the
  \<open>repr\<close> of a float is the shortest decimal text that rounds to it (at most 17 digits), in scientific notation
  from 10^16 on.
\<close>

definition half_even :: "nat \<Rightarrow> nat \<Rightarrow> nat" where
  "half_even n d = (let q = n div d; r = n mod d in if 2 * r > d \<or> 2 * r = d \<and> odd q then q + 1 else q)"

fun bit_count :: "nat \<Rightarrow> nat" where
  "bit_count n = (if n = 0 then 0 else Suc (bit_count (n div 2)))"

definition round_53 :: "nat \<Rightarrow> nat" where
  "round_53 n = (let unit = 2 ^ (bit_count n - 53) in half_even n unit * unit)"

definition shortest :: "nat \<Rightarrow> nat" where
  "shortest m =
     (let candidates = map (\<lambda>p. let unit = 10 ^ (length (str_nat m) - p) in half_even m unit * unit) [1..<18]
      in case find (\<lambda>c. round_53 c = m) candidates of Some c \<Rightarrow> c | None \<Rightarrow> m)"

definition scientific :: "nat \<Rightarrow> string" where
  "scientific n =
     (let ds = str_nat n; ex = str_nat (length ds - 1); frac = rev (dropWhile (\<lambda>c. c = CHR ''0'') (rev (tl ds)))
      in hd ds # (if frac = [] then [] else CHR ''.'' # frac) @ ''e+'' @ (if length ex < 2 then CHR ''0'' # ex else ex))"

definition float_text_of_int :: "int \<Rightarrow> string res" where
  "float_text_of_int i =
     (let n = nat \<bar>i\<bar>; m = round_53 n; sign = (if i < 0 then ''-'' else [])
      in if n \<le> 2 ^ 53 then Inr (str_int i @ ''.0'')
         else if 2 ^ 1024 \<le> m then Inl OverflowError
         else Inr (sign @ (if m < 10 ^ 16 then str_nat m @ ''.0'' else scientific (shortest m))))"

fun float_of_number :: "pyval \<Rightarrow> pyval res" where
  "float_of_number (PFloat t) = Inr (PFloat t)"
| "float_of_number (PInt i) = rbind (float_text_of_int i) (\<lambda>t. Inr (PFloat t))"
| "float_of_number (PBool b) = Inr (PFloat (if b then ''1.0'' else ''0.0''))"
| "float_of_number _ = Inr (PFloat ''0.0'')"

definition min_items :: "pydict \<Rightarrow> int res" where
  "min_items schema = int_of_number (py_or (dget schema ''minItems'') (PInt 0))"

definition array_items :: "pydict \<Rightarrow> pydict option" where
  "array_items schema = (case dget schema ''items'' of PDict d \<Rightarrow> Some d | _ \<Rightarrow> None)"

text \<open>The types without children.\<close>

definition leaf_value :: "pydict \<Rightarrow> pyval res option" where
  "leaf_value schema =
     (if type_name schema = PStr ''string'' then Some (Inr (PStr ''default''))
      else if type_name schema = PStr ''integer''
      then Some (rbind (int_of_number (dget schema ''minimum'')) (\<lambda>i. Inr (PInt i)))
      else if type_name schema = PStr ''number'' then Some (float_of_number (dget schema ''minimum''))
      else if type_name schema = PStr ''boolean'' then Some (Inr (PBool False))
      else if type_name schema = PStr ''null'' then Some (Inr PNone)
      else None)"

definition first_option :: "pydict \<Rightarrow> string \<Rightarrow> pydict option" where
  "first_option schema union_key = (case dget schema union_key of PList (PDict c # vs) \<Rightarrow> Some c | _ \<Rightarrow> None)"

definition union_first :: "pydict \<Rightarrow> pydict option" where
  "union_first schema =
     (case first_option schema ''anyOf'' of Some c \<Rightarrow> Some c | None \<Rightarrow> first_option schema ''oneOf'')"

declare bit_count.simps [simp del]

lemma size_entry: "(k, v) \<in> set d \<Longrightarrow> size v < size (PDict d)"
  by (induction d) auto

lemma size_item: "v \<in> set xs \<Longrightarrow> size v < size (PList xs)"
  by (induction xs) auto

lemma size_dget: "dget d k = v \<Longrightarrow> v \<noteq> PNone \<Longrightarrow> size v < size (PDict d)"
  by (auto simp: dget_def simp del: pyval.size split: option.splits dest!: map_of_SomeD size_entry)

function default_from_schema :: "pydict \<Rightarrow> pyval res" where
  "default_from_schema schema =
     (if schema = [] then Inr ok_value
      else case fixed_value schema of
        Some v \<Rightarrow> Inr v
      | None \<Rightarrow>
        if type_name schema = PStr ''object'' \<or> map_of schema ''properties'' \<noteq> None
        then rbind (rmap (\<lambda>key. rbind (default_from_schema (child_schema (object_props schema) key)) (\<lambda>v. Inr (key, v)))
                      (object_keys schema))
               (\<lambda>entries. Inr (if entries = [] then ok_value else PDict (dict_of entries)))
        else if type_name schema = PStr ''array''
        then rbind (min_items schema) (\<lambda>n.
               case array_items schema of
                 Some items \<Rightarrow>
                   if 0 < n then rbind (default_from_schema items) (\<lambda>v. Inr (PList (replicate (nat n) v)))
                   else Inr (PList [])
               | None \<Rightarrow> Inr (PList []))
        else case leaf_value schema of
               Some r \<Rightarrow> r
             | None \<Rightarrow>
                 (case union_first schema of Some c \<Rightarrow> default_from_schema c | None \<Rightarrow> Inr ok_value))"
  by pat_completeness auto

lemma size_child: "schema \<noteq> [] \<Longrightarrow> size (PDict (child_schema (object_props schema) key)) < size (PDict schema)"
proof -
  assume nonempty: "schema \<noteq> []"
  have "size (PDict (child_schema props key)) \<le> max (size (PDict [])) (size (PDict props))" for props
    using size_dget [of props key] by (fastforce simp: child_schema_def split: pyval.splits)
  moreover have "size (PDict (object_props schema)) < size (PDict schema)"
    using size_dget [of schema "''properties''"] nonempty
    by (cases schema) (fastforce simp: object_props_def split: pyval.splits)+
  moreover have "size (PDict []) < size (PDict schema)" using nonempty by (cases schema) auto
  ultimately show ?thesis by (metis (no_types) max_less_iff_conj order.strict_trans1)
qed

lemma size_items: "array_items schema = Some c \<Longrightarrow> size (PDict c) < size (PDict schema)"
  using size_dget [of schema "''items''"] by (fastforce simp: array_items_def split: pyval.splits)

lemma size_union: "union_first schema = Some c \<Longrightarrow> size (PDict c) < size (PDict schema)"
proof -
  have "size (PDict c) < size (PDict schema)" if "first_option schema k = Some c" for k
    using that size_dget [of schema k] size_item [of "PDict c"]
    by (fastforce simp: first_option_def split: pyval.splits list.splits)
  then show "union_first schema = Some c \<Longrightarrow> ?thesis" by (auto simp: union_first_def split: option.splits)
qed

termination default_from_schema
  by (relation "measure (\<lambda>d. size (PDict d))") (simp_all add: size_child size_items size_union del: pyval.size)

declare default_from_schema.simps [simp del]

section \<open>Fixtures\<close>

definition unwrap_fixture :: "pyval \<Rightarrow> pyval" where
  "unwrap_fixture data =
     (case data of
        PDict d \<Rightarrow>
          (case map_of d ''content'' of
             Some v \<Rightarrow> v
           | None \<Rightarrow> (case map_of d ''response'' of Some v \<Rightarrow> v | None \<Rightarrow> data))
      | _ \<Rightarrow> data)"

datatype dir_entry = JsonFile "pyval res" | SubDir

fun read_json :: "dir_entry \<Rightarrow> pyval res" where
  "read_json (JsonFile r) = r"
| "read_json SubDir = Inl OSError"

fun dicts_of :: "pyval list \<Rightarrow> pydict list" where
  "dicts_of [] = []"
| "dicts_of (PDict d # vs) = d # dicts_of vs"
| "dicts_of (v # vs) = dicts_of vs"

text \<open>Whether a fixture names the request, by its hash or by the request itself.\<close>

definition fixture_matches :: "(bytes \<Rightarrow> string) \<Rightarrow> string \<Rightarrow> pydict \<Rightarrow> bool" where
  "fixture_matches hexdigest digest loaded \<longleftrightarrow>
     dget loaded ''hash'' = PStr digest
     \<or> (case (dget loaded ''model'', dget loaded ''messages'') of
          (PStr model, PList messages) \<Rightarrow> request_hash hexdigest model (dicts_of messages) = digest
        | _ \<Rightarrow> False)"

fun scan_fixtures :: "(bytes \<Rightarrow> string) \<Rightarrow> string \<Rightarrow> (string \<times> dir_entry) list \<Rightarrow> pyval res" where
  "scan_fixtures hexdigest digest [] = Inr PNone"
| "scan_fixtures hexdigest digest ((name, entry) # entries) =
     rbind (read_json entry) (\<lambda>loaded.
       case loaded of
         PDict d \<Rightarrow>
           if fixture_matches hexdigest digest d then Inr (unwrap_fixture loaded)
           else scan_fixtures hexdigest digest entries
       | _ \<Rightarrow> scan_fixtures hexdigest digest entries)"

text \<open>\<open>dirs\<close> gives the entries of a path that is a directory.  A missing fixture is \<open>None\<close>.\<close>

definition lookup_fixture ::
    "(bytes \<Rightarrow> string) \<Rightarrow> (string \<rightharpoonup> (string \<times> dir_entry) list) \<Rightarrow> string \<Rightarrow> string option \<Rightarrow> pyval res" where
  "lookup_fixture hexdigest dirs digest dir =
     (case Option.bind dir dirs of
        None \<Rightarrow> Inr PNone
      | Some entries \<Rightarrow>
          (case map_of entries (digest @ ''.json'') of
             Some (JsonFile r) \<Rightarrow> rbind r (\<lambda>loaded. Inr (unwrap_fixture loaded))
           | _ \<Rightarrow>
               scan_fixtures hexdigest digest (sort_key fst (filter (\<lambda>(name, _). suffix ''.json'' name) entries))))"

section \<open>Messages and responses\<close>

fun text_part :: "pyval \<Rightarrow> string list" where
  "text_part (PDict d) = (case dget d ''text'' of PStr s \<Rightarrow> [s] | _ \<Rightarrow> [])"
| "text_part _ = []"

fun message_text :: "pyval \<Rightarrow> string" where
  "message_text (PStr s) = s"
| "message_text (PList items) = join '' '' (concat (map text_part items))"
| "message_text _ = []"

definition assistant_content :: "pyval \<Rightarrow> string" where
  "assistant_content payload = (case payload of PStr s \<Rightarrow> s | _ \<Rightarrow> json_dumps_raw '','' '':'' True payload)"

record chat_message =
  role :: string
  content :: pyval

record json_schema_spec =
  spec_name :: string
  spec_schema :: pydict
  strict :: "bool option"

datatype format_type = Format_json_schema | Format_json_object | Format_text

record response_format =
  format_type :: format_type
  json_schema :: "json_schema_spec option"

record chat_request =
  model :: string
  messages :: "chat_message list"
  response_format :: "response_format option"

text \<open>\<open>fmt.json_schema.schema_\<close> if both are given, whatever the type says; \<open>None\<close> and an empty schema are treated alike.\<close>

definition response_schema :: "chat_request \<Rightarrow> pydict option" where
  "response_schema body =
     (case response_format body of
        None \<Rightarrow> None
      | Some fmt \<Rightarrow> map_option spec_schema (json_schema fmt))"

record admin_mode_request =
  requested_mode :: admin_mode

record json_response =
  status_code :: int
  resp_content :: pyval
  resp_headers :: "(string \<times> string) list"

definition mock_health :: pyval where
  "mock_health = PDict [(''status'', PStr ''ok'')]"

fun mode_text :: "admin_mode \<Rightarrow> string" where
  "mode_text Mode_invalid_json = ''invalid_json''"
| "mode_text Mode_timeout = ''timeout''"
| "mode_text Mode_429 = ''429''"
| "mode_text Mode_500 = ''500''"
| "mode_text Mode_normal = ''normal''"

text \<open>The line that \<open>_log\<close> hands to the logger.\<close>

definition mock_log :: "string \<Rightarrow> pydict \<Rightarrow> string" where
  "mock_log event kwargs = json_dumps '','' '':'' False (PDict ((''event'', PStr event) # kwargs))"

text \<open>The response, the state and the line logged.\<close>

definition set_mode :: "admin_mode_request \<Rightarrow> service_state \<Rightarrow> pyval \<times> service_state \<times> string" where
  "set_mode body st =
     (let st' = st\<lparr>mode := requested_mode body\<rparr>; shown = PStr (mode_text (mode st'))
      in (PDict [(''mode'', shown)], st', mock_log ''admin.mode'' [(''mode'', shown)]))"

definition openai_error :: "service_state \<Rightarrow> int \<Rightarrow> string \<Rightarrow> string \<Rightarrow> string \<Rightarrow> json_response" where
  "openai_error st status message error_type code' =
     \<lparr>status_code = status,
      resp_content = PDict [(''error'', PDict [(''message'', PStr message), (''type'', PStr error_type), (''param'', PNone),
                                              (''code'', PStr code')])],
      resp_headers = (if status = 429 then [(''Retry-After'', str_int (retry_after_s st))] else [])\<rparr>"

definition completion_response :: "int \<Rightarrow> string \<Rightarrow> string \<Rightarrow> string \<Rightarrow> string \<Rightarrow> json_response" where
  "completion_response now mdl digest txt prompt_text =
     (let prompt_tokens = int (count_tokens prompt_text); completion_tokens = int (count_tokens txt)
      in \<lparr>status_code = 200,
          resp_content = PDict
            [(''id'', PStr (''chatcmpl-'' @ take 24 digest)), (''object'', PStr ''chat.completion''), (''created'', PInt now),
             (''model'', PStr mdl),
             (''choices'', PList [PDict [(''index'', PInt 0),
                (''message'', PDict [(''role'', PStr ''assistant''), (''content'', PStr txt)]),
                (''finish_reason'', PStr ''stop'')]]),
             (''usage'', PDict [(''prompt_tokens'', PInt prompt_tokens), (''completion_tokens'', PInt completion_tokens),
                (''total_tokens'', PInt (prompt_tokens + completion_tokens))])],
          resp_headers = []\<rparr>)"

definition model_dump :: "chat_message \<Rightarrow> pydict" where
  "model_dump m = [(''role'', PStr (role m)), (''content'', content m)]"

definition chat_log :: "(bytes \<Rightarrow> string) \<Rightarrow> service_state \<Rightarrow> chat_request \<Rightarrow> string" where
  "chat_log hexdigest st body =
     mock_log ''chat.completions''
       [(''hash'', PStr (request_hash hexdigest (model body) (map model_dump (messages body)))),
        (''model'', PStr (model body)), (''mode'', PStr (mode_text (mode st)))]"

text \<open>
  The handler logs the line above, and returns how long it slept and its response; \<open>later\<close> is the state when a sleeping handler goes on.
\<close>

definition chat_completions ::
    "(bytes \<Rightarrow> string) \<Rightarrow> (string \<rightharpoonup> (string \<times> dir_entry) list) \<Rightarrow> int \<Rightarrow> service_state \<Rightarrow> service_state \<Rightarrow> chat_request
     \<Rightarrow> number option \<times> json_response res" where
  "chat_completions hexdigest dirs now st later body =
     (let digest = request_hash hexdigest (model body) (map model_dump (messages body));
          prompt_text = join '' '' (map (\<lambda>m. message_text (content m)) (messages body))
      in if mode st = Mode_500 then (None, Inr (openai_error st 500 ''Internal server error'' ''server_error'' ''internal_error''))
         else if mode st = Mode_429
         then (None, Inr (openai_error st 429 ''Rate limit exceeded'' ''rate_limit_error'' ''rate_limit_exceeded''))
         else
           let (slept, st') = (if mode st = Mode_timeout then (Some (timeout_seconds st), later) else (None, st))
           in (slept,
               if mode st' = Mode_invalid_json
               then Inr (completion_response now (model body) digest (''not-json'' @ [CHR 0x7B]) prompt_text)
               else rbind (lookup_fixture hexdigest dirs digest (fixtures_dir st')) (\<lambda>fixture.
                      rbind (if fixture \<noteq> PNone then Inr fixture
                             else default_from_schema (case response_schema body of None \<Rightarrow> [] | Some d \<Rightarrow> d))
                        (\<lambda>payload.
                           Inr (completion_response now (model body) digest (assistant_content payload) prompt_text)))))"

lemmas mock_llm_defs [eval_simps] =
  parse_float_def env_raw_def env_float_def env_int_def env_path_def initial_state_def reset_app_state_def
  normalized_message_def request_hash_def count_tokens_def ok_value_def enum_first_def fixed_value_def type_name_def
  object_props_def object_keys_def child_schema_def half_even_def bit_count.simps round_53_def shortest_def scientific_def
  float_text_of_int_def int_of_number_def min_items_def array_items_def leaf_value_def
  first_option_def union_first_def unwrap_fixture_def fixture_matches_def lookup_fixture_def
  assistant_content_def response_schema_def mock_log_def chat_log_def mock_health_def set_mode_def openai_error_def completion_response_def model_dump_def
  chat_completions_def

end
