(* ===== verification/Mock_Schema.thy ===== *)
theory Mock_Schema
  imports Mock_Llm
begin

text \<open>
  What the mock model promises.  \<open>satisfies\<close> is validity of a value for the JSON Schema keywords \<open>type\<close>, \<open>enum\<close>,
  \<open>properties\<close>, \<open>required\<close>, \<open>additionalProperties\<close>, \<open>items\<close>, \<open>minItems\<close>, \<open>minimum\<close> and \<open>anyOf\<close>;
  \<open>plain\<close> is the class of schemas written with them for which \<open>default_from_schema\<close> keeps its promise of a
  value that satisfies the schema.
\<close>

section \<open>JSON Schema\<close>

definition has_type :: "string \<Rightarrow> pyval \<Rightarrow> bool" where
  "has_type t v \<longleftrightarrow>
     (case v of
        PNone \<Rightarrow> t = ''null''
      | PBool _ \<Rightarrow> t = ''boolean''
      | PInt _ \<Rightarrow> t = ''integer'' \<or> t = ''number''
      | PFloat _ \<Rightarrow> t = ''number''
      | PStr _ \<Rightarrow> t = ''string''
      | PList _ \<Rightarrow> t = ''array''
      | PDict _ \<Rightarrow> t = ''object'')"

definition type_ok :: "pydict \<Rightarrow> pyval \<Rightarrow> bool" where
  "type_ok schema v \<longleftrightarrow>
     (case dget schema ''type'' of
        PStr t \<Rightarrow> has_type t v
      | PList ts \<Rightarrow> list_ex (\<lambda>t. has_type t v) (strings_of ts)
      | _ \<Rightarrow> True)"

definition enum_ok :: "pydict \<Rightarrow> pyval \<Rightarrow> bool" where
  "enum_ok schema v \<longleftrightarrow> (case dget schema ''enum'' of PList vs \<Rightarrow> v \<in> set vs | _ \<Rightarrow> True)"

definition required_keys :: "pydict \<Rightarrow> string list" where
  "required_keys schema = (case dget schema ''required'' of PList vs \<Rightarrow> strings_of vs | _ \<Rightarrow> [])"

text \<open>A numeric value; the comparison is exact.\<close>

definition num_val :: "pyval \<Rightarrow> rat option" where
  "num_val v = (case v of PInt i \<Rightarrow> Some (of_int i) | PFloat t \<Rightarrow> float_val t | _ \<Rightarrow> None)"

definition minimum_ok :: "pydict \<Rightarrow> pyval \<Rightarrow> bool" where
  "minimum_ok schema v \<longleftrightarrow>
     (case (num_val (dget schema ''minimum''), num_val v) of (Some lo, Some x) \<Rightarrow> lo \<le> x | _ \<Rightarrow> True)"

definition min_items_ok :: "pydict \<Rightarrow> pyval list \<Rightarrow> bool" where
  "min_items_ok schema xs \<longleftrightarrow> (case dget schema ''minItems'' of PInt n \<Rightarrow> n \<le> int (length xs) | _ \<Rightarrow> True)"

definition as_schema :: "pyval \<Rightarrow> pydict" where
  "as_schema v = (case v of PDict c \<Rightarrow> c | _ \<Rightarrow> [])"

definition any_of :: "pydict \<Rightarrow> pyval list" where
  "any_of schema = (case dget schema ''anyOf'' of PList vs \<Rightarrow> vs | _ \<Rightarrow> [])"

definition entries_of :: "pyval \<Rightarrow> pydict" where
  "entries_of v = (case v of PDict d \<Rightarrow> d | _ \<Rightarrow> [])"

definition elements_of :: "pyval \<Rightarrow> pyval list" where
  "elements_of v = (case v of PList xs \<Rightarrow> xs | _ \<Rightarrow> [])"

definition object_ok :: "pydict \<Rightarrow> pyval \<Rightarrow> bool" where
  "object_ok schema v \<longleftrightarrow>
     (case v of
        PDict d \<Rightarrow>
          set (required_keys schema) \<subseteq> fst ` set d
          \<and> (dget schema ''additionalProperties'' = PBool False \<longrightarrow> fst ` set d \<subseteq> fst ` set (object_props schema))
      | _ \<Rightarrow> True)"

definition array_ok :: "pydict \<Rightarrow> pyval \<Rightarrow> bool" where
  "array_ok schema v \<longleftrightarrow> (case v of PList xs \<Rightarrow> min_items_ok schema xs | _ \<Rightarrow> True)"

function satisfies :: "pydict \<Rightarrow> pyval \<Rightarrow> bool" where
  "satisfies schema v \<longleftrightarrow>
     (if schema = [] then True
      else type_ok schema v \<and> enum_ok schema v \<and> minimum_ok schema v \<and> object_ok schema v \<and> array_ok schema v
       \<and> list_all (\<lambda>(k, w). satisfies (child_schema (object_props schema) k) w) (entries_of v)
       \<and> list_all (\<lambda>w. satisfies (case array_items schema of None \<Rightarrow> [] | Some c \<Rightarrow> c) w) (elements_of v)
       \<and> (any_of schema = [] \<or> list_ex (\<lambda>c. satisfies (as_schema c) v) (any_of schema)))"
  by pat_completeness auto

lemma size_any_of: "c \<in> set (any_of schema) \<Longrightarrow> size (PDict (as_schema c)) < size (PDict schema)"
proof -
  assume c: "c \<in> set (any_of schema)"
  then obtain vs where vs: "dget schema ''anyOf'' = PList vs" "c \<in> set vs"
    by (cases "dget schema ''anyOf''") (auto simp: any_of_def)
  have "size (PDict (as_schema c)) \<le> Suc (size c)" "c \<in> set vs \<Longrightarrow> Suc (size c) \<le> size (PList vs)"
    using size_item [of c vs] by (auto simp: as_schema_def Suc_le_eq simp del: pyval.size(6) split: pyval.splits)
  then show ?thesis using size_dget [OF vs(1)] vs(2) by simp
qed

lemma size_array_items:
  "schema \<noteq> [] \<Longrightarrow> size (PDict (case array_items schema of None \<Rightarrow> [] | Some c \<Rightarrow> c)) < size (PDict schema)"
  by (cases schema; cases "array_items schema") (auto dest: size_items)

termination satisfies
  by (relation "measure (\<lambda>(d, v). size (PDict d))")
    (auto simp: size_child size_any_of size_array_items simp del: pyval.size)

declare satisfies.simps [simp del]

section \<open>Plain schemas\<close>

definition ANNOTATIONS :: "string list" where
  "ANNOTATIONS = [''title'', ''description'', ''$schema'']"

definition keys_in :: "pydict \<Rightarrow> string list \<Rightarrow> bool" where
  "keys_in schema ks \<longleftrightarrow> fst ` set schema \<subseteq> set ks \<union> set ANNOTATIONS"

text \<open>The type the schema declares, a list of types included (\<open>["string", "null"]\<close>).\<close>

definition declared_type :: "pydict \<Rightarrow> string \<Rightarrow> bool" where
  "declared_type schema t \<longleftrightarrow>
     type_name schema = PStr t
     \<and> (case dget schema ''type'' of PList ts \<Rightarrow> t \<in> set (strings_of ts) | PStr t' \<Rightarrow> t' = t | _ \<Rightarrow> False)"

text \<open>A bound that the type can hold; for a float an integer bound of at most 2^53, since larger ones are rounded.\<close>

definition minimum_fits :: "pydict \<Rightarrow> string \<Rightarrow> bool" where
  "minimum_fits schema t \<longleftrightarrow>
     (case dget schema ''minimum'' of
        PNone \<Rightarrow> True
      | PInt i \<Rightarrow> t = ''integer'' \<or> t = ''number'' \<and> \<bar>i\<bar> \<le> 2 ^ 53
      | PFloat f \<Rightarrow> t = ''number''
      | _ \<Rightarrow> False)"

inductive plain :: "pydict \<Rightarrow> bool" where
  enum: "keys_in schema [''enum'', ''type''] \<Longrightarrow> dget schema ''enum'' = PList (v # vs) \<Longrightarrow> type_ok schema v \<Longrightarrow> plain schema"
| leaf: "keys_in schema [''type'', ''minimum''] \<Longrightarrow> declared_type schema t
    \<Longrightarrow> t \<in> {''string'', ''integer'', ''number'', ''boolean'', ''null''} \<Longrightarrow> minimum_fits schema t \<Longrightarrow> plain schema"
| array: "keys_in schema [''type'', ''items'', ''minItems''] \<Longrightarrow> declared_type schema ''array''
    \<Longrightarrow> dget schema ''minItems'' \<in> {PNone, PInt n} \<Longrightarrow> dget schema ''items'' = PDict c \<Longrightarrow> plain c \<Longrightarrow> plain schema"
| object: "keys_in schema [''type'', ''properties'', ''required'', ''additionalProperties'']
    \<Longrightarrow> declared_type schema ''object'' \<Longrightarrow> dget schema ''properties'' = PDict props \<Longrightarrow> props \<noteq> []
    \<Longrightarrow> dget schema ''required'' \<in> {PNone, PList (map PStr ks)} \<Longrightarrow> set ks \<subseteq> fst ` set props
    \<Longrightarrow> (\<forall>k \<in> fst ` set props. \<exists>c. dget props k = PDict c \<and> plain c) \<Longrightarrow> plain schema"
| union: "keys_in schema [''anyOf''] \<Longrightarrow> dget schema ''anyOf'' = PList (PDict c # vs) \<Longrightarrow> plain c \<Longrightarrow> plain schema"

section \<open>Lemmas\<close>

lemma keys_in_None: "keys_in schema ks \<Longrightarrow> k \<notin> set ks \<Longrightarrow> k \<notin> set ANNOTATIONS \<Longrightarrow> map_of schema k = None"
  unfolding keys_in_def map_of_eq_None_iff by blast

lemma keys_in_dget: "keys_in schema ks \<Longrightarrow> k \<notin> set ks \<Longrightarrow> k \<notin> set ANNOTATIONS \<Longrightarrow> dget schema k = PNone"
  using keys_in_None by (simp add: dget_def)

lemmas absent = keys_in_None keys_in_dget

lemma dget_not_Nil: "dget d k \<noteq> PNone \<Longrightarrow> d \<noteq> []"
  by auto

lemma fixed_value_None:
  "keys_in schema ks \<Longrightarrow> set ks \<inter> {''const'', ''enum'', ''default''} = {} \<Longrightarrow> fixed_value schema = None"
  using keys_in_None [of schema ks "''const''"] keys_in_None [of schema ks "''default''"] keys_in_dget [of schema ks "''enum''"]
  by (auto simp: fixed_value_def enum_first_def ANNOTATIONS_def)

lemma declared_type_ok: "declared_type schema t \<Longrightarrow> has_type t v \<Longrightarrow> type_ok schema v"
  by (auto simp: declared_type_def type_ok_def list_ex_iff split: pyval.splits)

lemma declared_type_not_Nil: "declared_type schema t \<Longrightarrow> schema \<noteq> []"
  by (auto simp: declared_type_def)

lemma declared_type_name: "declared_type schema t \<Longrightarrow> type_name schema = PStr t"
  by (simp add: declared_type_def)

lemma map_of_dict_of_acc:
  "map_of (foldl (\<lambda>d (k, v). dict_set d k v) d (map (\<lambda>k. (k, f k)) ks)) k =
     (if k \<in> set ks then Some (f k) else map_of d k)"
  by (induction ks arbitrary: d) (auto simp: map_of_dict_set)

lemma map_of_dict_of: "map_of (dict_of (map (\<lambda>k. (k, f k)) ks)) k = (if k \<in> set ks then Some (f k) else None)"
  by (simp add: dict_of_def map_of_dict_of_acc)

lemma in_dict_of: "(k, v) \<in> set (dict_of (map (\<lambda>k. (k, f k)) ks)) \<longleftrightarrow> k \<in> set ks \<and> v = f k"
  using map_of_eq_Some_iff [OF distinct_dict_of, of "map (\<lambda>k. (k, f k)) ks" k v]
  by (auto simp: map_of_dict_of split: if_splits)

lemma fst_dict_of: "fst ` set (dict_of (map (\<lambda>k. (k, f k)) ks)) = set ks"
  by (auto simp: in_dict_of image_iff Bex_def split_paired_Ex simp del: split_paired_All)

lemma rmap_all: "(\<And>x. x \<in> set xs \<Longrightarrow> f x = Inr (g x)) \<Longrightarrow> rmap f xs = Inr (map g xs)"
  by (induction xs) auto

lemma strings_of_PStr [simp]: "strings_of (map PStr ks) = ks"
  by (induction ks) auto

text \<open>The text of an integer as a float has that integer's value.\<close>

lemma is_decimal_plain: "is_decimal c \<Longrightarrow> c \<noteq> CHR ''_'' \<and> c \<noteq> CHR ''-'' \<and> c \<noteq> CHR ''+'' \<and> c \<noteq> CHR ''.'' \<and> \<not> is_space c"
  by (auto simp: is_decimal_def is_space_def)

lemma dec_of_nat_text: "dec_of_string (str_nat n @ ''.0'') = Some (Dec False (n * 10) (- 1))"
  and dec_of_neg_text: "dec_of_string (CHR ''-'' # str_nat n @ ''.0'') = Some (Dec True (n * 10) (- 1))"
proof -
  have digits: "c \<in> set (str_nat n) \<Longrightarrow> is_decimal c" for c using str_nat_decimal [of n] by (simp add: list_all_iff)
  have "py_strip (str_nat n @ ''.0'') = str_nat n @ ''.0''"
    "py_strip (CHR ''-'' # str_nat n @ ''.0'') = CHR ''-'' # str_nat n @ ''.0''"
    by (rule py_strip_no_space; auto simp: list_all_iff is_space_def dest!: digits is_decimal_plain)+
  moreover have "filter (\<lambda>c. c \<noteq> CHR ''_'') (str_nat n) = str_nat n"
    by (rule filter_True) (auto dest!: digits is_decimal_plain)
  moreover have "sign_and_body (str_nat n @ t) = (False, str_nat n @ t)" for t
    using digits [of "hd (str_nat n)"] is_decimal_plain by (cases "str_nat n") (auto simp: sign_and_body_def)
  moreover have "takeWhile is_decimal (str_nat n @ ''.0'') = str_nat n" "dropWhile is_decimal (str_nat n @ ''.0'') = ''.0''"
    using digits by (simp_all add: takeWhile_append2 dropWhile_append2 is_decimal_def)
  moreover have "int_of_digits (str_nat n @ ''0'') = n * 10"
    by (simp add: digit_val_def)
  ultimately show "dec_of_string (str_nat n @ ''.0'') = Some (Dec False (n * 10) (- 1))"
    "dec_of_string (CHR ''-'' # str_nat n @ ''.0'') = Some (Dec True (n * 10) (- 1))"
    by (simp_all add: dec_of_string_def Let_def is_decimal_def parse_exponent_def sign_and_body_def)
qed

lemma float_val_of_int: "float_val (str_int i @ ''.0'') = Some (of_int i)"
  by (cases "i < 0")
    (simp_all add: float_val_def str_int_def dec_of_nat_text dec_of_neg_text dec_val_def sgn_coef_def pow10_def)

lemma float_text_small: "\<bar>i\<bar> \<le> 2 ^ 53 \<Longrightarrow> float_text_of_int i = Inr (str_int i @ ''.0'')"
  by (simp add: float_text_of_int_def Let_def nat_le_iff)

section \<open>The promise of \<open>default_from_schema\<close>\<close>

text \<open>One unfolding of each function, with the keywords a schema does not have.\<close>

lemma default_enum: "schema \<noteq> [] \<Longrightarrow> fixed_value schema = Some v \<Longrightarrow> default_from_schema schema = Inr v"
  by (simp add: default_from_schema.simps)

lemma satisfiesI:
  assumes "type_ok schema v" "enum_ok schema v" "minimum_ok schema v" "object_ok schema v" "array_ok schema v"
    and "\<And>k w. (k, w) \<in> set (entries_of v) \<Longrightarrow> satisfies (child_schema (object_props schema) k) w"
    and "\<And>w c. w \<in> set (elements_of v) \<Longrightarrow> array_items schema = Some c \<Longrightarrow> satisfies c w"
    and "any_of schema = [] \<or> list_ex (\<lambda>c. satisfies (as_schema c) v) (any_of schema)"
  shows "satisfies schema v"
proof -
  have "satisfies [] w" for w by (simp add: satisfies.simps)
  then have "list_all (\<lambda>w. satisfies (case array_items schema of None \<Rightarrow> [] | Some c \<Rightarrow> c) w) (elements_of v)"
    using assms(7) by (cases "array_items schema") (auto simp: list_all_iff)
  moreover have "list_all (\<lambda>(k, w). satisfies (child_schema (object_props schema) k) w) (entries_of v)"
    using assms(6) by (auto simp: list_all_iff)
  ultimately show ?thesis using assms(1-5,8) unfolding satisfies.simps [of schema v] by simp
qed

lemma satisfies_empty [simp]: "satisfies [] v"
  by (simp add: satisfies.simps)

text \<open>A facet whose keyword is absent holds.\<close>

lemma facet_absent:
  "dget schema ''enum'' = PNone \<Longrightarrow> enum_ok schema v"
  "dget schema ''minimum'' = PNone \<Longrightarrow> minimum_ok schema v"
  "dget schema ''required'' = PNone \<Longrightarrow> dget schema ''additionalProperties'' = PNone \<Longrightarrow> object_ok schema v"
  "dget schema ''minItems'' = PNone \<Longrightarrow> array_ok schema v"
  "dget schema ''anyOf'' = PNone \<Longrightarrow> any_of schema = []"
  "dget schema ''items'' = PNone \<Longrightarrow> array_items schema = None"
  "dget schema ''properties'' = PNone \<Longrightarrow> child_schema (object_props schema) k = []"
  by (simp_all add: enum_ok_def minimum_ok_def num_val_def object_ok_def required_keys_def array_ok_def min_items_ok_def
      any_of_def array_items_def object_props_def child_schema_def split: pyval.split)

lemma no_fixed_value:
  "map_of schema ''const'' = None \<Longrightarrow> map_of schema ''default'' = None \<Longrightarrow> dget schema ''enum'' = PNone
   \<Longrightarrow> fixed_value schema = None"
  by (simp add: fixed_value_def enum_first_def)

lemma plain_enum:
  assumes "keys_in schema [''enum'', ''type'']" "dget schema ''enum'' = PList (v # vs)" "type_ok schema v"
  shows "default_from_schema schema = Inr v \<and> satisfies schema v"
proof -
  have keys: "dget schema k = PNone" "map_of schema k = None" if "k \<in> {''const'', ''minimum'', ''properties'', ''required'',
      ''additionalProperties'', ''items'', ''minItems'', ''anyOf''}" for k
    using that absent [OF assms(1), of k] by (auto simp: ANNOTATIONS_def)
  have "schema \<noteq> []" using assms(2) by auto
  moreover have "fixed_value schema = Some v" using assms(2) by (simp add: fixed_value_def enum_first_def keys)
  moreover have "satisfies schema v"
    by (rule satisfiesI) (use assms(2,3) in \<open>simp_all add: facet_absent keys enum_ok_def\<close>)
  ultimately show ?thesis by (simp add: default_enum)
qed

lemma plain_leaf:
  assumes "keys_in schema [''type'', ''minimum'']" "declared_type schema t"
    "t \<in> {''string'', ''integer'', ''number'', ''boolean'', ''null''}" "minimum_fits schema t"
  shows "\<exists>v. default_from_schema schema = Inr v \<and> satisfies schema v"
proof -
  have keys: "dget schema k = PNone" "map_of schema k = None" if "k \<in> {''const'', ''enum'', ''default'', ''properties'',
      ''required'', ''additionalProperties'', ''items'', ''minItems'', ''anyOf''}" for k
    using that absent [OF assms(1), of k] by (auto simp: ANNOTATIONS_def)
  note ty = declared_type_name [OF assms(2)]
  obtain v where leaf: "leaf_value schema = Some (Inr v)" and v: "has_type t v" "minimum_ok schema v"
    "\<And>d. v \<noteq> PDict d" "\<And>xs. v \<noteq> PList xs"
    using assms(3,4) ty
    by (cases "dget schema ''minimum''")
      (auto simp: leaf_value_def minimum_fits_def has_type_def minimum_ok_def num_val_def int_of_number_def float_val_of_int
        float_text_small
        split: option.splits)
  have "default_from_schema schema = Inr v"
    using declared_type_not_Nil [OF assms(2)] assms(3) ty leaf
    by (auto simp: default_from_schema.simps [of schema] no_fixed_value keys)
  moreover have "satisfies schema v"
    by (rule satisfiesI) (use v(2) declared_type_ok [OF assms(2) v(1)] in \<open>simp_all add: facet_absent keys\<close>)
  ultimately show ?thesis by blast
qed

lemma plain_array:
  assumes "keys_in schema [''type'', ''items'', ''minItems'']" "declared_type schema ''array''"
    "dget schema ''minItems'' \<in> {PNone, PInt n}" "dget schema ''items'' = PDict c"
    "default_from_schema c = Inr w" "satisfies c w"
  shows "\<exists>v. default_from_schema schema = Inr v \<and> satisfies schema v"
proof -
  have keys: "dget schema k = PNone" "map_of schema k = None" if "k \<in> {''const'', ''enum'', ''default'', ''properties'',
      ''required'', ''additionalProperties'', ''minimum'', ''anyOf''}" for k
    using that absent [OF assms(1), of k] by (auto simp: ANNOTATIONS_def)
  define m where "m = (if dget schema ''minItems'' = PNone then 0 else n)"
  have "min_items schema = Inr m"
    using assms(3) by (auto simp: min_items_def m_def py_or_def int_of_number_def)
  then have "default_from_schema schema = Inr (PList (replicate (nat m) w))"
    using declared_type_not_Nil [OF assms(2)] declared_type_name [OF assms(2)] assms(4,5)
    by (simp add: default_from_schema.simps [of schema] no_fixed_value keys array_items_def)
  moreover have "array_ok schema (PList (replicate (nat m) w))"
    using assms(3) by (auto simp: array_ok_def min_items_ok_def m_def)
  then have "satisfies schema (PList (replicate (nat m) w))"
    by - (rule satisfiesI,
        use assms(4,6) declared_type_ok [OF assms(2)] in
          \<open>simp_all add: facet_absent keys has_type_def array_items_def entries_of_def elements_of_def\<close>)
  ultimately show ?thesis by blast
qed

lemma plain_object:
  assumes "keys_in schema [''type'', ''properties'', ''required'', ''additionalProperties'']"
    "declared_type schema ''object''" "dget schema ''properties'' = PDict props" "props \<noteq> []"
    "dget schema ''required'' \<in> {PNone, PList (map PStr ks)}" "set ks \<subseteq> fst ` set props"
    "\<And>k. k \<in> fst ` set props \<Longrightarrow> default_from_schema (child_schema props k) = Inr (f k) \<and> satisfies (child_schema props k) (f k)"
  shows "\<exists>v. default_from_schema schema = Inr v \<and> satisfies schema v"
proof -
  have keys: "dget schema k = PNone" "map_of schema k = None" if "k \<in> {''const'', ''enum'', ''default'',
      ''items'', ''minItems'', ''minimum'', ''anyOf''}" for k
    using that absent [OF assms(1), of k] by (auto simp: ANNOTATIONS_def)
  define used where "used = object_keys schema"
  have props: "object_props schema = props" using assms(3) by (simp add: object_props_def)
  have used: "used \<noteq> []" "set used \<subseteq> fst ` set props" "set (required_keys schema) \<subseteq> set used"
    using assms(4-6) by (cases ks; auto simp: used_def object_keys_def props required_keys_def)+
  let ?v = "PDict (dict_of (map (\<lambda>k. (k, f k)) used))"
  have "rmap (\<lambda>key. rbind (default_from_schema (child_schema props key)) (\<lambda>v. Inr (key, v))) used = Inr (map (\<lambda>k. (k, f k)) used)"
    using used(2) assms(7) by (intro rmap_all) (simp add: subset_iff)
  then have "default_from_schema schema = Inr ?v"
    using declared_type_not_Nil [OF assms(2)] declared_type_name [OF assms(2)] used(1)
    by (simp add: default_from_schema.simps [of schema] no_fixed_value keys props flip: used_def)
  moreover have "object_ok schema ?v" using used by (auto simp: object_ok_def fst_dict_of props)
  then have "satisfies schema ?v"
    by - (rule satisfiesI,
        use used(2) assms(7) declared_type_ok [OF assms(2)] in
          \<open>simp_all add: facet_absent keys has_type_def entries_of_def elements_of_def in_dict_of props subset_iff\<close>)
  ultimately show ?thesis by blast
qed

lemma plain_union:
  assumes "keys_in schema [''anyOf'']" "dget schema ''anyOf'' = PList (PDict c # vs)"
    "default_from_schema c = Inr v" "satisfies c v"
  shows "default_from_schema schema = Inr v \<and> satisfies schema v"
proof -
  have keys: "dget schema k = PNone" "map_of schema k = None" if "k \<in> {''const'', ''enum'', ''default'', ''type'',
      ''properties'', ''required'', ''additionalProperties'', ''items'', ''minItems'', ''minimum''}" for k
    using that absent [OF assms(1), of k] by (auto simp: ANNOTATIONS_def)
  have "schema \<noteq> []" using assms(2) by auto
  then have "default_from_schema schema = Inr v"
    using assms(2,3)
    by (simp add: default_from_schema.simps [of schema] no_fixed_value keys type_name_def leaf_value_def
        union_first_def first_option_def)
  moreover have "satisfies schema v"
    by (rule satisfiesI)
      (use assms(2,4) in \<open>simp_all add: facet_absent keys type_ok_def any_of_def as_schema_def\<close>)
  ultimately show ?thesis by simp
qed

lemma default_satisfies_plain: "plain schema \<Longrightarrow> \<exists>v. default_from_schema schema = Inr v \<and> satisfies schema v"
proof (induction rule: plain.induct)
  case (enum schema v vs)
  then show ?case using plain_enum by blast
next
  case (leaf schema t)
  then show ?case by (rule plain_leaf)
next
  case (array schema n c)
  then show ?case using plain_array by blast
next
  case (object schema props ks)
  then have "\<forall>k \<in> fst ` set props. \<exists>v. default_from_schema (child_schema props k) = Inr v \<and> satisfies (child_schema props k) v"
    by (fastforce simp: child_schema_def)
  then obtain f where "\<And>k. k \<in> fst ` set props
      \<Longrightarrow> default_from_schema (child_schema props k) = Inr (f k) \<and> satisfies (child_schema props k) (f k)"
    by metis
  with object.hyps(1-6) show ?case by (rule plain_object)
next
  case (union schema c vs)
  then show ?case using plain_union by blast
qed

section \<open>The handler\<close>

text \<open>What a client reads: the text of the first choice of a response body.\<close>

definition reply_of :: "json_response \<Rightarrow> pyval" where
  "reply_of r =
     (case dget (entries_of (resp_content r)) ''choices'' of
        PList (choice # _) \<Rightarrow> dget (entries_of (dget (entries_of choice) ''message'')) ''content''
      | _ \<Rightarrow> PNone)"

text \<open>A string is sent as it is, any other value as its compact JSON text with sorted keys.\<close>

definition sent_text :: "pyval \<Rightarrow> string \<Rightarrow> bool" where
  "sent_text v reply \<longleftrightarrow>
     (if \<exists>s. v = PStr s then v = PStr reply else reply = json_dumps_raw '','' '':'' True v)"

lemma sent_assistant_content: "sent_text v reply \<longleftrightarrow> reply = assistant_content v"
  by (cases v) (auto simp: sent_text_def assistant_content_def)

text \<open>The body of a completion.\<close>

definition completion_body :: "int \<Rightarrow> string \<Rightarrow> string \<Rightarrow> string \<Rightarrow> int \<Rightarrow> int \<Rightarrow> pyval" where
  "completion_body now mdl digest reply p c = PDict
     [(''id'', PStr (''chatcmpl-'' @ take 24 digest)), (''object'', PStr ''chat.completion''), (''created'', PInt now),
      (''model'', PStr mdl),
      (''choices'', PList [PDict [(''index'', PInt 0),
         (''message'', PDict [(''role'', PStr ''assistant''), (''content'', PStr reply)]), (''finish_reason'', PStr ''stop'')]]),
      (''usage'', PDict [(''prompt_tokens'', PInt p), (''completion_tokens'', PInt c), (''total_tokens'', PInt (p + c))])]"

text \<open>The estimate of four characters per token, rounded up.\<close>

definition tokens_for :: "string \<Rightarrow> int \<Rightarrow> bool" where
  "tokens_for t n \<longleftrightarrow> int (length t) \<le> 4 * n \<and> 4 * n < int (length t) + 4"

lemma tokens_for_count: "tokens_for t (int (count_tokens t))"
  by (cases t) (auto simp: tokens_for_def count_tokens_def)

lemma completion_pinned:
  "completion_response now mdl digest reply prompt =
     \<lparr>status_code = 200, resp_content = completion_body now mdl digest reply (int (count_tokens prompt)) (int (count_tokens reply)),
      resp_headers = []\<rparr>"
  by (simp add: completion_response_def completion_body_def Let_def)

lemma reply_of_completion: "resp_content r = completion_body now mdl digest reply p c \<Longrightarrow> reply_of r = PStr reply"
  by (simp add: reply_of_def completion_body_def entries_of_def dget_def)

text \<open>
  C34: In mode normal (and after the sleep of mode timeout) a request with a plain schema and no fixture is answered
  with status 200, no exception being possible, and the text of the first choice of the body is that of a value
  \<open>v\<close> that satisfies the requested schema: \<open>v\<close> itself when it is a string (a schema of type string at the top),
  and its compact JSON text otherwise.  Plain schemas are those of \<open>plain\<close>; an integer \<open>minimum\<close> of a
  \<open>number\<close> is at most 2^53 in size.
\<close>

theorem structured_output_satisfies_schema:
  assumes "plain schema" "response_schema body = Some schema"
    "mode st = Mode_normal \<or> mode st = Mode_timeout \<and> mode later \<noteq> Mode_invalid_json"
    "lookup_fixture hexdigest dirs (request_hash hexdigest (model body) (map model_dump (messages body)))
       (fixtures_dir (if mode st = Mode_timeout then later else st)) = Inr PNone"
  shows "\<exists>v r reply. satisfies schema v \<and> default_from_schema schema = Inr v
    \<and> chat_completions hexdigest dirs now st later body =
        (if mode st = Mode_timeout then Some (timeout_seconds st) else None, Inr r)
    \<and> status_code r = 200 \<and> reply_of r = PStr reply
    \<and> sent_text v reply"
proof -
  obtain v where v: "default_from_schema schema = Inr v" "satisfies schema v"
    using default_satisfies_plain [OF assms(1)] by blast
  define r where "r = completion_response now (model body) (request_hash hexdigest (model body) (map model_dump (messages body)))
            (assistant_content v) (join '' '' (map (\<lambda>m. message_text (content m)) (messages body)))"
  have "chat_completions hexdigest dirs now st later body =
        (if mode st = Mode_timeout then Some (timeout_seconds st) else None, Inr r)"
    using assms(2-4) v(1) by (auto simp: chat_completions_def r_def Let_def)
  moreover have "status_code r = 200" "reply_of r = PStr (assistant_content v)"
    by (simp_all add: r_def completion_pinned reply_of_completion)
  moreover have "sent_text v (assistant_content v)" by (simp add: sent_assistant_content)
  ultimately show ?thesis using v by blast
qed

definition payload :: "pyval res \<Rightarrow> pyval res \<Rightarrow> pyval res" where
  "payload found built = rbind found (\<lambda>fixture. if fixture \<noteq> PNone then Inr fixture else built)"

lemma rbind_assoc: "rbind (rbind m f) g = rbind m (\<lambda>x. rbind (f x) g)"
  by (cases m) simp_all

text \<open>
  C35: The administrative mode decides the whole answer.  Mode 500 answers at once with that status and the server
  error, mode 429 with that status, the rate-limit error and \<open>Retry-After\<close>.  In the other modes the handler
  sleeps for the configured time exactly in mode timeout, and then (\<open>st'\<close> being the state it goes on in) answers
  200 with one choice whose text is \<open>not-json{\<close> in mode invalid_json, and otherwise the text of the fixture of the
  request, or of the value built from its schema when there is none: a string as it is, another value as its JSON
  text.  The token counts are a quarter of the lengths, rounded up, and add up.  An exception is possible only from an
  unreadable fixture or a bad number in the schema.
\<close>

theorem mode_decides_answer:
  "(mode st = Mode_500 \<longrightarrow> chat_completions hexdigest dirs now st later body =
      (None, Inr \<lparr>status_code = 500, resp_content = PDict [(''error'', PDict [(''message'', PStr ''Internal server error''),
         (''type'', PStr ''server_error''), (''param'', PNone), (''code'', PStr ''internal_error'')])], resp_headers = []\<rparr>))
    \<and> (mode st = Mode_429 \<longrightarrow> chat_completions hexdigest dirs now st later body =
      (None, Inr \<lparr>status_code = 429, resp_content = PDict [(''error'', PDict [(''message'', PStr ''Rate limit exceeded''),
         (''type'', PStr ''rate_limit_error''), (''param'', PNone), (''code'', PStr ''rate_limit_exceeded'')])],
         resp_headers = [(''Retry-After'', str_int (retry_after_s st))]\<rparr>))
    \<and> (mode st \<noteq> Mode_500 \<and> mode st \<noteq> Mode_429 \<longrightarrow>
        (let digest = request_hash hexdigest (model body) (map model_dump (messages body));
             st' = (if mode st = Mode_timeout then later else st);
             found = lookup_fixture hexdigest dirs digest (fixtures_dir st');
             built = default_from_schema (case response_schema body of None \<Rightarrow> [] | Some d \<Rightarrow> d)
         in \<exists>answer. chat_completions hexdigest dirs now st later body =
              (if mode st = Mode_timeout then Some (timeout_seconds st) else None, answer)
            \<and> (case answer of
                 Inl e \<Rightarrow> mode st' \<noteq> Mode_invalid_json \<and> (found = Inl e \<or> found = Inr PNone \<and> built = Inl e)
               | Inr r \<Rightarrow> status_code r = 200 \<and> resp_headers r = []
                   \<and> (\<exists>reply p c. resp_content r = PDict
                        [(''id'', PStr (''chatcmpl-'' @ take 24 digest)), (''object'', PStr ''chat.completion''),
                         (''created'', PInt now), (''model'', PStr (model body)),
                         (''choices'', PList [PDict [(''index'', PInt 0),
                            (''message'', PDict [(''role'', PStr ''assistant''), (''content'', PStr reply)]),
                            (''finish_reason'', PStr ''stop'')]]),
                         (''usage'', PDict [(''prompt_tokens'', PInt p), (''completion_tokens'', PInt c),
                            (''total_tokens'', PInt (p + c))])]
                      \<and> tokens_for (join '' '' (map (\<lambda>m. message_text (content m)) (messages body))) p \<and> tokens_for reply c
                      \<and> (if mode st' = Mode_invalid_json then reply = ''not-json'' @ [CHR 0x7B]
                         else \<exists>v. (found = Inr v \<and> v \<noteq> PNone \<or> found = Inr PNone \<and> built = Inr v) \<and> sent_text v reply)))))"
proof (cases "mode st = Mode_500 \<or> mode st = Mode_429")
  case True
  then show ?thesis by (auto simp: chat_completions_def openai_error_def Let_def)
next
  case False
  define st' where "st' = (if mode st = Mode_timeout then later else st)"
  define digest where "digest = request_hash hexdigest (model body) (map model_dump (messages body))"
  define found where "found = lookup_fixture hexdigest dirs digest (fixtures_dir st')"
  define built where "built = default_from_schema (case response_schema body of None \<Rightarrow> [] | Some d \<Rightarrow> d)"
  define prompt where "prompt = join '' '' (map (\<lambda>m. message_text (content m)) (messages body))"
  note names = st'_def digest_def found_def built_def prompt_def
  define answer where "answer =
    (if mode st' = Mode_invalid_json then Inr (completion_response now (model body) digest (''not-json'' @ [CHR 0x7B]) prompt)
     else rbind (payload found built) (\<lambda>v. Inr (completion_response now (model body) digest (assistant_content v) prompt)))"
  have "chat_completions hexdigest dirs now st later body =
      (if mode st = Mode_timeout then Some (timeout_seconds st) else None, answer)"
    using False by (simp add: chat_completions_def answer_def payload_def rbind_assoc names Let_def)
  moreover have "mode st' \<noteq> Mode_invalid_json \<and> (found = Inl e \<or> found = Inr PNone \<and> built = Inl e)" if "answer = Inl e" for e
    using that by (auto simp: answer_def payload_def rbind_eq_Inl_iff split: if_splits)
  moreover have "\<exists>reply. r = completion_response now (model body) digest reply prompt
      \<and> (if mode st' = Mode_invalid_json then reply = ''not-json'' @ [CHR 0x7B]
         else \<exists>v. (found = Inr v \<and> v \<noteq> PNone \<or> found = Inr PNone \<and> built = Inr v) \<and> sent_text v reply)"
    if "answer = Inr r" for r
    using that by (auto simp: answer_def payload_def rbind_eq_Inr_iff sent_assistant_content split: if_splits)
  ultimately show ?thesis
    using False tokens_for_count unfolding Let_def names [symmetric]
    by (fastforce simp: completion_pinned completion_body_def split: sum.split)
qed

section \<open>A concrete request\<close>

definition demo_props :: pydict where
  "demo_props =
     [(''intent'', PDict [(''enum'', PList [PStr ''sales'', PStr ''spam'']), (''type'', PStr ''string'')]),
      (''score'', PDict [(''type'', PStr ''integer''), (''minimum'', PInt 1)]),
      (''tags'', PDict [(''type'', PStr ''array''), (''items'', PDict [(''type'', PList [PStr ''string'', PStr ''null''])]),
                      (''minItems'', PInt 2)])]"

definition demo_schema :: pydict where
  "demo_schema =
     [(''type'', PStr ''object''), (''properties'', PDict demo_props), (''required'', PList (map PStr [''intent'', ''tags''])),
      (''additionalProperties'', PBool False)]"

definition demo_request :: chat_request where
  "demo_request = \<lparr>model = ''m'', messages = [\<lparr>role = ''user'', content = PStr ''hello''\<rparr>], 
     response_format = Some \<lparr>format_type = Format_json_schema,
       json_schema = Some \<lparr>spec_name = ''response'', spec_schema = demo_schema, strict = None\<rparr>\<rparr>\<rparr>"

lemma plain_demo: "plain demo_schema"
proof (rule plain.object)
  have "plain [(''type'', PList [PStr ''string'', PStr ''null''])]"
    by (rule plain.leaf [where t = "''string''"])
      (simp_all add: keys_in_def declared_type_def type_name_def dget_def minimum_fits_def)
  then have "plain [(''type'', PStr ''array''), (''items'', PDict [(''type'', PList [PStr ''string'', PStr ''null''])]),
      (''minItems'', PInt 2)]"
    by (rule plain.array [where n = 2, rotated 4]) (simp_all add: keys_in_def declared_type_def type_name_def dget_def)
  moreover have "plain [(''enum'', PList [PStr ''sales'', PStr ''spam'']), (''type'', PStr ''string'')]"
    by (rule plain.enum [where v = "PStr ''sales''" and vs = "[PStr ''spam'']"])
      (simp_all add: keys_in_def dget_def type_ok_def has_type_def)
  moreover have "plain [(''type'', PStr ''integer''), (''minimum'', PInt 1)]"
    by (rule plain.leaf [where t = "''integer''"])
      (simp_all add: keys_in_def declared_type_def type_name_def dget_def minimum_fits_def)
  ultimately show "\<forall>k \<in> fst ` set demo_props. \<exists>c. dget demo_props k = PDict c \<and> plain c"
    by (simp add: demo_props_def dget_def)
  show "set [''intent'', ''tags''] \<subseteq> fst ` set demo_props" by (simp add: demo_props_def)
  show "demo_props \<noteq> []" by (simp add: demo_props_def)
qed (simp_all add: demo_schema_def keys_in_def declared_type_def type_name_def dget_def)

theorem structured_output_satisfies_schema_witness:
  "\<exists>v r. default_from_schema demo_schema = Inr v \<and> satisfies demo_schema v
    \<and> chat_completions (\<lambda>_. ''d'') Map.empty 7 initial_state initial_state demo_request = (None, Inr r) \<and> status_code r = 200"
  using structured_output_satisfies_schema [OF plain_demo, of demo_request initial_state initial_state "\<lambda>_. ''d''" Map.empty 7]
  by (auto simp: demo_request_def initial_state_def lookup_fixture_def response_schema_def)

theorem mode_decides_answer_witness:
  "chat_completions (\<lambda>_. ''d'') Map.empty 7 (initial_state\<lparr>mode := Mode_429\<rparr>) initial_state demo_request =
     (None, Inr \<lparr>status_code = 429, resp_content = PDict [(''error'', PDict [(''message'', PStr ''Rate limit exceeded''),
         (''type'', PStr ''rate_limit_error''), (''param'', PNone), (''code'', PStr ''rate_limit_exceeded'')])],
         resp_headers = [(''Retry-After'', ''2'')]\<rparr>)"
  using mode_decides_answer [of "initial_state\<lparr>mode := Mode_429\<rparr>" "\<lambda>_. ''d''" Map.empty 7 initial_state demo_request]
  by (simp add: initial_state_def eval_simps)

end
