(* ===== verification/Service_Main.thy ===== *)
theory Service_Main
  imports Mock_Llm
begin

text \<open>
  What surrounds the services: the log formatters and the entry points.  The server is a third-party package; an entry point is
  what it passes to \<open>uvicorn.run\<close>.
\<close>

section \<open>Log lines\<close>

record log_record =
  levelname :: string
  logger_name :: string
  log_message :: string

text \<open>\<open>_JsonFormatter.format\<close> of the lead service and of the document service.\<close>

definition lead_log_format :: "log_record \<Rightarrow> string" where
  "lead_log_format r =
     json_dumps '', '' '': '' False
       (PDict [(''level'', PStr (py_lower (levelname r))), (''logger'', PStr (logger_name r)), (''msg'', PStr (log_message r))])"

definition doc_log_format :: "log_record \<Rightarrow> string" where
  "doc_log_format r =
     json_dumps '', '' '': '' False
       (PDict [(''level'', PStr (py_lower (levelname r))), (''logger'', PStr (logger_name r)), (''msg'', PStr (log_message r))])"

section \<open>Entry points\<close>

record server_call =
  server_app :: string
  server_host :: string
  server_port :: int
  server_log_level :: "string option"

definition lead_main :: server_call where
  "lead_main = \<lparr>server_app = ''p01_backend.main:app'', server_host = ''0.0.0.0'', server_port = 8000,
     server_log_level = None\<rparr>"

definition doc_main :: server_call where
  "doc_main = \<lparr>server_app = ''p02_doc_service.main:app'', server_host = ''0.0.0.0'', server_port = 8000,
     server_log_level = None\<rparr>"

definition review_main :: server_call where
  "review_main = \<lparr>server_app = ''review_ui.app:app'', server_host = ''0.0.0.0'', server_port = 8092,
     server_log_level = Some ''info''\<rparr>"

definition mock_main :: "(string \<rightharpoonup> string) \<Rightarrow> server_call res" where
  "mock_main env =
     (let host = (case env ''MOCK_LLM_HOST'' of None \<Rightarrow> ''127.0.0.1'' | Some h \<Rightarrow> h)
      in rbind (py_int (case env ''MOCK_LLM_PORT'' of None \<Rightarrow> ''8090'' | Some p \<Rightarrow> p)) (\<lambda>port.
           Inr \<lparr>server_app = ''mock_llm.main:app'', server_host = host, server_port = port, server_log_level = None\<rparr>))"

lemmas service_main_defs [eval_simps] =
  lead_log_format_def doc_log_format_def lead_main_def doc_main_def review_main_def mock_main_def

section \<open>A log line cannot be forged\<close>

definition printable_ascii :: "string \<Rightarrow> bool" where
  "printable_ascii s \<longleftrightarrow> list_all (\<lambda>c. 32 \<le> code c \<and> code c < 127) s"

lemma printable_append [simp]: "printable_ascii (x @ y) \<longleftrightarrow> printable_ascii x \<and> printable_ascii y"
  by (simp add: printable_ascii_def)

lemma json_str_printable: "printable_ascii (json_str s)"
proof -
  have "printable_ascii (json_char c)" for c
    using hex2_ascii [of _ c] by (auto simp: json_char_def printable_ascii_def list_all_iff)
  then show ?thesis by (auto simp: json_str_def printable_ascii_def list_all_iff)
qed

lemma join_printable: "printable_ascii sep \<Longrightarrow> \<forall>x \<in> set xs. printable_ascii x \<Longrightarrow> printable_ascii (join sep xs)"
  by (induction sep xs rule: join.induct) (auto simp: printable_ascii_def [of "[]"])

fun text_fields :: "pydict \<Rightarrow> bool" where
  "text_fields [] \<longleftrightarrow> True"
| "text_fields ((k, v) # d) \<longleftrightarrow> (\<exists>s. v = PStr s) \<and> text_fields d"

lemma json_dict_printable:
  assumes "text_fields d" "printable_ascii isep" "printable_ascii ksep"
  shows "printable_ascii (json_dumps isep ksep False (PDict d))"
proof -
  have entry: "printable_ascii (json_str k @ ksep @ json_dumps isep ksep False v)" if "(k, v) \<in> set d" for k v
    using assms that by (induction d) (auto simp: json_str_printable)
  have "printable_ascii (join isep (map (\<lambda>(k, t). json_str k @ ksep @ t) (map (\<lambda>(k, v). (k, json_dumps isep ksep False v)) d)))"
    using entry by (intro join_printable assms) auto
  then show ?thesis by (simp add: Let_def printable_ascii_def)
qed

text \<open>
  Whatever a message holds, the line of a record is printable ASCII without a line break, and records with the same line agree
  in level, logger and message.
\<close>

lemma log_line_printable: "printable_ascii (lead_log_format r)" "printable_ascii (doc_log_format r)"
  unfolding lead_log_format_def doc_log_format_def by (rule json_dict_printable; simp add: printable_ascii_def)+

lemma log_line_injective:
  assumes "lead_log_format r = lead_log_format r'"
  shows "py_lower (levelname r) = py_lower (levelname r') \<and> logger_name r = logger_name r' \<and> log_message r = log_message r'"
proof -
  have "json_str (py_lower (levelname r)) @ '', '' @ json_str ''logger'' @ '': '' @ json_str (logger_name r) @ '', '' @ json_str ''msg''
        @ '': '' @ json_str (log_message r) @ [CHR 0x7D]
      = json_str (py_lower (levelname r')) @ '', '' @ json_str ''logger'' @ '': '' @ json_str (logger_name r') @ '', '' @ json_str ''msg''
        @ '': '' @ json_str (log_message r') @ [CHR 0x7D]"
    using assms by (simp add: lead_log_format_def Let_def)
  then have level: "py_lower (levelname r) = py_lower (levelname r')"
    and rest: "json_str (logger_name r) @ '', '' @ json_str ''msg'' @ '': '' @ json_str (log_message r) @ [CHR 0x7D]
      = json_str (logger_name r') @ '', '' @ json_str ''msg'' @ '': '' @ json_str (log_message r') @ [CHR 0x7D]"
    by (auto dest!: json_str_prefix_free)
  from json_str_prefix_free [OF rest] have "logger_name r = logger_name r'"
    and "json_str (log_message r) @ [CHR 0x7D] = json_str (log_message r') @ [CHR 0x7D]" by auto
  then show ?thesis using level json_str_prefix_free by blast
qed

lemma mock_log_printable: "text_fields kwargs \<Longrightarrow> printable_ascii (mock_log event kwargs)"
  unfolding mock_log_def by (rule json_dict_printable) (simp_all add: printable_ascii_def)

lemma chat_log_printable: "printable_ascii (chat_log hexdigest st body)"
  unfolding chat_log_def by (rule mock_log_printable) simp

end
