(* ===== verification/Py_Regex.thy ===== *)
theory Py_Regex
  imports Py_Value
begin

text \<open>
  Python's regular expressions, as the sources use them.  A position in a text is what was read before it (reversed) and
  what follows; \<open>ends\<close> lists the positions a match can end at in the order the backtracking matcher of Python tries
  them (the longest repetition first, the left alternative first), so \<open>re_search\<close> and \<open>re_fullmatch\<close> decide
  whether there is a match and the first path that succeeds has the groups Python reports.  Repetition is of a character
  class, as in every pattern of the sources.
\<close>

datatype regex =
    Class "char \<Rightarrow> bool"
  | Lit string
  | Many "char \<Rightarrow> bool" nat "nat option"
  | WordBoundary
  | TextStart
  | TextEnd
  | Then regex regex
  | Or regex regex

type_synonym position = "string \<times> string"

definition word_char :: "char \<Rightarrow> bool" where
  "word_char c \<longleftrightarrow> is_alnum c \<or> c = CHR ''_''"

definition at_boundary :: "position \<Rightarrow> bool" where
  "at_boundary p \<longleftrightarrow>
     (fst p \<noteq> [] \<and> word_char (hd (fst p))) \<noteq> (snd p \<noteq> [] \<and> word_char (hd (snd p)))"

text \<open>The anchor \<open>$\<close> also holds before a newline that ends the text.\<close>

definition at_end :: "position \<Rightarrow> bool" where
  "at_end p \<longleftrightarrow> snd p = [] \<or> snd p = [CHR 0x0A]"

definition advance :: "nat \<Rightarrow> position \<Rightarrow> position" where
  "advance n p = (rev (take n (snd p)) @ fst p, drop n (snd p))"

fun ends :: "regex \<Rightarrow> position \<Rightarrow> position list" where
  "ends (Class f) p = (if snd p \<noteq> [] \<and> f (hd (snd p)) then [advance 1 p] else [])"
| "ends (Lit s) p = (if prefix s (snd p) then [advance (length s) p] else [])"
| "ends (Many f lo hi) p =
     (let n = length (takeWhile f (snd p)); m = (case hi of None \<Rightarrow> n | Some k \<Rightarrow> min k n)
      in map (\<lambda>i. advance i p) (rev [lo..<Suc m]))"
| "ends WordBoundary p = (if at_boundary p then [p] else [])"
| "ends TextStart p = (if fst p = [] then [p] else [])"
| "ends TextEnd p = (if at_end p then [p] else [])"
| "ends (Then a b) p = concat (map (ends b) (ends a p))"
| "ends (Or a b) p = ends a p @ ends b p"

fun scan_from :: "regex \<Rightarrow> string \<Rightarrow> string \<Rightarrow> bool" where
  "scan_from r before [] \<longleftrightarrow> ends r (before, []) \<noteq> []"
| "scan_from r before (c # cs) \<longleftrightarrow> ends r (before, c # cs) \<noteq> [] \<or> scan_from r (c # before) cs"

definition re_search :: "regex \<Rightarrow> string \<Rightarrow> bool" where
  "re_search r s = scan_from r [] s"

definition re_fullmatch :: "regex \<Rightarrow> string \<Rightarrow> bool" where
  "re_fullmatch r s = list_ex (\<lambda>p. snd p = []) (ends r ([], s))"

definition one_of :: "string \<Rightarrow> char \<Rightarrow> bool" where
  "one_of cs c \<longleftrightarrow> c \<in> set cs"

text \<open>A literal and a class under \<open>re.IGNORECASE\<close>.\<close>

definition ignoring_case :: "(char \<Rightarrow> bool) \<Rightarrow> char \<Rightarrow> bool" where
  "ignoring_case f c \<longleftrightarrow> f c \<or> f (lower_char c)"

fun lit_i :: "string \<Rightarrow> regex" where
  "lit_i [] = Lit []"
| "lit_i (c # cs) = Then (Class (ignoring_case (\<lambda>d. d = c))) (lit_i cs)"

fun seq :: "regex list \<Rightarrow> regex" where
  "seq [] = Lit []"
| "seq [r] = r"
| "seq (r # rs) = Then r (seq rs)"

fun alt :: "string list \<Rightarrow> regex" where
  "alt [] = Class (\<lambda>_. False)"
| "alt [s] = Lit s"
| "alt (s # ss) = Or (Lit s) (alt ss)"

definition ascii_alnum :: "char \<Rightarrow> bool" where
  "ascii_alnum c \<longleftrightarrow> is_upper_az c \<or> is_lower_az c \<or> is_decimal c"

lemmas regex_defs [eval_simps] =
  word_char_def at_boundary_def at_end_def advance_def re_search_def re_fullmatch_def one_of_def ignoring_case_def ascii_alnum_def

section \<open>Reference semantics\<close>

text \<open>
  The texts an expression stands for.  A word boundary and an anchor consume nothing; that they look at their context is
  left out, so the semantics is exact for the expressions without one and an upper bound for the others.
\<close>

fun denotes :: "regex \<Rightarrow> string \<Rightarrow> bool" where
  "denotes (Class f) y \<longleftrightarrow> (\<exists>c. y = [c] \<and> f c)"
| "denotes (Lit s) y \<longleftrightarrow> y = s"
| "denotes (Many f lo hi) y \<longleftrightarrow> list_all f y \<and> lo \<le> length y \<and> (case hi of None \<Rightarrow> True | Some k \<Rightarrow> length y \<le> k)"
| "denotes WordBoundary y \<longleftrightarrow> y = []"
| "denotes TextStart y \<longleftrightarrow> y = []"
| "denotes TextEnd y \<longleftrightarrow> y = []"
| "denotes (Then a b) y \<longleftrightarrow> (\<exists>u v. y = u @ v \<and> denotes a u \<and> denotes b v)"
| "denotes (Or a b) y \<longleftrightarrow> denotes a y \<or> denotes b y"

fun boundary_free :: "regex \<Rightarrow> bool" where
  "boundary_free WordBoundary \<longleftrightarrow> False"
| "boundary_free TextStart \<longleftrightarrow> False"
| "boundary_free TextEnd \<longleftrightarrow> False"
| "boundary_free (Then a b) \<longleftrightarrow> boundary_free a \<and> boundary_free b"
| "boundary_free (Or a b) \<longleftrightarrow> boundary_free a \<and> boundary_free b"
| "boundary_free _ \<longleftrightarrow> True"

lemma takeWhile_le: "n \<le> length (takeWhile f s) \<longleftrightarrow> n \<le> length s \<and> list_all f (take n s)"
proof (induction s arbitrary: n)
  case (Cons c s)
  then show ?case by (cases n) auto
qed auto

lemma ends_Many:
  "q \<in> set (ends (Many f lo hi) p) \<longleftrightarrow> (\<exists>y. snd p = y @ snd q \<and> fst q = rev y @ fst p \<and> denotes (Many f lo hi) y)"
proof
  assume "q \<in> set (ends (Many f lo hi) p)"
  then obtain i where i: "q = advance i p" "lo \<le> i" "i \<le> length (takeWhile f (snd p))" "case hi of None \<Rightarrow> True | Some k \<Rightarrow> i \<le> k"
    by (auto simp: Let_def less_Suc_eq_le split: option.splits simp del: upt_Suc)
  then show "\<exists>y. snd p = y @ snd q \<and> fst q = rev y @ fst p \<and> denotes (Many f lo hi) y"
    by (intro exI [of _ "take i (snd p)"]) (auto simp: advance_def takeWhile_le min_absorb2 split: option.splits)
next
  assume "\<exists>y. snd p = y @ snd q \<and> fst q = rev y @ fst p \<and> denotes (Many f lo hi) y"
  then obtain y where y: "snd p = y @ snd q" "fst q = rev y @ fst p" "denotes (Many f lo hi) y" by blast
  then have "length y \<le> length (takeWhile f (snd p))" by (simp add: takeWhile_le)
  moreover have "q = advance (length y) p" using y by (simp add: advance_def prod_eq_iff)
  ultimately show "q \<in> set (ends (Many f lo hi) p)"
    using y(3) by (auto simp: Let_def less_Suc_eq_le split: option.splits simp del: upt_Suc)
qed

lemma ends_matches:
  "q \<in> set (ends r p) \<Longrightarrow> \<exists>y. snd p = y @ snd q \<and> fst q = rev y @ fst p \<and> denotes r y"
proof (induction r arbitrary: p q)
  case (Class f)
  then show ?case by (cases "snd p") (auto simp: advance_def split: if_splits)
next
  case (Lit s)
  then show ?case by (auto simp: advance_def prefix_def split: if_splits)
next
  case (Many f lo hi)
  then show ?case using ends_Many by blast
next
  case (Then a b)
  then obtain m where "m \<in> set (ends a p)" "q \<in> set (ends b m)" by auto
  then obtain u v where "snd p = u @ snd m" "fst m = rev u @ fst p" "denotes a u" "snd m = v @ snd q" "fst q = rev v @ fst m" "denotes b v"
    using Then.IH by metis
  then show ?case by (intro exI [of _ "u @ v"]) auto
next
  case (Or a b)
  then show ?case by fastforce
qed (auto split: if_splits)

lemma matches_ends:
  "boundary_free r \<Longrightarrow> denotes r y \<Longrightarrow> (rev y @ b, t) \<in> set (ends r (b, y @ t))"
proof (induction r arbitrary: y b t)
  case (Many f lo hi)
  then show ?case unfolding ends_Many by simp
next
  case (Then r1 r2)
  then obtain u v where y: "y = u @ v" "denotes r1 u" "denotes r2 v" by auto
  then have "(rev u @ b, v @ t) \<in> set (ends r1 (b, y @ t))" "(rev y @ b, t) \<in> set (ends r2 (rev u @ b, v @ t))"
    using Then.IH(1) [of u b "v @ t"] Then.IH(2) [of v "rev u @ b" t] Then.prems(1) by simp_all
  then show ?case by auto
qed (auto simp: advance_def)

lemma scan_ends: "scan_from r before s \<longleftrightarrow> (\<exists>x t. s = x @ t \<and> ends r (rev x @ before, t) \<noteq> [])"
proof (induction r before s rule: scan_from.induct)
  case (2 r before c cs)
  have "(\<exists>x t. c # cs = x @ t \<and> ends r (rev x @ before, t) \<noteq> [])
      \<longleftrightarrow> ends r (before, c # cs) \<noteq> [] \<or> (\<exists>x t. cs = x @ t \<and> ends r (rev x @ c # before, t) \<noteq> [])"
    (is "?all \<longleftrightarrow> ?here \<or> ?later")
  proof
    assume ?all
    then obtain x t where "c # cs = x @ t" "ends r (rev x @ before, t) \<noteq> []" by blast
    then show "?here \<or> ?later" by (cases x) auto
  next
    assume "?here \<or> ?later"
    then show ?all
    proof
      assume ?here
      then show ?all by (intro exI [of _ "[]"] exI [of _ "c # cs"]) simp
    next
      assume ?later
      then obtain x t where "cs = x @ t" "ends r (rev x @ c # before, t) \<noteq> []" by blast
      then show ?all by (intro exI [of _ "c # x"] exI [of _ t]) simp
    qed
  qed
  then show ?case using 2 by simp
qed simp

lemma search_matches: "re_search r s \<Longrightarrow> \<exists>x y z. s = x @ y @ z \<and> denotes r y"
proof -
  assume "re_search r s"
  then obtain x t where x: "s = x @ t" "ends r (rev x, t) \<noteq> []" by (auto simp: re_search_def scan_ends)
  then obtain q where "q \<in> set (ends r (rev x, t))" by (cases "ends r (rev x, t)") auto
  then show ?thesis using ends_matches [of q r "(rev x, t)"] x(1) by auto
qed

lemma search_iff: "boundary_free r \<Longrightarrow> re_search r s \<longleftrightarrow> (\<exists>x y z. s = x @ y @ z \<and> denotes r y)"
proof
  assume plain: "boundary_free r" and "\<exists>x y z. s = x @ y @ z \<and> denotes r y"
  then obtain x y z where s: "s = x @ y @ z" "denotes r y" by blast
  then have "ends r (rev x, y @ z) \<noteq> []" using matches_ends [OF plain, of y "rev x" z] by auto
  then show "re_search r s" using s(1) by (auto simp: re_search_def scan_ends)
qed (rule search_matches)

text \<open>A character that every match consumes.\<close>

fun needs :: "(char \<Rightarrow> bool) \<Rightarrow> regex \<Rightarrow> bool" where
  "needs P (Class f) \<longleftrightarrow> (\<forall>c. f c \<longrightarrow> P c)"
| "needs P (Lit s) \<longleftrightarrow> list_ex P s"
| "needs P (Then a b) \<longleftrightarrow> needs P a \<or> needs P b"
| "needs P (Or a b) \<longleftrightarrow> needs P a \<and> needs P b"
| "needs P _ \<longleftrightarrow> False"

lemma needs_matches: "needs P r \<Longrightarrow> denotes r y \<Longrightarrow> list_ex P y"
  by (induction P r arbitrary: y rule: needs.induct) auto

lemma no_search: "needs P r \<Longrightarrow> \<not> list_ex P s \<Longrightarrow> \<not> re_search r s"
  using search_matches needs_matches by fastforce

text \<open>A class that every consumed character is in.\<close>

fun consists_of :: "(char \<Rightarrow> bool) \<Rightarrow> regex \<Rightarrow> bool" where
  "consists_of P (Class f) \<longleftrightarrow> (\<forall>c. f c \<longrightarrow> P c)"
| "consists_of P (Lit s) \<longleftrightarrow> list_all P s"
| "consists_of P (Many f lo hi) \<longleftrightarrow> (\<forall>c. f c \<longrightarrow> P c)"
| "consists_of P WordBoundary \<longleftrightarrow> True"
| "consists_of P TextStart \<longleftrightarrow> True"
| "consists_of P TextEnd \<longleftrightarrow> True"
| "consists_of P (Then a b) \<longleftrightarrow> consists_of P a \<and> consists_of P b"
| "consists_of P (Or a b) \<longleftrightarrow> consists_of P a \<and> consists_of P b"

lemma matches_consists: "consists_of P r \<Longrightarrow> denotes r y \<Longrightarrow> list_all P y"
proof (induction r arbitrary: y)
  case (Then a b)
  then obtain u v where y: "y = u @ v" and "denotes a u" "denotes b v" by auto
  then have "list_all P u" "list_all P v" using Then by simp_all
  then show ?case by (simp add: y)
qed (auto simp: list_all_iff)

end
