(* ===== verification/Json_Loads.thy ===== *)
theory Json_Loads
  imports Py_Json
begin

text \<open>
  \<open>json.loads\<close>.  A number with a fraction or an exponent becomes a float, kept by its \<open>repr\<close>, which is the argument
  \<open>fr\<close> of the number's text.  An escape beyond U+00FF is outside the model and is reported as such.  The
  tests on lengths always hold (\<open>parse_shorter\<close>); they make the recursion visibly end.
\<close>

datatype json_error = JSONDecodeError | IntTooLong | OutsideLatin1

definition is_ws :: "char \<Rightarrow> bool" where
  "is_ws c \<longleftrightarrow> c = CHR '' '' \<or> c = CHR 0x09 \<or> c = CHR 0x0A \<or> c = CHR 0x0D"

definition skip_ws :: "string \<Rightarrow> string" where
  "skip_ws s = dropWhile is_ws s"

section \<open>Strings\<close>

definition hex_val :: "char \<Rightarrow> nat option" where
  "hex_val c =
     (if is_decimal c then Some (code c - 48)
      else if 97 \<le> code c \<and> code c \<le> 102 then Some (code c - 87)
      else if 65 \<le> code c \<and> code c \<le> 70 then Some (code c - 55)
      else None)"

definition hex4 :: "string \<Rightarrow> nat option" where
  "hex4 s =
     (case map hex_val s of
        [Some a, Some b, Some c, Some d] \<Rightarrow> Some (a * 4096 + b * 256 + c * 16 + d)
      | _ \<Rightarrow> None)"

definition simple_escape :: "char \<Rightarrow> char option" where
  "simple_escape e =
     (if e = CHR 0x22 \<or> e = CHR 0x5C \<or> e = CHR ''/'' then Some e
      else if e = CHR ''b'' then Some CHR 0x08
      else if e = CHR ''f'' then Some CHR 0x0C
      else if e = CHR ''n'' then Some CHR 0x0A
      else if e = CHR ''r'' then Some CHR 0x0D
      else if e = CHR ''t'' then Some CHR 0x09
      else None)"

definition push :: "char \<Rightarrow> json_error + string \<times> string \<Rightarrow> json_error + string \<times> string" where
  "push c m = rbind m (\<lambda>(s, r). Inr (c # s, r))"

text \<open>The characters after the opening quote.\<close>

function parse_string :: "string \<Rightarrow> json_error + string \<times> string" where
  "parse_string s =
     (case s of
        [] \<Rightarrow> Inl JSONDecodeError
      | c # cs \<Rightarrow>
          if c = CHR 0x22 then Inr ([], cs)
          else if c \<noteq> CHR 0x5C then (if code c < 32 then Inl JSONDecodeError else push c (parse_string cs))
          else
            (case cs of
               [] \<Rightarrow> Inl JSONDecodeError
             | e # es \<Rightarrow>
                 if e = CHR ''u''
                 then (case hex4 (take 4 es) of
                         None \<Rightarrow> Inl JSONDecodeError
                       | Some n \<Rightarrow> if n < 256 then push (char_of n) (parse_string (drop 4 es)) else Inl OutsideLatin1)
                 else (case simple_escape e of
                         None \<Rightarrow> Inl JSONDecodeError
                       | Some c' \<Rightarrow> push c' (parse_string es))))"
  by pat_completeness auto
termination by (relation "measure length") auto

declare parse_string.simps [simp del]

section \<open>Numbers\<close>

definition int_part :: "string \<Rightarrow> (string \<times> string) option" where
  "int_part s =
     (case s of
        [] \<Rightarrow> None
      | c # cs \<Rightarrow>
          if c = CHR ''0'' then Some (''0'', cs)
          else if is_decimal c then Some (takeWhile is_decimal s, dropWhile is_decimal s)
          else None)"

definition frac_part :: "string \<Rightarrow> string \<times> string" where
  "frac_part s =
     (case s of
        c # d # ds \<Rightarrow>
          if c = CHR ''.'' \<and> is_decimal d
          then (c # takeWhile is_decimal (d # ds), dropWhile is_decimal (d # ds)) else ([], s)
      | _ \<Rightarrow> ([], s))"

definition exp_part :: "string \<Rightarrow> string \<times> string" where
  "exp_part s =
     (case s of
        c # cs \<Rightarrow>
          (let (sg, ds) = (case cs of d # ds' \<Rightarrow> if d = CHR ''+'' \<or> d = CHR ''-'' then ([d], ds') else ([], cs) | [] \<Rightarrow> ([], []))
           in if (c = CHR ''e'' \<or> c = CHR ''E'') \<and> ds \<noteq> [] \<and> is_decimal (hd ds)
              then (c # sg @ takeWhile is_decimal ds, dropWhile is_decimal ds) else ([], s))
      | [] \<Rightarrow> ([], s))"

definition parse_number :: "(string \<Rightarrow> string) \<Rightarrow> string \<Rightarrow> json_error + pyval \<times> string" where
  "parse_number fr s =
     (let (sg, body) = (case s of c # cs \<Rightarrow> if c = CHR ''-'' then (''-'', cs) else ([], s) | [] \<Rightarrow> ([], []))
      in case int_part body of
           None \<Rightarrow> Inl JSONDecodeError
         | Some (ip, r) \<Rightarrow>
             (let (fp, r') = frac_part r; (ep, r'') = exp_part r'
              in if fp = [] \<and> ep = []
                 then if 4300 < length ip then Inl IntTooLong
                      else Inr (PInt (if sg = [] then int (int_of_digits ip) else - int (int_of_digits ip)), r'')
                 else Inr (PFloat (fr (sg @ ip @ fp @ ep)), r'')))"

section \<open>Values\<close>

definition parse_word :: "string \<Rightarrow> (pyval \<times> string) option" where
  "parse_word s =
     (if prefix ''null'' s then Some (PNone, drop 4 s)
      else if prefix ''true'' s then Some (PBool True, drop 4 s)
      else if prefix ''false'' s then Some (PBool False, drop 5 s)
      else if prefix ''NaN'' s then Some (PFloat ''nan'', drop 3 s)
      else if prefix ''Infinity'' s then Some (PFloat ''inf'', drop 8 s)
      else if prefix ''-Infinity'' s then Some (PFloat ''-inf'', drop 9 s)
      else None)"

lemma length_skip_ws: "length (skip_ws s) \<le> length s"
  by (simp add: skip_ws_def length_dropWhile_le)

lemma skip_ws_Cons: "skip_ws s = c # cs \<Longrightarrow> Suc (length cs) \<le> length s"
  using length_skip_ws [of s] by simp

lemma push_Inr: "push c m = Inr (s, r) \<longleftrightarrow> (\<exists>s'. s = c # s' \<and> m = Inr (s', r))"
  by (auto simp: push_def rbind_eq_Inr_iff)

lemma parse_string_shorter: "parse_string s = Inr (t, r) \<Longrightarrow> length r < length s"
proof (induction s arbitrary: t rule: parse_string.induct)
  case (1 s)
  show ?case
  proof (cases s)
    case Nil
    then show ?thesis using 1 by (simp add: parse_string.simps)
  next
    case (Cons c cs)
    then show ?thesis
      using 1 parse_string.simps [of s]
      by (fastforce simp: push_Inr split: if_splits list.splits option.splits)
  qed
qed

text \<open>A key with its colon.\<close>

definition parse_key :: "string \<Rightarrow> json_error + string \<times> string" where
  "parse_key s =
     (case s of
        [] \<Rightarrow> Inl JSONDecodeError
      | c # cs \<Rightarrow>
          if c \<noteq> CHR 0x22 then Inl JSONDecodeError
          else rbind (parse_string cs) (\<lambda>(k, r).
                 case skip_ws r of
                   [] \<Rightarrow> Inl JSONDecodeError
                 | d # ds \<Rightarrow> if d = CHR '':'' then Inr (k, skip_ws ds) else Inl JSONDecodeError))"

lemma parse_key_shorter: "parse_key s = Inr (k, r) \<Longrightarrow> length r < length s"
proof -
  assume "parse_key s = Inr (k, r)"
  then obtain cs k' r1 where cs: "s = CHR 0x22 # cs" "parse_string cs = Inr (k', r1)" and
    rest: "(case skip_ws r1 of [] \<Rightarrow> Inl JSONDecodeError
      | d # ds \<Rightarrow> if d = CHR '':'' then Inr (k', skip_ws ds) else Inl JSONDecodeError) = Inr (k, r)"
    by (cases s) (auto simp: parse_key_def rbind_eq_Inr_iff split: if_splits)
  then obtain ds where "skip_ws r1 = CHR '':'' # ds" "r = skip_ws ds" by (cases "skip_ws r1") (auto split: if_splits)
  then show ?thesis
    using parse_string_shorter [OF cs(2)] skip_ws_Cons [of r1 "CHR '':''" ds] length_skip_ws [of ds] cs(1) by simp
qed

lemma twice_skip_ws: "2 * length s < n \<Longrightarrow> 2 * length (skip_ws s) < n"
  using length_skip_ws [of s] by linarith

function (sequential) parse_value :: "(string \<Rightarrow> string) \<Rightarrow> string \<Rightarrow> json_error + pyval \<times> string"
  and parse_items :: "(string \<Rightarrow> string) \<Rightarrow> string \<Rightarrow> json_error + pyval list \<times> string"
  and parse_pairs :: "(string \<Rightarrow> string) \<Rightarrow> string \<Rightarrow> json_error + (string \<times> pyval) list \<times> string" where
  "parse_value fr s =
     (case s of
        [] \<Rightarrow> Inl JSONDecodeError
      | c # cs \<Rightarrow>
          if c = CHR 0x22 then rbind (parse_string cs) (\<lambda>(t, r). Inr (PStr t, r))
          else if c = CHR 0x7B
          then (case skip_ws cs of
                  [] \<Rightarrow> Inl JSONDecodeError
                | d # ds \<Rightarrow>
                    if d = CHR 0x7D then Inr (PDict [], ds)
                    else rbind (parse_pairs fr (d # ds)) (\<lambda>(ps, r). Inr (PDict (dict_of ps), r)))
          else if c = CHR ''[''
          then (case skip_ws cs of
                  [] \<Rightarrow> Inl JSONDecodeError
                | d # ds \<Rightarrow>
                    if d = CHR '']'' then Inr (PList [], ds)
                    else rbind (parse_items fr (d # ds)) (\<lambda>(vs, r). Inr (PList vs, r)))
          else (case parse_word s of Some w \<Rightarrow> Inr w | None \<Rightarrow> parse_number fr s))"
| "parse_items fr s =
     rbind (parse_value fr s) (\<lambda>(v, r).
       if length r < length s
       then (case skip_ws r of
               [] \<Rightarrow> Inl JSONDecodeError
             | c # cs \<Rightarrow>
                 if c = CHR '','' then rbind (parse_items fr (skip_ws cs)) (\<lambda>(vs, r'). Inr (v # vs, r'))
                 else if c = CHR '']'' then Inr ([v], cs)
                 else Inl JSONDecodeError)
       else Inl JSONDecodeError)"
| "parse_pairs fr s =
     rbind (parse_key s) (\<lambda>(k, r).
       rbind (parse_value fr r) (\<lambda>(v, r2).
         if length r2 < length r
         then (case skip_ws r2 of
                 [] \<Rightarrow> Inl JSONDecodeError
               | e # es \<Rightarrow>
                   if e = CHR '','' then rbind (parse_pairs fr (skip_ws es)) (\<lambda>(ps, r'). Inr ((k, v) # ps, r'))
                   else if e = CHR 0x7D then Inr ([(k, v)], es)
                   else Inl JSONDecodeError)
         else Inl JSONDecodeError))"
  by pat_completeness auto
termination
  by (relation "measure (case_sum (\<lambda>(_, s). 2 * length s)
        (case_sum (\<lambda>(_, s). Suc (2 * length s)) (\<lambda>(_, s). Suc (2 * length s))))")
    (auto dest!: skip_ws_Cons parse_key_shorter
      simp: twice_skip_ws order.strict_trans1 [OF length_skip_ws])

declare parse_value.simps [simp del] parse_items.simps [simp del] parse_pairs.simps [simp del]

definition json_loads :: "(string \<Rightarrow> string) \<Rightarrow> string \<Rightarrow> json_error + pyval" where
  "json_loads fr s = rbind (parse_value fr (skip_ws s)) (\<lambda>(v, r). if skip_ws r = [] then Inr v else Inl JSONDecodeError)"

lemmas loads_defs [eval_simps] =
  is_ws_def skip_ws_def hex_val_def hex4_def simple_escape_def push_def int_part_def frac_part_def exp_part_def parse_number_def
  parse_word_def parse_key_def json_loads_def

section \<open>Every parser consumes\<close>

lemma int_part_shorter: "int_part s = Some (ip, r) \<Longrightarrow> length r < length s"
  by (cases s) (auto simp: int_part_def less_Suc_eq_le length_dropWhile_le split: if_splits)

lemma frac_part_le: "length (snd (frac_part s)) \<le> length s"
  by (auto simp: frac_part_def split: list.splits intro: le_SucI length_dropWhile_le)

lemma exp_part_le: "length (snd (exp_part s)) \<le> length s"
  by (auto simp: exp_part_def Let_def split: list.splits intro: le_SucI length_dropWhile_le)

lemma parse_number_shorter: "parse_number fr s = Inr (v, r) \<Longrightarrow> length r < length s"
proof -
  have *: "length (snd (exp_part (snd (frac_part r')))) < n" if "int_part body = Some (ip, r')" "length body \<le> n" for body ip r' n
    using that int_part_shorter [OF that(1)] frac_part_le [of r'] exp_part_le [of "snd (frac_part r')"] by simp
  show "parse_number fr s = Inr (v, r) \<Longrightarrow> ?thesis"
    by (auto simp: parse_number_def Let_def split_beta dest!: * split: list.splits if_splits option.splits)
qed

lemma parse_word_shorter: "parse_word s = Some (v, r) \<Longrightarrow> length r < length s"
  by (auto simp: parse_word_def prefix_def split: if_splits)

lemma parse_items_shorter_if: "parse_items fr s = Inr (vs, r) \<Longrightarrow> length r < length s"
proof (induction "length s" arbitrary: s vs rule: less_induct)
  case less
  then obtain v r1 where r1: "length r1 < length s" and
    rest: "(case skip_ws r1 of [] \<Rightarrow> Inl JSONDecodeError | c # cs \<Rightarrow>
        if c = CHR '','' then rbind (parse_items fr (skip_ws cs)) (\<lambda>(vs, r'). Inr (v # vs, r'))
        else if c = CHR '']'' then Inr ([v], cs) else Inl JSONDecodeError) = Inr (vs, r)"
    by (auto simp: parse_items.simps [of fr s] rbind_eq_Inr_iff split: if_splits)
  then show ?case
  proof (cases "skip_ws r1")
    case (Cons c cs)
    then have "length cs < length r1" "length (skip_ws cs) < length s"
      using skip_ws_Cons [OF Cons] length_skip_ws [of cs] r1 by simp_all
    then show ?thesis
      using rest Cons r1 less.hyps [of "skip_ws cs"] by (fastforce simp: rbind_eq_Inr_iff split: if_splits)
  qed simp
qed

lemma parse_pairs_shorter_if: "parse_pairs fr s = Inr (ps, r) \<Longrightarrow> length r < length s"
proof (induction "length s" arbitrary: s ps rule: less_induct)
  case less
  then obtain k v r1 r2 where "parse_key s = Inr (k, r1)" "length r2 < length r1" and
    rest: "(case skip_ws r2 of [] \<Rightarrow> Inl JSONDecodeError | e # es \<Rightarrow>
        if e = CHR '','' then rbind (parse_pairs fr (skip_ws es)) (\<lambda>(ps, r'). Inr ((k, v) # ps, r'))
        else if e = CHR 0x7D then Inr ([(k, v)], es) else Inl JSONDecodeError) = Inr (ps, r)"
    by (auto simp: parse_pairs.simps [of fr s] rbind_eq_Inr_iff split: if_splits)
  then have r2: "length r2 < length s" by (fastforce dest: parse_key_shorter)
  show ?case
  proof (cases "skip_ws r2")
    case (Cons e es)
    then have "length es < length r2" "length (skip_ws es) < length s"
      using skip_ws_Cons [OF Cons] length_skip_ws [of es] r2 by simp_all
    then show ?thesis
      using rest Cons r2 less.hyps [of "skip_ws es"] by (fastforce simp: rbind_eq_Inr_iff split: if_splits)
  qed (use rest in simp)
qed

text \<open>So the tests on lengths in \<open>parse_items\<close> and \<open>parse_pairs\<close> never fail.\<close>

lemma parse_shorter:
  assumes "parse_value fr s = Inr (v, r)"
  shows "length r < length s"
proof -
  obtain c cs where s: "s = c # cs" using assms by (cases s) (auto simp: parse_value.simps)
  note step = assms [unfolded parse_value.simps [of fr s]]
  consider "c = CHR 0x22" | "c = CHR 0x7B" | "c = CHR ''[''" | "c \<noteq> CHR 0x22" "c \<noteq> CHR 0x7B" "c \<noteq> CHR ''[''" by blast
  then show ?thesis
  proof cases
    case 1
    then show ?thesis using step s by (auto simp: rbind_eq_Inr_iff dest: parse_string_shorter)
  next
    case 2
    then show ?thesis
      using step s by (auto simp: rbind_eq_Inr_iff split: list.splits if_splits dest!: skip_ws_Cons parse_pairs_shorter_if)
  next
    case 3
    then show ?thesis
      using step s by (auto simp: rbind_eq_Inr_iff split: list.splits if_splits dest!: skip_ws_Cons parse_items_shorter_if)
  next
    case 4
    then show ?thesis using step s by (auto split: option.splits dest: parse_word_shorter parse_number_shorter)
  qed
qed

section \<open>Strings are read back\<close>

lemma hex_val_hex_digit: "n < 16 \<Longrightarrow> hex_val (hex_digit n) = Some n"
proof -
  assume n: "n < 16"
  have "map hex_val ''0123456789abcdef'' = map Some [0..<16]"
    by (simp add: hex_val_def is_decimal_def upt_rec)
  then have "map hex_val ''0123456789abcdef'' ! n = map Some [0..<16] ! n" by (rule arg_cong)
  with n show ?thesis unfolding hex_digit_def by (subst (asm) (1 2) nth_map) simp_all
qed

lemma hex4_hex2: "hex4 (''00'' @ hex2 c) = Some (code c)"
proof -
  have "code c div 16 < 16" "code c mod 16 < 16" by (simp_all add: less_mult_imp_div_less code_less_256)
  moreover have "hex_val CHR ''0'' = Some 0" by (simp add: hex_val_def is_decimal_def)
  ultimately show ?thesis by (simp add: hex4_def hex2_def hex_val_hex_digit)
qed

lemma parse_json_char:
  "parse_string (json_char c @ s) = push c (parse_string s)"
proof (cases c rule: json_char_shape)
  case plain
  then have "32 \<le> code c" by (auto simp: json_char_def split: if_splits)
  then show ?thesis using plain by (simp add: parse_string.simps [of "c # s"])
next
  case (short e)
  then have "simple_escape e = Some c" by (auto simp: simple_escape_def)
  then show ?thesis using short(1,2) by (simp add: parse_string.simps [of "CHR 0x5C # e # s"])
next
  case unicode
  have "take 4 (''00'' @ hex2 c @ s) = ''00'' @ hex2 c" "drop 4 (''00'' @ hex2 c @ s) = s"
    by (simp_all add: take_Cons' drop_Cons')
  then show ?thesis
    using unicode hex4_hex2 [of c] code_less_256 [of c]
    by (simp add: parse_string.simps [of "CHR 0x5C # CHR ''u'' # CHR ''0'' # CHR ''0'' # hex2 c @ s"])
qed

lemma parse_json_raw_char: "parse_string (json_raw_char c @ s) = push c (parse_string s)"
proof (cases "127 \<le> code c")
  case True
  then have "c \<noteq> CHR 0x22" "c \<noteq> CHR 0x5C" by auto
  then show ?thesis using True by (simp add: json_raw_char_def parse_string.simps [of "c # s"])
qed (simp add: json_raw_char_def parse_json_char)

lemma parse_raw_body: "parse_string (concat (map json_raw_char s) @ CHR 0x22 # r) = Inr (s, r)"
  by (induction s) (simp_all add: parse_json_raw_char push_def, simp add: parse_string.simps)

lemma parse_body: "parse_string (concat (map json_char s) @ CHR 0x22 # r) = Inr (s, r)"
  by (induction s) (simp_all add: parse_json_char push_def, simp add: parse_string.simps)

end
