(* ===== verification/Json_Round.thy ===== *)
theory Json_Round
  imports Json_Loads
begin

text \<open>
  Reading back what \<open>json.dumps(value, indent=2, sort_keys=True, ensure_ascii=False)\<close> wrote: the same value with the
  keys of every object sorted.
\<close>

section \<open>Values that come from JSON\<close>

fun canon :: "pyval \<Rightarrow> pyval" where
  "canon (PList xs) = PList (map canon xs)"
| "canon (PDict d) = PDict (sort_key fst (map (\<lambda>(k, v). (k, canon v)) d))"
| "canon v = v"

text \<open>The grammar of a number that is read as a float.\<close>

definition digits :: "string \<Rightarrow> bool" where
  "digits s \<longleftrightarrow> s \<noteq> [] \<and> list_all is_decimal s"

definition int_text :: "string \<Rightarrow> bool" where
  "int_text s \<longleftrightarrow> s = ''0'' \<or> digits s \<and> hd s \<noteq> CHR ''0''"

definition frac_text :: "string \<Rightarrow> bool" where
  "frac_text s \<longleftrightarrow> s = [] \<or> (\<exists>ds. digits ds \<and> s = CHR ''.'' # ds)"

definition exp_text :: "string \<Rightarrow> bool" where
  "exp_text s \<longleftrightarrow>
     s = [] \<or> (\<exists>e sg ds. e \<in> {CHR ''e'', CHR ''E''} \<and> sg \<in> {[], ''+'', ''-''} \<and> digits ds \<and> s = e # sg @ ds)"

definition float_text :: "string \<Rightarrow> bool" where
  "float_text s \<longleftrightarrow>
     (\<exists>sg ip fp ep. sg \<in> {[], ''-''} \<and> int_text ip \<and> frac_text fp \<and> exp_text ep \<and> fp @ ep \<noteq> [] \<and> s = sg @ ip @ fp @ ep)"

fun json_ok :: "(string \<Rightarrow> string) \<Rightarrow> pyval \<Rightarrow> bool" where
  "json_ok fr (PInt i) \<longleftrightarrow> length (str_nat (nat \<bar>i\<bar>)) \<le> 4300"
| "json_ok fr (PFloat t) \<longleftrightarrow> t \<in> {''inf'', ''-inf'', ''nan''} \<or> float_text t \<and> fr t = t"
| "json_ok fr (PList xs) \<longleftrightarrow> list_all (json_ok fr) xs"
| "json_ok fr (PDict d) \<longleftrightarrow> distinct (map fst d) \<and> list_all (\<lambda>(k, v). json_ok fr v) d"
| "json_ok fr v \<longleftrightarrow> True"

text \<open>What \<open>repr(float(text))\<close> satisfies: it is \<open>inf\<close> or again such a number, and its own \<open>repr\<close>.\<close>

definition repr_float_law :: "(string \<Rightarrow> string) \<Rightarrow> bool" where
  "repr_float_law fr \<longleftrightarrow>
     (\<forall>t. float_text t \<longrightarrow> fr t \<in> {''inf'', ''-inf''} \<or> float_text (fr t) \<and> fr (fr t) = fr t)"

section \<open>Numbers are read back\<close>

definition stops :: "string \<Rightarrow> bool" where
  "stops r \<longleftrightarrow> r = [] \<or> \<not> is_decimal (hd r) \<and> hd r \<notin> {CHR ''.'', CHR ''e'', CHR ''E''}"

lemma take_digits:
  assumes "digits ds" "r = [] \<or> \<not> is_decimal (hd r)"
  shows "takeWhile is_decimal (ds @ r) = ds" "dropWhile is_decimal (ds @ r) = r"
  using assms by (cases r; auto simp: digits_def list_all_iff takeWhile_append2 dropWhile_append2 takeWhile_tail)+

lemma int_part_text: "int_text ip \<Longrightarrow> r = [] \<or> \<not> is_decimal (hd r) \<Longrightarrow> int_part (ip @ r) = Some (ip, r)"
  using take_digits [of ip r] by (cases ip) (auto simp: int_text_def int_part_def digits_def)

lemma frac_part_text: "frac_text fp \<Longrightarrow> r = [] \<or> \<not> is_decimal (hd r) \<and> hd r \<noteq> CHR ''.'' \<Longrightarrow> frac_part (fp @ r) = (fp, r)"
proof (cases "fp = []")
  case False
  assume "frac_text fp" and r: "r = [] \<or> \<not> is_decimal (hd r) \<and> hd r \<noteq> CHR ''.''"
  then obtain d ds where ds: "digits (d # ds)" "fp = CHR ''.'' # d # ds"
    using False by (auto simp: frac_text_def digits_def neq_Nil_conv)
  then show ?thesis using take_digits [of "d # ds" r] r by (auto simp: frac_part_def digits_def)
qed (auto simp: frac_part_def split: list.split)

lemma exp_part_text: "exp_text ep \<Longrightarrow> stops r \<Longrightarrow> exp_part (ep @ r) = (ep, r)"
proof (cases "ep = []")
  case True
  assume "stops r"
  then show ?thesis using True by (cases r) (auto simp: exp_part_def stops_def Let_def split_beta)
next
  case False
  assume "exp_text ep" and r: "stops r"
  then obtain e sg dd where dd: "e \<in> {CHR ''e'', CHR ''E''}" "sg \<in> {[], ''+'', ''-''}" "digits dd" "ep = e # sg @ dd"
    using False unfolding exp_text_def by blast
  then obtain d ds where "dd = d # ds" by (cases dd) (auto simp: digits_def)
  with dd have ep: "e \<in> {CHR ''e'', CHR ''E''}" "sg \<in> {[], ''+'', ''-''}" "digits (d # ds)" "ep = e # sg @ d # ds" by simp_all
  have "is_decimal d" using ep(3) by (simp add: digits_def)
  then have "d \<noteq> CHR ''+''" "d \<noteq> CHR ''-''" by (auto simp: is_decimal_def)
  then show ?thesis
    using ep take_digits [of "d # ds" r] r \<open>is_decimal d\<close> by (auto simp: exp_part_def stops_def)
qed

lemma int_text_head: "int_text ip \<Longrightarrow> ip \<noteq> [] \<and> is_decimal (hd ip)"
  by (auto simp: int_text_def digits_def is_decimal_def list_all_iff)

lemma part_heads:
  "frac_text fp \<Longrightarrow> fp \<noteq> [] \<Longrightarrow> hd fp = CHR ''.''"
  "exp_text ep \<Longrightarrow> ep \<noteq> [] \<Longrightarrow> hd ep \<in> {CHR ''e'', CHR ''E''}"
  by (auto simp: frac_text_def exp_text_def)

lemma parse_number_text:
  assumes "sg \<in> {[], ''-''}" "int_text ip" "frac_text fp" "exp_text ep" "stops r"
  shows "parse_number fr (sg @ ip @ fp @ ep @ r) =
    (if fp = [] \<and> ep = []
     then if 4300 < length ip then Inl IntTooLong
          else Inr (PInt (if sg = [] then int (int_of_digits ip) else - int (int_of_digits ip)), r)
     else Inr (PFloat (fr (sg @ ip @ fp @ ep)), r))"
proof -
  have "\<not> is_decimal CHR ''.''" "\<not> is_decimal CHR ''e''" "\<not> is_decimal CHR ''E''" by (simp_all add: is_decimal_def)
  then have ends: "ep @ r = [] \<or> \<not> is_decimal (hd (ep @ r)) \<and> hd (ep @ r) \<noteq> CHR ''.''"
    "fp @ ep @ r = [] \<or> \<not> is_decimal (hd (fp @ ep @ r))"
    using assms(5) part_heads(1) [of fp] part_heads(2) [of ep] assms(3,4)
    by (cases "ep = []"; cases "fp = []"; auto simp: stops_def)+
  have "hd ip \<noteq> CHR ''-''" using int_text_head [OF assms(2)] by (auto simp: is_decimal_def)
  then have sign: "(case sg @ ip @ fp @ ep @ r of c # cs \<Rightarrow> if c = CHR ''-'' then (''-'', cs) else ([], c # cs) | [] \<Rightarrow> ([], []))
      = (sg, ip @ fp @ ep @ r)"
    using assms(1) int_text_head [OF assms(2)] by (cases ip) auto
  show ?thesis
    using sign int_part_text [OF assms(2) ends(2)] frac_part_text [OF assms(3) ends(1)] exp_part_text [OF assms(4,5)]
    by (auto simp: parse_number_def Let_def split: list.split list.split_asm)
qed

lemma int_text_str_nat: "int_text (str_nat n)"
proof (cases "n = 0")
  case False
  then show ?thesis using hd_str_nat [of n] by (simp add: int_text_def digits_def str_nat_decimal)
qed (simp add: int_text_def digit_char_def)

lemma parse_value_number:
  assumes "sg \<in> {[], ''-''}" "int_text ip"
  shows "parse_value fr (sg @ ip @ x) = parse_number fr (sg @ ip @ x)"
proof -
  obtain d ds where ip: "ip = d # ds" "is_decimal d" using int_text_head [OF assms(2)] by (cases ip) auto
  then have d: "d \<notin> {CHR ''n'', CHR ''t'', CHR ''f'', CHR ''N'', CHR ''I'', CHR ''-'', CHR 0x22, CHR 0x7B, CHR ''[''}"
    by (auto simp: is_decimal_def)
  have "parse_word (sg @ ip @ x) = None" using assms(1) ip(1) d by (auto simp: parse_word_def)
  then show ?thesis using assms(1) ip(1) d by (auto simp: parse_value.simps [of fr "d # ds @ x"] parse_value.simps [of fr "CHR ''-'' # d # ds @ x"])
qed

lemma parse_int: "length (str_nat (nat \<bar>i\<bar>)) \<le> 4300 \<Longrightarrow> stops r \<Longrightarrow> parse_value fr (str_int i @ r) = Inr (PInt i, r)"
  using parse_value_number [of "if i < 0 then ''-'' else []" "str_nat (nat \<bar>i\<bar>)" fr r]
    parse_number_text [of "if i < 0 then ''-'' else []" "str_nat (nat \<bar>i\<bar>)" "[]" "[]" r fr] int_text_str_nat
  by (auto simp: str_int_def frac_text_def exp_text_def)

lemma parse_float_text: "float_text t \<Longrightarrow> fr t = t \<Longrightarrow> stops r \<Longrightarrow> parse_value fr (t @ r) = Inr (PFloat t, r)"
proof -
  assume "float_text t" "fr t = t" and r: "stops r"
  then obtain sg ip fp ep where t: "sg \<in> {[], ''-''}" "int_text ip" "frac_text fp" "exp_text ep" "fp @ ep \<noteq> []"
    "t = sg @ ip @ fp @ ep" "fr (sg @ ip @ fp @ ep) = sg @ ip @ fp @ ep" unfolding float_text_def by metis
  then show ?thesis
    using parse_value_number [OF t(1,2), of fr "fp @ ep @ r"] parse_number_text [OF t(1-4) r, of fr] by auto
qed

lemma float_text_head: "float_text t \<Longrightarrow> t \<noteq> [] \<and> (is_decimal (hd t) \<or> hd t = CHR ''-'')"
  by (auto simp: float_text_def dest!: int_text_head)

lemma float_text_no_word: "float_text t \<Longrightarrow> t \<notin> {''inf'', ''-inf'', ''nan''}"
proof
  assume t: "float_text t" "t \<in> {''inf'', ''-inf'', ''nan''}"
  then obtain sg ip x where "sg \<in> {[], ''-''}" "int_text ip" "t = sg @ ip @ x" unfolding float_text_def by metis
  then show False using t(2) int_text_head [of ip] by (cases ip) (auto simp: is_decimal_def)
qed

lemma parse_float_value: "json_ok fr (PFloat t) \<Longrightarrow> stops r \<Longrightarrow> parse_value fr (json_float t @ r) = Inr (PFloat t, r)"
  using parse_float_text [of t fr r] float_text_no_word [of t]
  by (auto simp: json_float_def parse_value.simps parse_word_def)

section \<open>Indented values are read back\<close>

definition starts :: "string \<Rightarrow> bool" where
  "starts s \<longleftrightarrow> s \<noteq> [] \<and> \<not> is_ws (hd s) \<and> hd s \<notin> {CHR '']'', CHR 0x7D, CHR '',''}"

lemma starts_append [simp]: "starts s \<Longrightarrow> starts (s @ r)"
  by (simp add: starts_def)

lemma starts_digit: "s \<noteq> [] \<Longrightarrow> is_decimal (hd s) \<or> hd s = CHR ''-'' \<Longrightarrow> starts s"
  by (auto simp: starts_def is_decimal_def is_ws_def)

lemma starts_json: "json_ok fr v \<Longrightarrow> starts (json_indent json_raw_str level v)"
proof (cases v)
  case (PInt i)
  have "is_decimal (hd (str_nat n))" for n using str_nat_decimal [of n] by (cases "str_nat n") auto
  then show ?thesis using PInt by (simp add: str_int_def starts_digit)
next
  case (PFloat t)
  assume ok: "json_ok fr v"
  show ?thesis
  proof (cases "float_text t")
    case True
    then have "json_float t = t" using float_text_no_word [OF True] by (simp add: json_float_def)
    then show ?thesis using PFloat starts_digit [of t] float_text_head [OF True] by simp
  next
    case False
    then show ?thesis using ok PFloat by (auto simp: json_float_def starts_def is_ws_def)
  qed
qed (auto simp: starts_def is_ws_def json_raw_str_def Let_def)

lemma skip_ws_indent: "starts s \<Longrightarrow> skip_ws (newline_indent level @ s) = s"
  "skip_ws (newline_indent level @ CHR '']'' # r) = CHR '']'' # r"
  "skip_ws (newline_indent level @ CHR 0x7D # r) = CHR 0x7D # r"
proof -
  have *: "skip_ws (newline_indent level @ c # cs) = c # cs" if "\<not> is_ws c" for c cs
    using that by (auto simp: skip_ws_def newline_indent_def is_ws_def dropWhile_append)
  show "starts s \<Longrightarrow> skip_ws (newline_indent level @ s) = s" by (cases s) (auto simp: starts_def *)
  show "skip_ws (newline_indent level @ CHR '']'' # r) = CHR '']'' # r"
    "skip_ws (newline_indent level @ CHR 0x7D # r) = CHR 0x7D # r" by (simp_all add: * is_ws_def)
qed

lemma skip_ws_starts: "starts s \<Longrightarrow> skip_ws s = s"
  by (cases s) (auto simp: starts_def skip_ws_def is_ws_def)

lemma skip_ws_comma: "skip_ws (CHR '','' # s) = CHR '','' # s"
  by (simp add: skip_ws_def is_ws_def)

lemma join_Cons: "join sep (x # xs) = x @ (if xs = [] then [] else sep @ join sep xs)"
  by (cases xs) auto

lemma stops_newline [simp]: "stops (newline_indent level @ r)" "stops (CHR '','' # r)"
  by (simp_all add: stops_def newline_indent_def is_decimal_def)

lemma parse_items_join:
  assumes "xs \<noteq> []"
    and "\<And>x r. x \<in> set xs \<Longrightarrow> stops r \<Longrightarrow> parse_value fr (f x @ r) = Inr (g x, r)"
    and "\<And>x. x \<in> set xs \<Longrightarrow> starts (f x)"
  shows "parse_items fr (join ('','' @ newline_indent m) (map f xs) @ newline_indent l @ CHR '']'' # r) = Inr (map g xs, r)"
  using assms
proof (induction xs)
  case (Cons x xs)
  let ?tail = "(if xs = [] then [] else '','' @ newline_indent m @ join ('','' @ newline_indent m) (map f xs))
    @ newline_indent l @ CHR '']'' # r"
  have shape: "join ('','' @ newline_indent m) (map f (x # xs)) @ newline_indent l @ CHR '']'' # r = f x @ ?tail"
    by (simp add: join_Cons)
  have val: "parse_value fr (f x @ ?tail) = Inr (g x, ?tail)" by (intro Cons.prems(2)) auto
  have len: "length ?tail < length (f x @ ?tail)" using Cons.prems(3) [of x] by (simp add: starts_def)
  show ?case
  proof (cases "xs = []")
    case True
    have "parse_items fr (f x @ ?tail) = Inr ([g x], r)"
      unfolding parse_items.simps [of fr "f x @ ?tail"] val using len True by (simp add: skip_ws_indent)
    then show ?thesis using shape True by simp
  next
    case False
    let ?next = "join ('','' @ newline_indent m) (map f xs) @ newline_indent l @ CHR '']'' # r"
    obtain y ys where "xs = y # ys" using False by (cases xs) auto
    then have "starts ?next" using Cons.prems(3) [of y] by (simp add: join_Cons)
    then have "skip_ws ?tail = CHR '','' # newline_indent m @ ?next" "skip_ws (newline_indent m @ ?next) = ?next"
      using False by (simp_all add: skip_ws_indent skip_ws_comma)
    moreover have "parse_items fr ?next = Inr (map g xs, r)" using Cons False by simp
    ultimately have "parse_items fr (f x @ ?tail) = Inr (g x # map g xs, r)"
      unfolding parse_items.simps [of fr "f x @ ?tail"] val using len by simp
    then show ?thesis using shape by simp
  qed
qed simp

lemma parse_key_text: "starts s \<Longrightarrow> parse_key (json_raw_str k @ '': '' @ s) = Inr (k, s)"
proof -
  assume "starts s"
  then have "skip_ws ('' '' @ s) = s" using skip_ws_starts [of s] by (simp add: skip_ws_def is_ws_def)
  moreover have "skip_ws ('': '' @ s) = CHR '':'' # '' '' @ s" by (simp add: skip_ws_def is_ws_def)
  ultimately show ?thesis using parse_raw_body [of k "'': '' @ s"] by (simp add: parse_key_def json_raw_str_def)
qed

lemma parse_pairs_join:
  assumes "d \<noteq> []"
    and "\<And>k v r. (k, v) \<in> set d \<Longrightarrow> stops r \<Longrightarrow> parse_value fr (f v @ r) = Inr (g v, r)"
    and "\<And>k v. (k, v) \<in> set d \<Longrightarrow> starts (f v)"
  shows "parse_pairs fr (join ('','' @ newline_indent m) (map (\<lambda>(k, v). json_raw_str k @ '': '' @ f v) d) @ newline_indent l @ CHR 0x7D # r)
    = Inr (map (\<lambda>(k, v). (k, g v)) d, r)"
  using assms
proof (induction d)
  case (Cons e d)
  obtain k v where e: "e = (k, v)" by (cases e)
  let ?t = "\<lambda>(k, v). json_raw_str k @ '': '' @ f v"
  let ?tail = "(if d = [] then [] else '','' @ newline_indent m @ join ('','' @ newline_indent m) (map ?t d))
    @ newline_indent l @ CHR 0x7D # r"
  have shape: "join ('','' @ newline_indent m) (map ?t (e # d)) @ newline_indent l @ CHR 0x7D # r =
      json_raw_str k @ '': '' @ f v @ ?tail"
    by (simp add: join_Cons e)
  have key: "parse_key (json_raw_str k @ '': '' @ f v @ ?tail) = Inr (k, f v @ ?tail)"
    using Cons.prems(3) [of k v] e by (intro parse_key_text) simp
  have val: "parse_value fr (f v @ ?tail) = Inr (g v, ?tail)" using e by (intro Cons.prems(2) [of k]) auto
  have len: "length ?tail < length (f v @ ?tail)" using Cons.prems(3) [of k v] e by (simp add: starts_def)
  show ?case
  proof (cases "d = []")
    case True
    have "parse_pairs fr (json_raw_str k @ '': '' @ f v @ ?tail) = Inr ([(k, g v)], r)"
      unfolding parse_pairs.simps [of fr "json_raw_str k @ '': '' @ f v @ ?tail"] key using val len True by (simp add: skip_ws_indent)
    then show ?thesis using shape True e by simp
  next
    case False
    let ?next = "join ('','' @ newline_indent m) (map ?t d) @ newline_indent l @ CHR 0x7D # r"
    obtain k' v' d' where "d = (k', v') # d'" using False by (cases d) auto
    then have "starts ?next" by (simp add: join_Cons starts_def json_raw_str_def is_ws_def)
    then have "skip_ws ?tail = CHR '','' # newline_indent m @ ?next" "skip_ws (newline_indent m @ ?next) = ?next"
      using False by (simp_all add: skip_ws_indent skip_ws_comma)
    moreover have "parse_pairs fr ?next = Inr (map (\<lambda>(k, v). (k, g v)) d, r)"
      by (rule Cons.IH) (use False in simp, (blast intro: Cons.prems(2,3) list.set_intros(2))+)
    ultimately have "parse_pairs fr (json_raw_str k @ '': '' @ f v @ ?tail) = Inr ((k, g v) # map (\<lambda>(k, v). (k, g v)) d, r)"
      unfolding parse_pairs.simps [of fr "json_raw_str k @ '': '' @ f v @ ?tail"] key using val len by simp
    then show ?thesis using shape e by simp
  qed
qed simp

section \<open>Sorting\<close>

lemma insort_key_map: "insort_key f (g x) (map g xs) = map g (insort_key (\<lambda>x. f (g x)) x xs)"
  by (induction xs) auto

lemma sort_key_map: "sort_key f (map g xs) = map g (sort_key (\<lambda>x. f (g x)) xs)"
  by (induction xs) (simp_all add: insort_key_map)

lemma sort_key_fst_map: "sort_key fst (map (\<lambda>(k, v). (k, h v)) d) = map (\<lambda>(k, v). (k, h v)) (sort_key fst d)"
  by (simp add: sort_key_map split_beta)

lemma dict_set_new: "k \<notin> fst ` set d \<Longrightarrow> dict_set d k v = d @ [(k, v)]"
  by (induction d k v rule: dict_set.induct) auto

lemma dict_of_distinct: "distinct (map fst d) \<Longrightarrow> dict_of d = d"
proof -
  have "distinct (map fst (a @ d)) \<Longrightarrow> foldl (\<lambda>d (k, v). dict_set d k v) a d = a @ d" for a
    by (induction d arbitrary: a) (auto simp: dict_set_new)
  then show "distinct (map fst d) \<Longrightarrow> ?thesis" by (simp add: dict_of_def)
qed

section \<open>Round trip\<close>

lemma parse_indent:
  "json_ok fr v \<Longrightarrow> stops r \<Longrightarrow> parse_value fr (json_indent json_raw_str level v @ r) = Inr (canon v, r)"
proof (induction v arbitrary: level r)
  case (PInt i)
  then show ?case by (simp add: parse_int)
next
  case (PFloat t)
  then show ?case by (simp add: parse_float_value del: json_ok.simps)
next
  case (PStr s)
  then show ?case by (simp add: json_raw_str_def parse_value.simps parse_raw_body)
next
  case (PList xs)
  show ?case
  proof (cases "xs = []")
    case True
    then show ?thesis by (simp add: parse_value.simps skip_ws_def is_ws_def)
  next
    case False
    let ?body = "join ('','' @ newline_indent (Suc level)) (map (json_indent json_raw_str (Suc level)) xs)
      @ newline_indent level @ CHR '']'' # r"
    have "parse_items fr ?body = Inr (map canon xs, r)"
      using PList False by (intro parse_items_join) (auto simp: list_all_iff intro: starts_json)
    moreover have "starts ?body"
      using PList.prems False by (cases xs) (auto simp: join_Cons intro!: starts_append intro: starts_json)
    ultimately show ?thesis
      using False skip_ws_indent(1) [of ?body "Suc level"]
      by (cases ?body) (auto simp: parse_value.simps [of fr "CHR ''['' # _"] starts_def)
  qed
next
  case (PDict d)
  show ?case
  proof (cases "d = []")
    case True
    then show ?thesis by (simp add: parse_value.simps skip_ws_def is_ws_def)
  next
    case False
    let ?d = "sort_key fst d"
    let ?t = "\<lambda>(k, v). json_raw_str k @ '': '' @ json_indent json_raw_str (Suc level) v"
    let ?body = "join ('','' @ newline_indent (Suc level)) (map ?t ?d) @ newline_indent level @ CHR 0x7D # r"
    have nonempty: "?d \<noteq> []" using False by (metis set_empty set_sort)
    have shape: "json_indent json_raw_str level (PDict d) @ r = CHR 0x7B # newline_indent (Suc level) @ ?body"
      using False by (simp add: Let_def sort_key_map comp_def case_prod_unfold)
    have "parse_pairs fr ?body = Inr (map (\<lambda>(k, v). (k, canon v)) ?d, r)"
      using PDict nonempty by (intro parse_pairs_join) (auto simp: list_all_iff intro: starts_json)
    moreover have "starts ?body"
      using nonempty by (cases ?d) (auto simp: join_Cons starts_def json_raw_str_def is_ws_def)
    moreover have "distinct (map fst (map (\<lambda>(k, v). (k, canon v)) ?d))"
      using PDict.prems(1) by (simp add: comp_def split_beta distinct_map)
    ultimately show ?thesis
      unfolding shape using skip_ws_indent(1) [of ?body "Suc level"]
      by (cases ?body) (auto simp: parse_value.simps [of fr "CHR 0x7B # _"] starts_def dict_of_distinct sort_key_fst_map)
  qed
qed (auto simp: parse_value.simps parse_word_def)

lemma loads_indent: "json_ok fr v \<Longrightarrow> json_loads fr (json_indent json_raw_str 0 v @ [CHR 0x0A]) = Inr (canon v)"
proof -
  assume ok: "json_ok fr v"
  have "stops [CHR 0x0A]" by (simp add: stops_def is_decimal_def)
  then show ?thesis
    using parse_indent [OF ok, of "[CHR 0x0A]" 0] skip_ws_starts [of "json_indent json_raw_str 0 v @ [CHR 0x0A]"] starts_json [OF ok]
    by (simp add: json_loads_def skip_ws_def is_ws_def)
qed

section \<open>What is read is a JSON value\<close>

lemma digits_takeWhile: "is_decimal c \<Longrightarrow> digits (c # takeWhile is_decimal cs)"
  by (auto simp: digits_def list_all_iff dest: set_takeWhileD)

lemma int_part_sound: "int_part s = Some (ip, r) \<Longrightarrow> int_text ip"
  by (cases s) (auto simp: int_part_def int_text_def digits_takeWhile split: if_splits)

lemma frac_part_sound: "frac_text (fst (frac_part s))"
  by (auto simp: frac_part_def frac_text_def digits_takeWhile split: list.splits)

lemma exp_part_sound: "exp_text (fst (exp_part s))"
proof -
  have *: "exp_text (e # sg @ takeWhile is_decimal ds)"
    if "e \<in> {CHR ''e'', CHR ''E''}" "sg \<in> {[], ''+'', ''-''}" "ds \<noteq> []" "is_decimal (hd ds)" for e sg ds
  proof -
    have "digits (takeWhile is_decimal ds)" using that(3,4) by (cases ds) (auto simp: digits_takeWhile)
    then show ?thesis using that(1,2) unfolding exp_text_def by blast
  qed
  have none: "exp_text []" by (simp add: exp_text_def)
  show ?thesis
  proof (cases s)
    case (Cons c cs)
    obtain sg ds where sg: "(case cs of d # ds' \<Rightarrow> if d = CHR ''+'' \<or> d = CHR ''-'' then ([d], ds') else ([], cs) | [] \<Rightarrow> ([], [])) = (sg, ds)"
      by fastforce
    then have "sg \<in> {[], ''+'', ''-''}" by (auto split: list.splits if_splits)
    then show ?thesis using Cons sg none * [of c sg ds] by (simp add: exp_part_def)
  qed (simp add: exp_part_def none)
qed

lemma length_int_text: "int_text ip \<Longrightarrow> length (str_nat (int_of_digits ip)) \<le> length ip"
  using int_of_digits_less [of ip] by (intro length_str_nat_le) (auto simp: int_text_def digits_def is_decimal_def)

lemma parse_number_ok:
  assumes "repr_float_law fr" "parse_number fr s = Inr (v, r)"
  shows "json_ok fr v"
proof -
  obtain sg body where sg: "(case s of c # cs \<Rightarrow> if c = CHR ''-'' then (''-'', cs) else ([], s) | [] \<Rightarrow> ([], [])) = (sg, body)"
    by fastforce
  then have sg': "sg \<in> {[], ''-''}" by (auto split: list.splits if_splits)
  obtain ip r1 where ip: "int_part body = Some (ip, r1)"
    using assms(2) sg by (cases "int_part body") (auto simp: parse_number_def Let_def)
  obtain fp r2 ep r3 where parts: "frac_part r1 = (fp, r2)" "exp_part r2 = (ep, r3)" by fastforce
  have texts: "int_text ip" "frac_text fp" "exp_text ep"
    using int_part_sound [OF ip] frac_part_sound [of r1] exp_part_sound [of r2] parts by auto
  have res: "(if fp = [] \<and> ep = []
      then if 4300 < length ip then Inl IntTooLong
           else Inr (PInt (if sg = [] then int (int_of_digits ip) else - int (int_of_digits ip)), r3)
      else Inr (PFloat (fr (sg @ ip @ fp @ ep)), r3)) = Inr (v, r)"
    using assms(2) sg ip parts by (simp add: parse_number_def Let_def)
  show ?thesis
  proof (cases "fp = [] \<and> ep = []")
    case True
    then show ?thesis using res length_int_text [OF texts(1)] by (auto split: if_splits)
  next
    case False
    then have "float_text (sg @ ip @ fp @ ep)" using texts sg' unfolding float_text_def by blast
    then show ?thesis using res False assms(1) unfolding repr_float_law_def by auto
  qed
qed

lemma parse_word_ok: "parse_word s = Some (v, r) \<Longrightarrow> json_ok fr v"
  by (auto simp: parse_word_def split: if_splits)

lemma in_dict_set: "e \<in> set (dict_set d k v) \<Longrightarrow> e \<in> set d \<or> e = (k, v)"
  by (induction d k v rule: dict_set.induct) (auto split: if_splits)

lemma set_dict_of: "set (dict_of d) \<subseteq> set d"
proof -
  have "set (foldl (\<lambda>d (k, v). dict_set d k v) a d) \<subseteq> set a \<union> set d" for a
    by (induction d arbitrary: a) (fastforce dest: in_dict_set)+
  then show ?thesis by (fastforce simp: dict_of_def)
qed

lemma parsed_ok:
  "repr_float_law fr \<Longrightarrow> parse_value fr s = Inr (v, r) \<Longrightarrow> json_ok fr v"
  "repr_float_law fr \<Longrightarrow> parse_items fr s = Inr (vs, r) \<Longrightarrow> list_all (json_ok fr) vs"
  "repr_float_law fr \<Longrightarrow> parse_pairs fr s = Inr (ps, r) \<Longrightarrow> list_all (\<lambda>(k, v). json_ok fr v) ps"
proof (induction fr s and fr s and fr s arbitrary: v r and vs r and ps r rule: parse_value_parse_items_parse_pairs.induct)
  case (1 fr s)
  obtain c cs where s: "s = c # cs" using 1 by (cases s) (auto simp: parse_value.simps)
  note res = 1(4) [unfolded parse_value.simps [of fr s]]
  consider "c = CHR 0x22" | "c = CHR 0x7B" | "c = CHR ''[''" | "c \<noteq> CHR 0x22" "c \<noteq> CHR 0x7B" "c \<noteq> CHR ''[''" by blast
  then show ?case
  proof cases
    case 1
    then show ?thesis using res s by (auto simp: rbind_eq_Inr_iff)
  next
    case c: 2
    have "json_ok fr (PDict (dict_of ps))" if "list_all (\<lambda>(k, v). json_ok fr v) ps" for ps
      using that set_dict_of [of ps] by (auto simp: distinct_dict_of list_all_iff)
    then show ?thesis
      using res s c 1(1,3) by (auto simp: rbind_eq_Inr_iff split: list.splits if_splits)
  next
    case 3
    then show ?thesis using res s 1(2,3) by (auto simp: rbind_eq_Inr_iff split: list.splits if_splits)
  next
    case 4
    then show ?thesis
      using res s parse_word_ok parse_number_ok [OF 1(3)] by (auto split: option.splits)
  qed
next
  case (2 fr s)
  obtain v r1 where v: "parse_value fr s = Inr (v, r1)" "length r1 < length s" and
    rest: "(case skip_ws r1 of [] \<Rightarrow> Inl JSONDecodeError | c # cs \<Rightarrow>
        if c = CHR '','' then rbind (parse_items fr (skip_ws cs)) (\<lambda>(vs, r'). Inr (v # vs, r'))
        else if c = CHR '']'' then Inr ([v], cs) else Inl JSONDecodeError) = Inr (vs, r)"
    using 2(4) by (auto simp: parse_items.simps [of fr s] rbind_eq_Inr_iff split: if_splits)
  have "json_ok fr v" using 2(1) [OF 2(3) v(1)] .
  then show ?case
    using rest 2(2) [OF v(1) refl v(2)] 2(3) by (cases "skip_ws r1") (auto simp: rbind_eq_Inr_iff split: if_splits)
next
  case (3 fr s)
  obtain k v r1 r2 where k: "parse_key s = Inr (k, r1)" "parse_value fr r1 = Inr (v, r2)" "length r2 < length r1" and
    rest: "(case skip_ws r2 of [] \<Rightarrow> Inl JSONDecodeError | e # es \<Rightarrow>
        if e = CHR '','' then rbind (parse_pairs fr (skip_ws es)) (\<lambda>(ps, r'). Inr ((k, v) # ps, r'))
        else if e = CHR 0x7D then Inr ([(k, v)], es) else Inl JSONDecodeError) = Inr (ps, r)"
    using 3(4) by (auto simp: parse_pairs.simps [of fr s] rbind_eq_Inr_iff split: if_splits)
  have "json_ok fr v" using 3(1) [OF k(1) refl 3(3) k(2)] .
  then show ?case
    using rest 3(2) [OF k(1) refl k(2) refl k(3)] 3(3) by (cases "skip_ws r2") (auto simp: rbind_eq_Inr_iff split: if_splits)
qed

lemma loads_ok: "repr_float_law fr \<Longrightarrow> json_loads fr s = Inr v \<Longrightarrow> json_ok fr v"
  by (auto simp: json_loads_def rbind_eq_Inr_iff split: if_splits dest: parsed_ok(1))

end
