(* ===== verification/Py_Address.thy ===== *)
theory Py_Address
  imports Json_Round
begin

text \<open>
  Places in a JSON value.  An address is a sequence of keys and indices; \<open>reached skip\<close> relates a value to what stands at an
  address of it when the entries that \<open>skip\<close> selects (by the dotted path of the object, the key and the value) are
  not entered.  The specifications of the scripts speak of places, independently of the recursions in the code.
\<close>

datatype addr_step = Key string | Item nat

type_synonym address = "addr_step list"

text \<open>The path of an entry: the keys above it, joined by dots.\<close>

definition below_key :: "string \<Rightarrow> string \<Rightarrow> string" where
  "below_key path k = (if path = [] then k else path @ [CHR ''.''] @ k)"

inductive reached :: "(string \<Rightarrow> string \<Rightarrow> pyval \<Rightarrow> bool) \<Rightarrow> string \<Rightarrow> address \<Rightarrow> pyval \<Rightarrow> pyval \<Rightarrow> bool" for skip where
  here: "reached skip path [] v v"
| in_dict: "(k, v) \<in> set d \<Longrightarrow> \<not> skip path k v \<Longrightarrow> reached skip (below_key path k) a v w \<Longrightarrow> reached skip path (Key k # a) (PDict d) w"
| in_list: "i < length vs \<Longrightarrow> reached skip path a (vs ! i) w \<Longrightarrow> reached skip path (Item i # a) (PList vs) w"

inductive_cases reached_dictE: "reached skip path a (PDict d) w"
inductive_cases reached_listE: "reached skip path a (PList vs) w"

inductive_simps reached_simps [simp]:
  "reached skip path [] v w"
  "reached skip path (Key k # a) (PDict d) w"
  "reached skip path (Item i # a) (PList vs) w"
  "reached skip path (Key k # a) (PList vs) w"
  "reached skip path (Item i # a) (PDict d) w"
  "reached skip path (s # a) PNone w"
  "reached skip path (s # a) (PBool b) w"
  "reached skip path (s # a) (PInt n) w"
  "reached skip path (s # a) (PFloat t) w"
  "reached skip path (s # a) (PStr x) w"

definition value_at :: "address \<Rightarrow> pyval \<Rightarrow> pyval \<Rightarrow> bool" where
  "value_at = reached (\<lambda>_ _ _. False) []"

lemma reached_all_path: "reached (\<lambda>_ _ _. False) p a v w \<Longrightarrow> reached (\<lambda>_ _ _. False) q a v w"
  by (induction arbitrary: q rule: reached.induct) (auto intro: reached.intros)

lemma value_at_path: "value_at a v w \<longleftrightarrow> reached (\<lambda>_ _ _. False) p a v w"
  unfolding value_at_def using reached_all_path by blast

lemma value_at_simps [simp]:
  "value_at [] v w \<longleftrightarrow> w = v"
  "value_at (Key k # a) (PDict d) w \<longleftrightarrow> (\<exists>v. (k, v) \<in> set d \<and> value_at a v w)"
  "value_at (Item i # a) (PList vs) w \<longleftrightarrow> i < length vs \<and> value_at a (vs ! i) w"
  "\<not> value_at (Key k # a) (PList vs) w" "\<not> value_at (Item i # a) (PDict d) w"
  "\<not> value_at (s # a) PNone w" "\<not> value_at (s # a) (PBool b) w" "\<not> value_at (s # a) (PInt n) w"
  "\<not> value_at (s # a) (PFloat t) w" "\<not> value_at (s # a) (PStr x) w"
  using value_at_path by (auto simp: value_at_def) blast+

lemma value_at_scalar: "value_at a v (PStr s) \<Longrightarrow> v \<in> {PNone, PBool b, PInt n, PFloat t} \<Longrightarrow> P"
  by (cases a) auto

text \<open>A string value somewhere in a value; keys are not values.\<close>

definition string_in :: "pyval \<Rightarrow> string \<Rightarrow> bool" where
  "string_in v s \<longleftrightarrow> (\<exists>a. value_at a v (PStr s))"

lemma string_in_PDict: "string_in (PDict d) s \<longleftrightarrow> (\<exists>k v. (k, v) \<in> set d \<and> string_in v s)"
proof
  assume "string_in (PDict d) s"
  then obtain a where a: "value_at a (PDict d) (PStr s)" by (auto simp: string_in_def)
  then obtain k b where "a = Key k # b" by (cases a rule: list.exhaust; cases "hd a") auto
  then show "\<exists>k v. (k, v) \<in> set d \<and> string_in v s" using a by (auto simp: string_in_def)
next
  assume "\<exists>k v. (k, v) \<in> set d \<and> string_in v s"
  then obtain k v a where "(k, v) \<in> set d" "value_at a v (PStr s)" by (auto simp: string_in_def)
  then have "value_at (Key k # a) (PDict d) (PStr s)" by auto
  then show "string_in (PDict d) s" unfolding string_in_def by blast
qed

lemma string_in_PList: "string_in (PList vs) s \<longleftrightarrow> (\<exists>v \<in> set vs. string_in v s)"
proof
  assume "string_in (PList vs) s"
  then obtain a where a: "value_at a (PList vs) (PStr s)" by (auto simp: string_in_def)
  then obtain i b where "a = Item i # b" by (cases a rule: list.exhaust; cases "hd a") auto
  then show "\<exists>v \<in> set vs. string_in v s" using a by (auto simp: string_in_def intro: nth_mem)
next
  assume "\<exists>v \<in> set vs. string_in v s"
  then obtain i a where "i < length vs" "value_at a (vs ! i) (PStr s)" by (auto simp: string_in_def in_set_conv_nth)
  then have "value_at (Item i # a) (PList vs) (PStr s)" by simp
  then show "string_in (PList vs) s" unfolding string_in_def by blast
qed

lemma string_in_scalar [simp]:
  "string_in (PStr x) s \<longleftrightarrow> s = x" "\<not> string_in PNone s" "\<not> string_in (PBool b) s" "\<not> string_in (PInt n) s" "\<not> string_in (PFloat t) s"
proof -
  show "string_in (PStr x) s \<longleftrightarrow> s = x"
  proof
    assume "string_in (PStr x) s"
    then obtain a where "value_at a (PStr x) (PStr s)" by (auto simp: string_in_def)
    then show "s = x" by (cases a) auto
  next
    assume "s = x"
    then have "value_at [] (PStr x) (PStr s)" by simp
    then show "string_in (PStr x) s" unfolding string_in_def by blast
  qed
qed (auto simp: string_in_def elim: value_at_scalar)

section \<open>Values with the same places\<close>

text \<open>What stands at a place, without what is below it.\<close>

fun outer :: "pyval \<Rightarrow> pyval" where
  "outer (PDict d) = PDict []"
| "outer (PList vs) = PList []"
| "outer v = v"

text \<open>\<open>w\<close> is \<open>v\<close> without the skipped entries: at every address the same scalar or the same kind of container.\<close>

definition copy_without :: "(string \<Rightarrow> string \<Rightarrow> pyval \<Rightarrow> bool) \<Rightarrow> pyval \<Rightarrow> pyval \<Rightarrow> bool" where
  "copy_without skip v w \<longleftrightarrow>
     (\<forall>a x. (\<exists>y. value_at a w y \<and> outer y = x) \<longleftrightarrow> (\<exists>y. reached skip [] a v y \<and> outer y = x))"

fun keys_sorted :: "pyval \<Rightarrow> bool" where
  "keys_sorted (PDict d) \<longleftrightarrow> sorted (map fst d) \<and> list_all (\<lambda>(k, v). keys_sorted v) d"
| "keys_sorted (PList vs) \<longleftrightarrow> list_all keys_sorted vs"
| "keys_sorted v \<longleftrightarrow> True"

lemma keys_sorted_canon: "keys_sorted (canon v)"
  by (induction v rule: canon.induct) (auto simp: list_all_iff)

lemma outer_canon [simp]: "outer (canon v) = outer v"
  by (cases v) auto

lemma value_at_canon: "value_at a (canon v) w \<longleftrightarrow> (\<exists>y. value_at a v y \<and> w = canon y)"
proof (induction a arbitrary: v)
  case (Cons s a)
  show ?case
  proof (cases v)
    case (PDict d)
    have entries: "(k, u) \<in> set (sort_key fst (map (\<lambda>(k, v). (k, canon v)) d)) \<longleftrightarrow> (\<exists>v. (k, v) \<in> set d \<and> u = canon v)" for k u
      by auto
    show ?thesis
    proof (cases s)
      case (Key k)
      have "value_at (s # a) (canon v) w \<longleftrightarrow> (\<exists>u. (k, u) \<in> set d \<and> value_at a (canon u) w)"
        unfolding Key PDict canon.simps value_at_simps entries by blast
      then show ?thesis unfolding Cons.IH Key PDict value_at_simps by blast
    qed (simp add: PDict)
  next
    case (PList vs)
    then show ?thesis using Cons by (cases s) auto
  qed auto
qed auto

end
