(* ===== verification/Py_Files.thy ===== *)
theory Py_Files
  imports Py_Path "HOL-Library.List_Lexorder" "HOL-Library.Char_ord" "HOL-Library.Multiset"
begin

text \<open>
  What the scripts use of text files and of directory listings.  A text file is its decoded text with the
  line ends it has on disk, or the exception that opening or decoding it raises.  A listing has one entry
  per file and per directory, in the order in which the file system happens to enumerate them.  Paths are spelled as the
  command line spells them.
\<close>

section \<open>Text files\<close>

type_synonym text_files = "path \<rightharpoonup> py_error + string"

text \<open>\<open>read_text\<close> translates line ends.\<close>

fun universal_newlines :: "string \<Rightarrow> string" where
  "universal_newlines [] = []"
| "universal_newlines (c # cs) =
     (if c = CHR 0x0D
      then CHR 0x0A # universal_newlines (if cs \<noteq> [] \<and> hd cs = CHR 0x0A then tl cs else cs)
      else c # universal_newlines cs)"

definition read_text :: "text_files \<Rightarrow> path \<Rightarrow> py_error + string" where
  "read_text files p =
     (case files p of
        None \<Rightarrow> Inl FileNotFoundError
      | Some (Inl e) \<Rightarrow> Inl e
      | Some (Inr s) \<Rightarrow> Inr (universal_newlines s))"

text \<open>\<open>write_text(s, newline="\n")\<close>; the paths that cannot be opened for writing are \<open>denied\<close>.\<close>

definition write_text :: "(path \<Rightarrow> bool) \<Rightarrow> path \<Rightarrow> string \<Rightarrow> text_files \<Rightarrow> unit res \<times> text_files" where
  "write_text denied p s files = (if denied p then (Inl OSError, files) else (Inr (), files(p \<mapsto> Inr s)))"

lemma newlines_no_cr: "CHR 0x0D \<notin> set (universal_newlines s)"
  by (induction s rule: universal_newlines.induct) auto

lemma newlines_id: "CHR 0x0D \<notin> set s \<Longrightarrow> universal_newlines s = s"
  by (induction s rule: universal_newlines.induct) auto

lemma read_written: "CHR 0x0D \<notin> set s \<Longrightarrow> read_text (files(p \<mapsto> Inr s)) p = Inr s"
  by (simp add: read_text_def newlines_id)

lemma read_local: "files p = files' p \<Longrightarrow> read_text files p = read_text files' p"
  by (simp add: read_text_def)

section \<open>Listings\<close>

datatype entry_kind = RegularFile | Directory

type_synonym listing = "(path \<times> entry_kind) list"

definition listed_dir :: "listing \<Rightarrow> path \<Rightarrow> bool" where
  "listed_dir tree p \<longleftrightarrow> (p, Directory) \<in> set tree"

definition listed_file :: "listing \<Rightarrow> path \<Rightarrow> bool" where
  "listed_file tree p \<longleftrightarrow> (p, RegularFile) \<in> set tree"

text \<open>One component of a pattern: a star stands for any characters, every other character for itself.\<close>

fun glob_name :: "string \<Rightarrow> string \<Rightarrow> bool" where
  "glob_name [] s \<longleftrightarrow> s = []"
| "glob_name (c # cs) s \<longleftrightarrow>
     (if c = CHR ''*'' then list_ex (\<lambda>n. glob_name cs (drop n s)) [0..<Suc (length s)]
      else s \<noteq> [] \<and> hd s = c \<and> glob_name cs (tl s))"

definition below :: "path \<Rightarrow> path \<Rightarrow> path" where
  "below d p = drop (length d) p"

text \<open>\<open>d.glob("a/b/c")\<close> and \<open>d.rglob(pattern)\<close>.\<close>

definition glob :: "listing \<Rightarrow> path \<Rightarrow> string list \<Rightarrow> path list" where
  "glob tree d patterns =
     filter (\<lambda>p. prefix d p \<and> list_all2 glob_name patterns (below d p)) (map fst tree)"

definition rglob :: "listing \<Rightarrow> path \<Rightarrow> string \<Rightarrow> path list" where
  "rglob tree d pattern =
     filter (\<lambda>p. strict_prefix d p \<and> glob_name pattern (last p)) (map fst tree)"

lemmas files_defs [eval_simps] =
  read_text_def write_text_def listed_dir_def listed_file_def below_def glob_def rglob_def

section \<open>Facts on listings\<close>

lemma glob_star: "glob_name (CHR ''*'' # ext) s \<longleftrightarrow> (\<exists>stem rest. s = stem @ rest \<and> glob_name ext rest)"
proof
  assume "glob_name (CHR ''*'' # ext) s"
  then obtain n where "glob_name ext (drop n s)" unfolding glob_name.simps list_ex_iff by (auto simp del: upt_Suc)
  then show "\<exists>stem rest. s = stem @ rest \<and> glob_name ext rest" by (metis append_take_drop_id)
next
  assume "\<exists>stem rest. s = stem @ rest \<and> glob_name ext rest"
  then obtain stem rest where "s = stem @ rest" "glob_name ext rest" by blast
  then have "glob_name ext (drop (length stem) s)" "length stem \<le> length s" by simp_all
  then show "glob_name (CHR ''*'' # ext) s"
    unfolding glob_name.simps list_ex_iff by (auto simp: less_Suc_eq_le simp del: upt_Suc)
qed

lemma glob_literal: "CHR ''*'' \<notin> set pattern \<Longrightarrow> glob_name pattern s \<longleftrightarrow> s = pattern"
  by (induction pattern s rule: glob_name.induct) (auto simp: neq_Nil_conv)

lemma glob_suffix: "CHR ''*'' \<notin> set ext \<Longrightarrow> glob_name (CHR ''*'' # ext) s \<longleftrightarrow> suffix ext s"
  by (auto simp: glob_star glob_literal suffix_def simp del: glob_name.simps)

lemma json_pattern: "glob_name ''*.json'' s \<longleftrightarrow> suffix ''.json'' s"
  by (rule glob_suffix) simp

text \<open>Sorting makes the order of enumeration irrelevant.\<close>

lemma sort_perm: "mset xs = mset ys \<Longrightarrow> sort xs = sort ys"
  by (rule properties_for_sort) simp_all

lemma sort_filter_perm:
  assumes "mset tree = mset tree'"
  shows "sort (filter P (map fst tree)) = sort (filter P (map fst tree'))"
proof (rule sort_perm)
  show "mset (filter P (map fst tree)) = mset (filter P (map fst tree'))"
    by (simp only: mset_filter mset_map assms)
qed

lemma listed_perm:
  "mset tree = mset tree' \<Longrightarrow> listed_dir tree = listed_dir tree'"
  "mset tree = mset tree' \<Longrightarrow> listed_file tree = listed_file tree'"
  unfolding listed_dir_def listed_file_def by (drule mset_eq_setD, simp)+

end
