(* ===== verification/File_Runs.thy ===== *)
theory File_Runs
  imports Py_Prelude
begin

text \<open>
  The loop that \<open>sanitize_workflows.py\<close> and \<open>sync_snippets.py\<close> share: for every target a step that
  looks at that file only and either fails and leaves it alone, or rewrites it; a failure that is caught raises a flag and the
  loop goes on, another one ends the program.  The locale states this contract; its lemmas say what a whole
  run does to the files, whatever the order and the repetitions of the targets, and what a second run does.
\<close>

locale file_loop =
  fixes step :: "'p \<Rightarrow> ('p \<Rightarrow> 'x) \<Rightarrow> ('e + 'r) \<times> ('p \<Rightarrow> 'x)"
    and caught :: "'e \<Rightarrow> bool"
    and good :: "'a \<Rightarrow> 'r \<Rightarrow> 'a"
    and bad :: "'a \<Rightarrow> 'a"
    and flag :: "'a \<Rightarrow> bool"
    and loop :: "'p list \<Rightarrow> 'a \<Rightarrow> ('p \<Rightarrow> 'x) \<Rightarrow> 'a option \<times> ('p \<Rightarrow> 'x)"
  assumes step_frame: "step p files = (res, files') \<Longrightarrow> q \<noteq> p \<Longrightarrow> files' q = files q"
    and step_local:
      "files p = other p \<Longrightarrow> fst (step p files) = fst (step p other) \<and> snd (step p files) p = snd (step p other) p"
    and step_failed: "step p files = (Inl e, files') \<Longrightarrow> files' = files"
    and loop_Nil: "loop [] a files = (Some a, files)"
    and loop_Cons:
      "loop (p # ps) a files =
         (case step p files of
            (Inr r, files') \<Rightarrow> loop ps (good a r) files'
          | (Inl e, files') \<Rightarrow> if caught e then loop ps (bad a) files' else (None, files'))"
    and flag_good: "flag (good a x) = flag a"
    and flag_bad: "flag (bad a)"
    and bad_bad: "bad (bad a) = bad a"
begin

definition ends_run :: "'p \<Rightarrow> ('p \<Rightarrow> 'x) \<Rightarrow> bool" where
  "ends_run p files \<longleftrightarrow> (\<exists>e. fst (step p files) = Inl e \<and> \<not> caught e)"

definition fails :: "'p \<Rightarrow> ('p \<Rightarrow> 'x) \<Rightarrow> bool" where
  "fails p files \<longleftrightarrow> isl (fst (step p files))"

text \<open>A second step on the file succeeds, reports nothing and changes nothing.\<close>

definition stable :: "'p \<Rightarrow> bool" where
  "stable p \<longleftrightarrow>
     (\<forall>files r files'. step p files = (Inr r, files') \<longrightarrow> (\<exists>r'. step p files' = (Inr r', files') \<and> (\<forall>a. good a r' = a)))"

text \<open>The file is as a step leaves it.\<close>

definition settled :: "('p \<Rightarrow> 'x) \<Rightarrow> 'p \<Rightarrow> bool" where
  "settled files p \<longleftrightarrow>
     (\<exists>r. step p files = (r, files) \<and> (case r of Inl e \<Rightarrow> caught e | Inr r' \<Rightarrow> \<forall>a. good a r' = a))"

lemma step_eqI: "files p = other p \<Longrightarrow> step p files = (r, files) \<Longrightarrow> step p other = (r, other)"
proof -
  assume same: "files p = other p" and step: "step p files = (r, files)"
  obtain r' other' where step': "step p other = (r', other')" by fastforce
  have r: "r' = r" and p: "other' p = other p" using step_local [of files p other] step step' same by simp_all
  have "other' q = other q" for q using p step_frame [OF step'] by (cases "q = p") simp_all
  then show ?thesis using step' r by auto
qed

lemma settled_local: "files p = other p \<Longrightarrow> settled files p \<Longrightarrow> settled other p"
  unfolding settled_def using step_eqI by blast

lemma step_settles:
  assumes "stable p" "step p files = (r, files')" "\<not> ends_run p files"
  shows "settled files' p"
proof (cases r)
  case (Inl e)
  then have "files' = files" "caught e" using assms(2,3) step_failed by (auto simp: ends_run_def)
  then show ?thesis using assms(2) Inl by (auto simp: settled_def)
next
  case (Inr x)
  then obtain r' where "step p files' = (Inr r', files')" "\<forall>a. good a r' = a"
    using assms(1,2) unfolding stable_def by blast
  then show ?thesis by (auto simp: settled_def)
qed

lemma settled_step: "settled files p \<Longrightarrow> step q files = (r, files') \<Longrightarrow> settled files' p"
proof (cases "q = p")
  case True
  assume "settled files p" "step q files = (r, files')"
  then show ?thesis using True by (auto simp: settled_def)
next
  case False
  assume "settled files p" "step q files = (r, files')"
  then show ?thesis using settled_local step_frame False by metis
qed

lemma loop_cases:
  assumes "loop (p # ps) a files = (Some b, files')"
  obtains r files1 a1 where "step p files = (r, files1)" "\<not> ends_run p files" "loop ps a1 files1 = (Some b, files')"
    "flag a1 \<longleftrightarrow> flag a \<or> fails p files"
proof (cases "step p files")
  case (Pair r files1)
  then show thesis
    using assms that
    by (cases r) (auto simp: loop_Cons ends_run_def fails_def flag_good flag_bad split: if_splits)
qed

lemma loop_frame: "q \<notin> set ps \<Longrightarrow> snd (loop ps a files) q = files q"
proof (induction ps arbitrary: a files)
  case (Cons p ps)
  obtain r files1 where step: "step p files = (r, files1)" by fastforce
  then show ?case using Cons step_frame [OF step] by (cases r) (auto simp: loop_Cons)
qed (simp add: loop_Nil)

lemma settled_loop: "settled files p \<Longrightarrow> loop ps a files = (Some b, files') \<Longrightarrow> settled files' p"
proof (induction ps arbitrary: a files)
  case (Cons q ps)
  from Cons.prems(2) obtain r files1 a1 where "step q files = (r, files1)" "loop ps a1 files1 = (Some b, files')"
    by (rule loop_cases)
  then show ?case using Cons settled_step by blast
qed (simp add: loop_Nil)

lemma loop_settles: "\<forall>p \<in> set ps. stable p \<Longrightarrow> loop ps a files = (Some b, files') \<Longrightarrow> \<forall>p \<in> set ps. settled files' p"
proof (induction ps arbitrary: a files)
  case (Cons p ps)
  from Cons.prems(2) obtain r files1 a1 where run: "step p files = (r, files1)" "\<not> ends_run p files"
      "loop ps a1 files1 = (Some b, files')"
    by (rule loop_cases)
  then have "settled files1 p" using step_settles Cons.prems(1) by simp
  then show ?case using Cons run settled_loop by auto
qed simp

text \<open>Every target ends as one step on its original text leaves it, so neither order nor repetition matters.\<close>

lemma settled_step_same: "settled files p \<Longrightarrow> snd (step p files) = files"
  by (auto simp: settled_def)

lemma step_result_kept:
  assumes "\<forall>p \<in> set ps. stable p" "loop ps a files = (Some b, files')" "p \<in> set ps"
  shows "files' p = snd (step p files) p" "fails p files' \<longleftrightarrow> fails p files" "\<not> ends_run p files"
proof -
  have "files' p = snd (step p files) p \<and> (fails p files' \<longleftrightarrow> fails p files) \<and> \<not> ends_run p files"
    using assms
  proof (induction ps arbitrary: a files)
    case (Cons q ps)
    from Cons.prems(2) obtain r files1 a1 where run: "step q files = (r, files1)" "\<not> ends_run q files"
        "loop ps a1 files1 = (Some b, files')"
      by (rule loop_cases)
    show ?case
    proof (cases "p = q")
      case True
      have settled: "settled files1 p" using step_settles [OF _ run(1,2)] Cons.prems(1) True by simp
      have keep: "files' p = files1 p"
      proof (cases "p \<in> set ps")
        case True
        then show ?thesis using Cons.IH [OF _ run(3)] Cons.prems(1) settled_step_same [OF settled] by simp
      next
        case False
        then show ?thesis using loop_frame [of p ps a1 files1] run(3) by simp
      qed
      have "isl (fst (step p files1)) = isl r"
      proof (cases r)
        case (Inl e)
        then show ?thesis using step_failed run(1) True by fastforce
      next
        case (Inr x)
        then show ?thesis using run(1) Cons.prems(1) True unfolding stable_def by fastforce
      qed
      moreover have "fst (step p files') = fst (step p files1)" using step_local keep by blast
      ultimately show ?thesis using keep run(1,2) True by (simp add: fails_def)
    next
      case False
      then have same: "files1 p = files p" using step_frame [OF run(1)] by simp
      have "files' p = snd (step p files1) p \<and> (fails p files' \<longleftrightarrow> fails p files1) \<and> \<not> ends_run p files1"
        using Cons.IH [OF _ run(3)] Cons.prems False by simp
      then show ?thesis using step_local [of files1 p files] same by (simp add: fails_def ends_run_def)
    qed
  qed simp
  then show "files' p = snd (step p files) p" "fails p files' \<longleftrightarrow> fails p files" "\<not> ends_run p files" by blast+
qed

lemma run_files:
  assumes "\<forall>p \<in> set ps. stable p" "loop ps a files = (Some b, files')"
  shows "files' = (\<lambda>q. if q \<in> set ps then snd (step q files) q else files q)"
  using step_result_kept(1) [OF assms] loop_frame [of _ ps a files] assms(2) by auto

lemma run_flag:
  assumes "\<forall>p \<in> set ps. stable p" "loop ps a files = (Some b, files')"
  shows "flag b \<longleftrightarrow> flag a \<or> (\<exists>p \<in> set ps. fails p files)"
  using assms
proof (induction ps arbitrary: a files)
  case (Cons p ps)
  from Cons.prems(2) obtain r files1 a1 where run: "step p files = (r, files1)" "\<not> ends_run p files"
      "loop ps a1 files1 = (Some b, files')" and a1: "flag a1 \<longleftrightarrow> flag a \<or> fails p files"
    by (rule loop_cases)
  have "fails q files1 \<longleftrightarrow> fails q files" if "q \<in> set ps" for q
    using step_result_kept(2) [OF _ run(3) that] step_result_kept(2) [OF Cons.prems, of q] Cons.prems(1) that by simp
  then show ?case using Cons.IH [OF _ run(3)] Cons.prems(1) a1 by auto
qed (simp add: loop_Nil)

text \<open>A run over settled files changes nothing.\<close>

lemma loop_settled:
  "\<forall>p \<in> set ps. settled files p \<Longrightarrow>
     loop ps a files = (Some (if \<exists>p \<in> set ps. fails p files then bad a else a), files)"
proof (induction ps arbitrary: a)
  case (Cons p ps)
  then obtain r where "step p files = (r, files)" "case r of Inl e \<Rightarrow> caught e | Inr r' \<Rightarrow> \<forall>a. good a r' = a"
    by (auto simp: settled_def)
  then show ?case using Cons by (cases r) (auto simp: loop_Cons fails_def bad_bad)
qed (simp add: loop_Nil)

lemma second_run:
  assumes "\<forall>p \<in> set ps. stable p" "loop ps a files = (Some b, files')"
  shows "loop ps a files' = (Some (if \<exists>p \<in> set ps. fails p files then bad a else a), files')"
  using loop_settled [OF loop_settles [OF assms]] step_result_kept(2) [OF assms] by (auto cong: bex_cong)

text \<open>A run in which no step would end the program finishes.\<close>

lemma run_finishes:
  assumes "\<forall>p \<in> set ps. stable p" "\<forall>p \<in> set ps. \<not> ends_run p files"
  shows "\<exists>b. loop ps a files = (Some b, snd (loop ps a files))"
  using assms
proof (induction ps arbitrary: a files)
  case (Cons p ps)
  obtain r files1 where step: "step p files = (r, files1)" by fastforce
  have settled: "settled files1 p" using step_settles [OF _ step] Cons.prems by simp
  have "\<not> ends_run q files1" if "q \<in> set ps" for q
  proof (cases "q = p")
    case True
    then show ?thesis using settled by (auto simp: settled_def ends_run_def)
  next
    case False
    then show ?thesis using step_local step_frame [OF step] Cons.prems(2) that by (metis ends_run_def list.set_intros(2))
  qed
  then have "\<exists>b. loop ps a1 files1 = (Some b, snd (loop ps a1 files1))" for a1 using Cons by simp
  then show ?case using step Cons.prems(2) by (cases r) (auto simp: loop_Cons ends_run_def)
qed (simp add: loop_Nil)

end

end
