(* ===== verification/Sanitize.thy ===== *)
theory Sanitize
  imports Py_Regex Py_Address Py_Files File_Runs
begin

text \<open>
  \<open>scripts/sanitize_workflows.py\<close>: removal of volatile keys from a workflow export, detection of secrets, stable
  output.  \<open>sanitize_main\<close> takes the parsed arguments and the listing of the file system; the loop over
  the targets is an interpretation of \<open>file_loop\<close>.
\<close>

section \<open>Secret patterns\<close>

definition DROP_KEYS :: "string list" where
  "DROP_KEYS = [''pinData'', ''staticData'', ''executionId'', ''executionIds'', ''lastExecution'', ''lastExecutionStatus'']"

definition upper_or_digit :: "char \<Rightarrow> bool" where
  "upper_or_digit c \<longleftrightarrow> is_upper_az c \<or> is_decimal c"

definition SECRET_PATTERNS :: "(string \<times> regex) list" where
  "SECRET_PATTERNS =
     [(''private-key-header'',
       seq [Lit ''-----BEGIN '', Many (\<lambda>c. is_upper_az c \<or> c = CHR '' '') 0 None, Lit ''PRIVATE KEY-----'']),
      (''aws-access-key'',
       seq [WordBoundary,
            Or (Then (Lit ''A3T'') (Class upper_or_digit))
               (alt [''AKIA'', ''AGPA'', ''AIDA'', ''AROA'', ''AIPA'', ''ANPA'', ''ANVA'', ''ASIA'']),
            Many upper_or_digit 16 (Some 16), WordBoundary]),
      (''github-pat'',
       seq [WordBoundary, Lit ''gh'', Class (one_of ''pousr''), Lit ''_'', Many ascii_alnum 36 (Some 36), WordBoundary]),
      (''github-fine-grained'',
       seq [WordBoundary, Lit ''github_pat_'', Many (\<lambda>c. ascii_alnum c \<or> c = CHR ''_'') 20 None, WordBoundary]),
      (''gitlab-pat'',
       seq [WordBoundary, Lit ''glpat-'', Many (\<lambda>c. ascii_alnum c \<or> one_of ''_-'' c) 20 None, WordBoundary]),
      (''stripe-key'',
       seq [WordBoundary, alt [''sk'', ''pk'', ''rk''], Lit ''_'', alt [''live'', ''test''], Lit ''_'', Many ascii_alnum 16 None,
            WordBoundary]),
      (''openai-sk'', seq [WordBoundary, Lit ''sk-'', Many ascii_alnum 16 None, WordBoundary]),
      (''slack-xox'',
       seq [WordBoundary, lit_i ''xox'', Class (ignoring_case (one_of ''baprs'')), Lit ''-'',
            Many (\<lambda>c. word_char c \<or> c = CHR ''-'') 10 None, WordBoundary]),
      (''bearer-token'',
       seq [WordBoundary, Lit ''Bearer'', Many is_space 1 None, Many (\<lambda>c. ascii_alnum c \<or> one_of ''._-+=/'' c) 24 None])]"

section \<open>Operations\<close>

fun collect_strings :: "pyval \<Rightarrow> string list" where
  "collect_strings (PStr s) = [s]"
| "collect_strings (PDict d) = concat (map (\<lambda>(k, v). collect_strings v) d)"
| "collect_strings (PList xs) = concat (map collect_strings xs)"
| "collect_strings _ = []"

text \<open>The two nested loops of \<open>find_secret_matches\<close>, over \<open>seen\<close> and \<open>hits\<close>.\<close>

definition hit_key :: "string \<Rightarrow> string \<Rightarrow> string" where
  "hit_key name s = name @ '':'' @ take 12 s"

definition hit_text :: "string \<Rightarrow> string \<Rightarrow> string" where
  "hit_text name s = name @ '' (string starts with '' @ repr_str (take 12 s) @ ''...)''"

fun match_patterns :: "(string \<times> regex) list \<Rightarrow> string \<Rightarrow> string list \<times> string list \<Rightarrow> string list \<times> string list" where
  "match_patterns [] s acc = acc"
| "match_patterns ((name, pattern) # ps) s (seen, hits) =
     match_patterns ps s
       (if re_search pattern s \<and> hit_key name s \<notin> set seen
        then (hit_key name s # seen, hits @ [hit_text name s]) else (seen, hits))"

definition find_secret_matches :: "pyval \<Rightarrow> string list" where
  "find_secret_matches v = snd (fold (match_patterns SECRET_PATTERNS) (collect_strings v) ([], []))"

definition child_path :: "string \<Rightarrow> string \<Rightarrow> string" where
  "child_path path key = (if path \<noteq> [] then path @ ''.'' @ key else key)"

fun is_str :: "pyval \<Rightarrow> bool" where
  "is_str (PStr _) \<longleftrightarrow> True"
| "is_str _ \<longleftrightarrow> False"

definition dropped :: "string \<Rightarrow> string \<Rightarrow> pyval \<Rightarrow> bool" where
  "dropped path key item \<longleftrightarrow>
     key \<in> set DROP_KEYS
     \<or> key = ''instanceId'' \<and> (path = ''meta'' \<or> suffix ''.meta'' path)
     \<or> key = ''execution'' \<and> \<not> is_str item"

fun strip_value :: "string \<Rightarrow> pyval \<Rightarrow> pyval" where
  "strip_value path (PDict d) =
     PDict (concat (map (\<lambda>(k, v). if dropped path k v then [] else [(k, strip_value (child_path path k) v)]) d))"
| "strip_value path (PList xs) = PList (map (strip_value path) xs)"
| "strip_value path v = v"

definition dumps_stable :: "pyval \<Rightarrow> string" where
  "dumps_stable v = json_indent json_raw_str 0 v @ [CHR 0x0A]"

datatype sanitize_error = BadJson json_error | SanitizeError string | FileError py_error

definition sanitize_document :: "pyval \<Rightarrow> sanitize_error + pyval" where
  "sanitize_document v =
     (let matches = find_secret_matches v
      in if matches \<noteq> [] then Inl (SanitizeError (''secret pattern(s) matched: '' @ join ''; '' matches))
         else Inr (strip_value [] v))"

definition load_json_text :: "(string \<Rightarrow> string) \<Rightarrow> string \<Rightarrow> sanitize_error + pyval" where
  "load_json_text fr s = (case json_loads fr s of Inl e \<Rightarrow> Inl (BadJson e) | Inr v \<Rightarrow> Inr v)"

definition process_text :: "(string \<Rightarrow> string) \<Rightarrow> string \<Rightarrow> sanitize_error + string" where
  "process_text fr s =
     rbind (load_json_text fr s) (\<lambda>v. rbind (sanitize_document v) (\<lambda>w. Inr (dumps_stable w)))"

text \<open>The file is opened for writing only when its text changes.\<close>

definition process_file ::
    "(string \<Rightarrow> string) \<Rightarrow> (path \<Rightarrow> bool) \<Rightarrow> path \<Rightarrow> text_files \<Rightarrow> (sanitize_error + bool) \<times> text_files" where
  "process_file fr denied p files =
     (case read_text files p of
        Inl e \<Rightarrow> (Inl (FileError e), files)
      | Inr original \<Rightarrow>
          (case process_text fr original of
             Inl e \<Rightarrow> (Inl e, files)
           | Inr updated \<Rightarrow>
               if updated \<noteq> original
               then (case write_text denied p updated files of
                       (Inl e, files') \<Rightarrow> (Inl (FileError e), files')
                     | (Inr _, files') \<Rightarrow> (Inr True, files'))
               else (Inr False, files)))"

text \<open>
  The exit code; \<open>None\<close> when an exception that is not caught ends the program.  \<open>JSONDecodeError\<close>,
  \<open>SanitizeError\<close> and \<open>OSError\<close> are caught.
\<close>

fun caught :: "sanitize_error \<Rightarrow> bool" where
  "caught (BadJson e) \<longleftrightarrow> e = JSONDecodeError"
| "caught (SanitizeError _) \<longleftrightarrow> True"
| "caught (FileError e) \<longleftrightarrow> e = OSError \<or> e = FileNotFoundError"

fun process_all :: "(string \<Rightarrow> string) \<Rightarrow> (path \<Rightarrow> bool) \<Rightarrow> path list \<Rightarrow> int \<Rightarrow> text_files \<Rightarrow> int option \<times> text_files" where
  "process_all fr denied [] failed files = (Some failed, files)"
| "process_all fr denied (p # ps) failed files =
     (case process_file fr denied p files of
        (Inr _, files') \<Rightarrow> process_all fr denied ps failed files'
      | (Inl e, files') \<Rightarrow> if caught e then process_all fr denied ps 1 files' else (None, files'))"

definition iter_json_files :: "listing \<Rightarrow> path \<Rightarrow> path list" where
  "iter_json_files tree d = sort (filter (listed_file tree) (rglob tree d ''*.json''))"

text \<open>The targets of the parsed arguments; \<open>None\<close> when \<open>--in-place\<close> names no directory.\<close>

definition sanitize_targets :: "listing \<Rightarrow> path list \<Rightarrow> path option \<Rightarrow> path list option" where
  "sanitize_targets tree args in_place =
     (case in_place of
        None \<Rightarrow> Some args
      | Some d \<Rightarrow> if listed_dir tree d then Some (args @ iter_json_files tree d) else None)"

text \<open>\<open>main\<close>: the exit code, the files and what is written to the standard output.\<close>

definition sanitize_main ::
    "(string \<Rightarrow> string) \<Rightarrow> (path \<Rightarrow> bool) \<Rightarrow> listing \<Rightarrow> path list \<Rightarrow> path option \<Rightarrow> string \<Rightarrow> text_files
     \<Rightarrow> int option \<times> text_files \<times> string" where
  "sanitize_main fr denied tree args in_place stdin files =
     (case sanitize_targets tree args in_place of
        None \<Rightarrow> (Some 2, files, [])
      | Some targets \<Rightarrow>
          if targets = []
          then (case process_text fr stdin of
                  Inr out \<Rightarrow> (Some 0, files, out)
                | Inl (BadJson JSONDecodeError) \<Rightarrow> (Some 2, files, [])
                | Inl (SanitizeError _) \<Rightarrow> (Some 1, files, [])
                | Inl _ \<Rightarrow> (None, files, []))
          else let (code', files') = process_all fr denied targets 0 files in (code', files', []))"

lemmas sanitize_defs [eval_simps] =
  DROP_KEYS_def upper_or_digit_def SECRET_PATTERNS_def hit_key_def hit_text_def find_secret_matches_def child_path_def
  dropped_def dumps_stable_def sanitize_document_def load_json_text_def process_text_def process_file_def
  iter_json_files_def sanitize_targets_def sanitize_main_def

section \<open>Secrets\<close>

definition is_secret :: "string \<Rightarrow> bool" where
  "is_secret s \<longleftrightarrow> (\<exists>(name, pattern) \<in> set SECRET_PATTERNS. re_search pattern s)"

text \<open>A hit is recorded for every matching string: the key that suppresses one was recorded with a hit before.\<close>

lemma match_patterns_hits:
  "(seen = [] \<longleftrightarrow> hits = []) \<Longrightarrow>
     (let (seen', hits') = match_patterns ps s (seen, hits)
      in (seen' = [] \<longleftrightarrow> hits' = []) \<and> (hits' = [] \<longleftrightarrow> hits = [] \<and> (\<forall>(name, pattern) \<in> set ps. \<not> re_search pattern s)))"
proof (induction ps arbitrary: seen hits)
  case (Cons e ps)
  obtain name pattern where e: "e = (name, pattern)" by (cases e)
  show ?case
    using Cons.IH [of "hit_key name s # seen" "hits @ [hit_text name s]"] Cons.IH [of seen hits] Cons.prems
    by (auto simp: e Let_def split_beta)
qed simp

lemma fold_hits:
  "(seen = [] \<longleftrightarrow> hits = []) \<Longrightarrow>
     snd (fold (match_patterns SECRET_PATTERNS) xs (seen, hits)) = [] \<longleftrightarrow> hits = [] \<and> (\<forall>x \<in> set xs. \<not> is_secret x)"
proof (induction xs arbitrary: seen hits)
  case (Cons x xs)
  obtain seen' hits' where m: "match_patterns SECRET_PATTERNS x (seen, hits) = (seen', hits')" by fastforce
  have "seen' = [] \<longleftrightarrow> hits' = []" "hits' = [] \<longleftrightarrow> hits = [] \<and> \<not> is_secret x"
    using match_patterns_hits [OF Cons.prems, of SECRET_PATTERNS x] m by (auto simp: is_secret_def split_beta)
  then show ?case using Cons.IH [of seen' hits'] m by auto
qed simp

lemma no_secret_matches: "find_secret_matches v = [] \<longleftrightarrow> (\<forall>s \<in> set (collect_strings v). \<not> is_secret s)"
  using fold_hits [of "[]" "[]"] by (simp add: find_secret_matches_def)

lemma collect_strings_iff: "s \<in> set (collect_strings v) \<longleftrightarrow> string_in v s"
proof (induction v rule: collect_strings.induct)
  case (2 d)
  have "s \<in> set (collect_strings (PDict d)) \<longleftrightarrow> (\<exists>(k, v) \<in> set d. s \<in> set (collect_strings v))" by auto
  also have "\<dots> \<longleftrightarrow> (\<exists>(k, v) \<in> set d. string_in v s)" using 2 by (intro bex_cong) auto
  finally show ?case by (auto simp: string_in_PDict)
qed (auto simp: string_in_PList)

lemma no_secrets_iff: "(\<forall>x \<in> set (collect_strings v). \<not> is_secret x) \<longleftrightarrow> (\<forall>x. string_in v x \<longrightarrow> \<not> is_secret x)"
  using collect_strings_iff by blast

section \<open>Stripping\<close>

text \<open>
  A value without volatile entries, as the module's documentation lists them: pinned and static data, references to
  executions, and \<open>instanceId\<close> directly below \<open>meta\<close>.
\<close>

definition volatile :: "string \<Rightarrow> string \<Rightarrow> pyval \<Rightarrow> bool" where
  "volatile path k v \<longleftrightarrow>
     k \<in> {''pinData'', ''staticData''}
     \<or> k \<in> {''executionId'', ''executionIds'', ''lastExecution'', ''lastExecutionStatus''}
     \<or> k = ''execution'' \<and> (\<forall>s. v \<noteq> PStr s)
     \<or> k = ''instanceId'' \<and> (path = ''meta'' \<or> (\<exists>p. path = p @ ''.meta''))"

fun clean :: "string \<Rightarrow> pyval \<Rightarrow> bool" where
  "clean path (PDict d) \<longleftrightarrow> list_all (\<lambda>(k, v). \<not> volatile path k v \<and> clean (child_path path k) v) d"
| "clean path (PList xs) \<longleftrightarrow> list_all (clean path) xs"
| "clean path v \<longleftrightarrow> True"

lemma dropped_volatile: "dropped path k v \<longleftrightarrow> volatile path k v"
  by (cases v) (auto simp: dropped_def volatile_def DROP_KEYS_def suffix_def)

lemma strip_PDict:
  "strip_value path (PDict d) =
     PDict (map (\<lambda>(k, v). (k, strip_value (child_path path k) v)) (filter (\<lambda>(k, v). \<not> dropped path k v) d))"
proof -
  have "concat (map (\<lambda>(k, v). if dropped path k v then [] else [(k, strip_value (child_path path k) v)]) d)
      = map (\<lambda>(k, v). (k, strip_value (child_path path k) v)) (filter (\<lambda>(k, v). \<not> dropped path k v) d)"
    by (induction d) auto
  then show ?thesis by simp
qed

lemma is_str_strip [simp]: "is_str (strip_value path v) \<longleftrightarrow> is_str v"
  by (cases v) simp_all

lemma dropped_strip [simp]: "dropped path k (strip_value p v) \<longleftrightarrow> dropped path k v"
  by (simp add: dropped_def)

lemma clean_strip: "clean path (strip_value path v)"
  by (induction path v rule: strip_value.induct)
    (auto simp: strip_PDict list_all_iff simp flip: dropped_volatile simp del: strip_value.simps(1))

lemma strip_clean: "clean path v \<Longrightarrow> strip_value path v = v"
proof (induction path v rule: strip_value.induct)
  case (1 path d)
  then have "map (\<lambda>(k, v). (k, strip_value (child_path path k) v)) (filter (\<lambda>(k, v). \<not> dropped path k v) d) = d"
    by (induction d) (auto simp flip: dropped_volatile)
  then show ?case by (simp add: strip_PDict del: strip_value.simps(1))
qed (auto simp: list_all_iff intro: map_idI)

lemma is_str_canon [simp]: "is_str (canon v) \<longleftrightarrow> is_str v"
  by (cases v) simp_all

lemma dropped_canon [simp]: "dropped path k (canon v) \<longleftrightarrow> dropped path k v"
  by (simp add: dropped_def)

lemma clean_canon: "clean path (canon v) \<longleftrightarrow> clean path v"
  by (induction path v rule: clean.induct) (auto simp: list_all_iff simp flip: dropped_volatile)

lemma strings_canon: "set (collect_strings (canon v)) = set (collect_strings v)"
  by (induction v rule: canon.induct) (auto simp: image_iff split: prod.splits)

lemma strings_strip: "set (collect_strings (strip_value path v)) \<subseteq> set (collect_strings v)"
proof (induction path v rule: strip_value.induct)
  case (1 path d)
  then show ?case by (fastforce simp: strip_PDict simp del: strip_value.simps(1))
qed auto

lemma json_ok_strip: "json_ok fr v \<Longrightarrow> json_ok fr (strip_value path v)"
proof (induction path v rule: strip_value.induct)
  case (1 path d)
  have keys: "fst \<circ> (\<lambda>(k, v). (k, strip_value (child_path path k) v)) = fst" by auto
  show ?case
    using 1 by (auto simp: strip_PDict keys list_all_iff distinct_map_filter simp del: strip_value.simps(1))
qed (auto simp: list_all_iff)

text \<open>Stripping keeps exactly the places that are not below a volatile entry.\<close>

lemma child_path_below: "child_path path k = below_key path k"
  by (simp add: child_path_def below_key_def)

lemma outer_strip [simp]: "outer (strip_value path v) = outer v"
  by (cases v) auto

lemma value_at_strip: "value_at a (strip_value path v) w \<Longrightarrow> \<exists>y q. reached volatile path a v y \<and> w = strip_value q y"
proof (induction a arbitrary: path v)
  case (Cons s a)
  show ?case
  proof (cases v)
    case (PDict d)
    obtain k where s: "s = Key k" using Cons.prems by (cases s) (auto simp: PDict)
    obtain u where u: "(k, u) \<in> set d" "\<not> volatile path k u" "value_at a (strip_value (child_path path k) u) w"
      using Cons.prems unfolding PDict strip_PDict s by (auto simp: dropped_volatile)
    then show ?thesis using Cons.IH [OF u(3)] unfolding PDict s child_path_below by auto
  next
    case (PList vs)
    then show ?thesis using Cons by (cases s) auto
  qed (use Cons.prems in auto)
qed auto

lemma reached_strip: "reached volatile path a v y \<Longrightarrow> \<exists>q. value_at a (strip_value path v) (strip_value q y)"
proof (induction rule: reached.induct)
  case (in_dict k v d path a w)
  then have "(k, strip_value (child_path path k) v) \<in> set (map (\<lambda>(k, v). (k, strip_value (child_path path k) v)) (filter (\<lambda>(k, v). \<not> dropped path k v) d))"
    by (force simp: dropped_volatile)
  then show ?case using in_dict(4) unfolding strip_PDict value_at_simps child_path_below by blast
qed auto

lemma strip_copy: "copy_without volatile v (canon (strip_value [] v))"
proof -
  have "(\<exists>y. value_at a (canon (strip_value [] v)) y \<and> outer y = x) \<longleftrightarrow> (\<exists>y. value_at a (strip_value [] v) y \<and> outer y = x)" for a x
    by (auto simp: value_at_canon)
  moreover have "(\<exists>y. value_at a (strip_value [] v) y \<and> outer y = x) \<longleftrightarrow> (\<exists>y. reached volatile [] a v y \<and> outer y = x)" for a x
    using value_at_strip reached_strip by (metis outer_strip)
  ultimately show ?thesis by (simp add: copy_without_def)
qed

section \<open>Stable output\<close>

lemma sort_key_canon: "sort_key fst (sort_key fst d) = sort_key fst (d :: (string \<times> 'a) list)"
  by (simp add: sort_key_id_if_sorted)

lemma sort_key_empty: "sort_key f xs = [] \<longleftrightarrow> xs = []"
  by (metis set_empty set_sort)

lemma dumps_canon: "json_indent quote level (canon v) = json_indent quote level v"
proof (induction quote level v rule: json_indent.induct)
  case (2 quote level d)
  have "map (\<lambda>(k, v). (k, json_indent quote (Suc level) (canon v))) d = map (\<lambda>(k, v). (k, json_indent quote (Suc level) v)) d"
    using 2 by auto
  then have "sort_key fst (map (\<lambda>(k, v). (k, json_indent quote (Suc level) v)) (sort_key fst (map (\<lambda>(k, v). (k, canon v)) d)))
      = sort_key fst (map (\<lambda>(k, v). (k, json_indent quote (Suc level) v)) d)"
    by (simp add: sort_key_map case_prod_unfold comp_def sort_key_canon)
  then show ?case by (simp add: Let_def sort_key_empty)
qed (auto intro!: arg_cong [where f = "join _"] simp: comp_def)

lemma no_cr_string: "CHR 0x0D \<notin> set (json_raw_str s)"
proof -
  have "CHR 0x0D \<notin> set (json_char c)" for c
  proof (cases c rule: json_char_shape)
    case plain
    then show ?thesis by (auto simp: json_char_def)
  next
    case unicode
    then show ?thesis by (auto dest!: hex2_ascii)
  qed auto
  then show ?thesis by (auto simp: json_raw_str_def json_raw_char_def split: if_splits)
qed

lemma digits_no_cr: "digits ds \<Longrightarrow> CHR 0x0D \<notin> set ds"
  by (auto simp: digits_def list_all_iff is_decimal_def)

lemma int_text_no_cr: "int_text s \<Longrightarrow> CHR 0x0D \<notin> set s"
  by (auto simp: int_text_def dest: digits_no_cr)

lemma float_text_no_cr: "float_text s \<Longrightarrow> CHR 0x0D \<notin> set s"
  by (auto simp: float_text_def frac_text_def exp_text_def dest: digits_no_cr int_text_no_cr)

lemma set_join: "set (join sep xs) \<subseteq> set sep \<union> \<Union> (set ` set xs)"
  by (induction sep xs rule: join.induct) auto

lemma newline_no_cr: "CHR 0x0D \<notin> set (newline_indent n)"
  by (simp add: newline_indent_def)

lemma dumps_no_cr: "json_ok fr v \<Longrightarrow> CHR 0x0D \<notin> set (json_indent json_raw_str level v)"
proof (induction v arbitrary: level)
  case (PInt i)
  then show ?case using int_text_no_cr [OF int_text_str_nat] by (auto simp: str_int_def)
next
  case (PFloat t)
  then show ?case using float_text_no_cr [of t] by (auto simp: json_float_def)
next
  case (PList xs)
  then have "CHR 0x0D \<notin> set (join ('','' @ newline_indent (Suc level)) (map (json_indent json_raw_str (Suc level)) xs))"
    using set_join newline_no_cr by (fastforce simp: list_all_iff)
  then show ?case by (simp add: newline_no_cr)
next
  case (PDict d)
  then have "\<forall>(k, t) \<in> set (sort_key fst (map (\<lambda>(k, v). (k, json_indent json_raw_str (Suc level) v)) d)).
      CHR 0x0D \<notin> set (json_raw_str k @ '': '' @ t)"
    by (auto simp: list_all_iff no_cr_string)
  then have "CHR 0x0D \<notin> set (join ('','' @ newline_indent (Suc level)) (map (\<lambda>(k, t). json_raw_str k @ '': '' @ t)
      (sort_key fst (map (\<lambda>(k, v). (k, json_indent json_raw_str (Suc level) v)) d))))"
    using set_join newline_no_cr by (fastforce simp del: set_sort)
  then show ?case by (simp add: Let_def newline_no_cr)
qed (auto simp: no_cr_string)

section \<open>The sanitizer\<close>

lemma process_text_Inr:
  "process_text fr s = Inr u \<longleftrightarrow>
     (\<exists>v. json_loads fr s = Inr v \<and> (\<forall>x \<in> set (collect_strings v). \<not> is_secret x) \<and> u = dumps_stable (strip_value [] v))"
  by (auto simp: process_text_def load_json_text_def sanitize_document_def rbind_eq_Inr_iff Let_def no_secret_matches [symmetric]
      split: sum.splits)

lemma process_text_stable:
  assumes "repr_float_law fr" "process_text fr s = Inr u"
  obtains v where "json_loads fr s = Inr v" "json_loads fr u = Inr (canon (strip_value [] v))"
    "clean [] (canon (strip_value [] v))" "\<forall>x \<in> set (collect_strings (canon (strip_value [] v))). \<not> is_secret x"
    "process_text fr u = Inr u" "CHR 0x0D \<notin> set u"
proof -
  obtain v where v: "json_loads fr s = Inr v" "\<forall>x \<in> set (collect_strings v). \<not> is_secret x" "u = dumps_stable (strip_value [] v)"
    using assms(2) by (auto simp: process_text_Inr)
  let ?w = "canon (strip_value [] v)"
  have ok: "json_ok fr (strip_value [] v)" using json_ok_strip loads_ok [OF assms(1) v(1)] by blast
  have w: "json_loads fr u = Inr ?w" using loads_indent [OF ok] v(3) by (simp add: dumps_stable_def)
  have clean: "clean [] ?w" by (simp add: clean_canon clean_strip)
  have safe: "\<forall>x \<in> set (collect_strings ?w). \<not> is_secret x"
    using v(2) strings_strip [of "[]" v] by (auto simp: strings_canon)
  have "process_text fr u = Inr (dumps_stable (strip_value [] ?w))" using w safe by (auto simp: process_text_Inr)
  then have "process_text fr u = Inr u" by (simp add: strip_clean [OF clean] dumps_stable_def dumps_canon v(3))
  moreover have "CHR 0x0D \<notin> set u" using dumps_no_cr [OF ok] v(3) by (simp add: dumps_stable_def)
  ultimately show thesis using that v(1) w clean safe by blast
qed

text \<open>A file holds a workflow without volatile entries and without a secret among its string values.\<close>

definition sanitized :: "(string \<Rightarrow> string) \<Rightarrow> text_files \<Rightarrow> path \<Rightarrow> bool" where
  "sanitized fr files p \<longleftrightarrow>
     (\<exists>u w. read_text files p = Inr u \<and> json_loads fr u = Inr w \<and> clean [] w \<and> (\<forall>s. string_in w s \<longrightarrow> \<not> is_secret s))"

text \<open>Nothing but the volatile entries of the original is lost.\<close>

definition sanitized_copy :: "(string \<Rightarrow> string) \<Rightarrow> text_files \<Rightarrow> text_files \<Rightarrow> path \<Rightarrow> bool" where
  "sanitized_copy fr files files' p \<longleftrightarrow>
     (\<exists>t v u w. read_text files p = Inr t \<and> json_loads fr t = Inr v \<and> read_text files' p = Inr u \<and> json_loads fr u = Inr w
        \<and> copy_without volatile v w \<and> keys_sorted w)"

lemma sanitized_copy_local: "files' p = other p \<Longrightarrow> sanitized_copy fr files other p \<Longrightarrow> sanitized_copy fr files files' p"
  by (simp add: sanitized_copy_def read_text_def)

lemma sanitized_local: "files p = other p \<Longrightarrow> sanitized fr other p \<Longrightarrow> sanitized fr files p"
  by (simp add: sanitized_def read_text_def)

lemma process_file_Inr:
  assumes "repr_float_law fr" "process_file fr denied p files = (Inr changed, files')"
  shows "sanitized fr files' p" "process_file fr denied p files' = (Inr False, files')" "sanitized_copy fr files files' p"
proof -
  obtain t u where t: "read_text files p = Inr t" "process_text fr t = Inr u"
    and files': "files' = (if u \<noteq> t then files(p \<mapsto> Inr u) else files)"
    using assms(2) by (auto simp: process_file_def write_text_def split: sum.splits if_splits)
  obtain v where loads: "json_loads fr t = Inr v" and v: "json_loads fr u = Inr (canon (strip_value [] v))" "clean [] (canon (strip_value [] v))"
    "\<forall>x \<in> set (collect_strings (canon (strip_value [] v))). \<not> is_secret x" "process_text fr u = Inr u" "CHR 0x0D \<notin> set u"
    using process_text_stable [OF assms(1) t(2)] by blast
  have read: "read_text files' p = Inr u" using t(1) files' read_written [OF v(5)] by simp
  then show "process_file fr denied p files' = (Inr False, files')" using v(4) by (simp add: process_file_def)
  show "sanitized fr files' p" using read v(1-3) by (auto simp: sanitized_def collect_strings_iff)
  show "sanitized_copy fr files files' p"
    using t(1) loads read v(1) strip_copy keys_sorted_canon unfolding sanitized_copy_def by blast
qed

lemma process_file_shape:
  "process_file fr denied p files =
     (fst (process_file fr denied p files), files(p := snd (process_file fr denied p files) p))"
  by (auto simp: process_file_def write_text_def split: sum.splits)

lemma process_file_Inl: "process_file fr denied p files = (Inl e, files') \<Longrightarrow> files' = files"
  by (auto simp: process_file_def write_text_def split: sum.splits if_splits)

interpretation sanitize_loop: file_loop "process_file fr denied" caught "\<lambda>a _. a" "\<lambda>_. 1" "\<lambda>a. a \<noteq> 0" "process_all fr denied"
  for fr denied
proof unfold_locales
  fix p q :: path and r and files files' :: text_files
  assume "process_file fr denied p files = (r, files')" "q \<noteq> p"
  then show "files' q = files q" using process_file_shape [of fr denied p files] by (metis fun_upd_other snd_conv)
next
  fix p :: path and files other :: text_files
  assume same: "files p = other p"
  then show "fst (process_file fr denied p files) = fst (process_file fr denied p other)
      \<and> snd (process_file fr denied p files) p = snd (process_file fr denied p other) p"
    using read_local [of files p other] by (auto simp: process_file_def write_text_def split: sum.splits)
qed (use process_file_Inl in auto)

lemma process_file_stable: "repr_float_law fr \<Longrightarrow> sanitize_loop.stable fr denied p"
  unfolding sanitize_loop.stable_def using process_file_Inr(2) by blast

text \<open>The targets below a directory: the JSON files, sorted, in whatever order the file system enumerates them.\<close>

lemma iter_json_files_iff:
  "p \<in> set (iter_json_files tree d) \<longleftrightarrow> listed_file tree p \<and> strict_prefix d p \<and> suffix ''.json'' (last p)"
  unfolding iter_json_files_def rglob_def listed_file_def json_pattern by force

lemma sanitize_targets_perm:
  assumes "mset tree = mset tree'"
  shows "sanitize_targets tree args in_place = sanitize_targets tree' args in_place"
proof -
  have "iter_json_files tree d = iter_json_files tree' d" for d
    using sort_filter_perm [OF assms] by (simp add: iter_json_files_def rglob_def listed_perm [OF assms])
  then show ?thesis by (simp add: sanitize_targets_def listed_perm(1) [OF assms] split: option.splits)
qed

lemma process_all_code: "process_all fr denied ps a files = (Some c, files') \<Longrightarrow> a \<in> {0, 1} \<Longrightarrow> c \<in> {0, 1}"
  by (induction fr denied ps a files rule: process_all.induct) (auto split: prod.splits sum.splits if_splits)

text \<open>
  C37: A finished run over files rewrites every target as a single step on its original text does, whatever the order and the
  repetitions of the targets, and no other file.  The exit code is 0 exactly when every target could be processed.  Each
  processed file then holds, with sorted keys, exactly the places of the original workflow that are not below a volatile
  entry, and no string value of it, in whatever list or object, is a secret (keys are not looked at).  A second run gives
  the same exit code and changes nothing.
\<close>

theorem sanitize_run:
  assumes "repr_float_law fr" "sanitize_targets tree args in_place = Some ps" "ps \<noteq> []"
    "sanitize_main fr denied tree args in_place stdin files = (Some c, files', out)"
  shows "files' = (\<lambda>p. if p \<in> set ps then snd (process_file fr denied p files) p else files p)
    \<and> c = (if \<forall>p \<in> set ps. \<not> isl (fst (process_file fr denied p files)) then 0 else 1)
    \<and> (\<forall>p \<in> set ps. \<not> isl (fst (process_file fr denied p files)) \<longrightarrow> sanitized fr files' p \<and> sanitized_copy fr files files' p)
    \<and> sanitize_main fr denied tree args in_place stdin files' = (Some c, files', out)"
proof -
  have run: "process_all fr denied ps 0 files = (Some c, files')" "out = []"
    using assms(2-4) by (auto simp: sanitize_main_def split: prod.splits)
  have stable: "\<forall>p \<in> set ps. sanitize_loop.stable fr denied p" using process_file_stable [OF assms(1)] by blast
  note files' = sanitize_loop.run_files [OF stable run(1)]
  have c: "c = (if \<forall>p \<in> set ps. \<not> isl (fst (process_file fr denied p files)) then 0 else 1)"
    using sanitize_loop.run_flag [OF stable run(1)] process_all_code [OF run(1)] by (auto simp: sanitize_loop.fails_def)
  have ok: "sanitized fr files' p \<and> sanitized_copy fr files files' p" if mem: "p \<in> set ps" and fine: "\<not> isl (fst (process_file fr denied p files))" for p
  proof -
    obtain b files1 where one: "process_file fr denied p files = (Inr b, files1)"
      using fine by (cases "process_file fr denied p files"; cases "fst (process_file fr denied p files)") auto
    then have "sanitized fr files1 p" "sanitized_copy fr files files1 p" using process_file_Inr(1,3) [OF assms(1)] by blast+
    moreover have "files' p = files1 p" using files' mem one by simp
    ultimately show ?thesis using sanitized_local sanitized_copy_local by blast
  qed
  have "process_all fr denied ps 0 files' = (Some c, files')"
    using sanitize_loop.second_run [OF stable run(1)] c by (auto simp: sanitize_loop.fails_def)
  then have "sanitize_main fr denied tree args in_place stdin files' = (Some c, files', out)"
    using assms(2,3) run(2) by (simp add: sanitize_main_def)
  then show ?thesis using files' c ok by blast
qed

text \<open>
  C36: A workflow is refused exactly when a string value at some place in it, at any depth of lists and objects, matches a
  secret pattern.  Otherwise the output is JSON with sorted keys that has, at every place not below a volatile entry, what
  the workflow has there, and nothing else.
\<close>

theorem sanitizer_refuses_exactly_secrets:
  assumes "repr_float_law fr" "json_loads fr s = Inr v"
  shows "if \<exists>x. string_in v x \<and> is_secret x
    then \<exists>m. process_text fr s = Inl (SanitizeError (''secret pattern(s) matched: '' @ m))
    else \<exists>u w. process_text fr s = Inr u \<and> json_loads fr u = Inr w \<and> copy_without volatile v w \<and> keys_sorted w"
proof (cases "find_secret_matches v = []")
  case True
  then obtain u where u: "process_text fr s = Inr u" using assms(2) by (simp add: process_text_Inr no_secret_matches)
  then have "json_loads fr u = Inr (canon (strip_value [] v))"
    using process_text_stable [OF assms(1) u] assms(2) by (metis sum.inject(2))
  then show ?thesis using u True strip_copy keys_sorted_canon by (auto simp: no_secret_matches no_secrets_iff)
next
  case False
  then show ?thesis
    using assms(2) no_secret_matches [of v]
    by (auto simp: collect_strings_iff process_text_def load_json_text_def sanitize_document_def Let_def)
qed

section \<open>Concrete workflows\<close>

definition demo_fr :: "string \<Rightarrow> string" where
  "demo_fr t = ''0.5''"

text \<open>Every secret pattern needs one of these characters.\<close>

definition telltale :: "char \<Rightarrow> bool" where
  "telltale c \<longleftrightarrow> c \<in> set ''KA_gkxXB''"

lemma lower_x: "lower_char c = CHR ''x'' \<Longrightarrow> c = CHR ''x'' \<or> c = CHR ''X''"
proof -
  assume x: "lower_char c = CHR ''x''"
  show ?thesis
  proof (cases "lower_char c = c")
    case False
    then have "char_of (code c + 32) = CHR ''x''" "code c \<le> 222" using x by (auto simp: lower_char_def is_upper_az_def split: if_splits)
    then have "code (char_of (code c + 32)) = 120" by simp
    then have "code c = code CHR ''X''" using \<open>code c \<le> 222\<close> by simp
    then show ?thesis using of_char_eq_iff by blast
  qed (use x in simp)
qed

lemma not_secretI: "list_all (\<lambda>c. \<not> telltale c) s \<Longrightarrow> \<not> is_secret s"
proof -
  assume "list_all (\<lambda>c. \<not> telltale c) s"
  then have none: "\<not> list_ex telltale s" by (auto simp: list_all_iff list_ex_iff)
  have x: "\<forall>c. ignoring_case (\<lambda>d. d = CHR ''x'') c \<longrightarrow> telltale c"
    using lower_x by (auto simp: ignoring_case_def telltale_def)
  have signs: "list_all telltale ''KA_gkB''" by (simp add: telltale_def)
  have "needs telltale pattern" if "(name, pattern) \<in> set SECRET_PATTERNS" for name pattern
    using that x signs by (auto simp: SECRET_PATTERNS_def)
  then show ?thesis using no_search [OF _ none] by (auto simp: is_secret_def)
qed

definition demo_workflow :: pyval where
  "demo_workflow = PDict [(''pinData'', PInt 1), (''name'', PStr ''a'')]"

definition demo_secret :: pyval where
  "demo_secret = PList [PStr ''sk-abcdefgh12345678'']"

lemma demo_fr_law: "repr_float_law demo_fr"
proof -
  have "float_text ''0.5''"
    unfolding float_text_def
    by (rule exI [of _ "[]"], rule exI [of _ "''0''"], rule exI [of _ "''.5''"], rule exI [of _ "[]"])
      (auto simp: int_text_def frac_text_def exp_text_def digits_def is_decimal_def)
  then show ?thesis by (simp add: repr_float_law_def demo_fr_def)
qed

lemma demo_loads:
  "json_loads demo_fr (dumps_stable demo_workflow) = Inr (canon demo_workflow)"
  "json_loads demo_fr (dumps_stable demo_secret) = Inr (canon demo_secret)"
  by (simp_all add: dumps_stable_def loads_indent demo_workflow_def demo_secret_def del: canon.simps json_indent.simps)

lemma demo_no_secret: "\<not> is_secret ''a''"
  by (rule not_secretI) (simp add: telltale_def)

lemma demo_is_secret: "is_secret ''sk-abcdefgh12345678''"
proof -
  have "re_search (seq [WordBoundary, Lit ''sk-'', Many ascii_alnum 16 None, WordBoundary]) ''sk-abcdefgh12345678''"
    by (simp add: re_search_def at_boundary_def advance_def word_char_def ascii_alnum_def is_alnum_def is_alpha_def is_digit_def
        is_lower_az_def is_upper_az_def is_decimal_def)
  then show ?thesis unfolding is_secret_def SECRET_PATTERNS_def by simp
qed

definition demo_tree :: listing where
  "demo_tree = [([''w''], Directory), ([''w'', ''b.json''], RegularFile), ([''w'', ''a.txt''], RegularFile)]"

definition demo_files :: "string \<Rightarrow> text_files" where
  "demo_files s = [[''w'', ''b.json''] \<mapsto> Inr s]"

lemma demo_targets: "sanitize_targets demo_tree [] (Some [''w'']) = Some [[''w'', ''b.json'']]"
  by (simp add: sanitize_targets_def demo_tree_def listed_dir_def iter_json_files_def rglob_def json_pattern listed_file_def
      strict_prefix_def suffix_to_prefix del: glob_name.simps)

lemma demo_process:
  "process_file demo_fr (\<lambda>_. False) [''w'', ''b.json''] (demo_files (dumps_stable demo_workflow)) =
     (Inr True, demo_files (dumps_stable (PDict [(''name'', PStr ''a'')])))"
proof -
  have "process_text demo_fr (dumps_stable demo_workflow) = Inr (dumps_stable (PDict [(''name'', PStr ''a'')]))"
    unfolding process_text_Inr demo_loads
    by (simp add: demo_workflow_def demo_no_secret strip_PDict dropped_def DROP_KEYS_def del: strip_value.simps(1))
  moreover have "CHR 0x0D \<notin> set (dumps_stable demo_workflow)"
    using dumps_no_cr [of demo_fr demo_workflow 0] by (simp add: dumps_stable_def demo_workflow_def)
  moreover have "dumps_stable (PDict [(''name'', PStr ''a'')]) \<noteq> dumps_stable demo_workflow"
    by (simp add: dumps_stable_def demo_workflow_def Let_def json_raw_str_def json_raw_char_def json_char_def newline_indent_def)
  ultimately show ?thesis by (simp add: process_file_def read_text_def write_text_def newlines_id demo_files_def)
qed

lemma demo_main:
  "sanitize_main demo_fr (\<lambda>_. False) demo_tree [] (Some [''w'']) [] (demo_files (dumps_stable demo_workflow)) =
     (Some 0, demo_files (dumps_stable (PDict [(''name'', PStr ''a'')])), [])"
  by (simp add: sanitize_main_def demo_targets demo_process)

theorem sanitize_run_witness:
  "sanitize_main demo_fr (\<lambda>_. False) demo_tree [] (Some [''w'']) [] (demo_files (dumps_stable (PDict [(''name'', PStr ''a'')]))) =
     (Some 0, demo_files (dumps_stable (PDict [(''name'', PStr ''a'')])), [])"
  using sanitize_run [OF demo_fr_law demo_targets _ demo_main] by blast

theorem sanitizer_refuses_exactly_secrets_witness:
  "\<exists>m. process_text demo_fr (dumps_stable demo_secret) = Inl (SanitizeError (''secret pattern(s) matched: '' @ m))"
proof -
  have "string_in (canon demo_secret) ''sk-abcdefgh12345678''" by (simp add: demo_secret_def string_in_PList)
  then have "\<exists>x. string_in (canon demo_secret) x \<and> is_secret x" using demo_is_secret by blast
  then show ?thesis using sanitizer_refuses_exactly_secrets [OF demo_fr_law demo_loads(2)] by presburger
qed

text \<open>A secret that is used as a key is neither found nor removed.\<close>

theorem secret_key_accepted:
  "is_secret ''sk-abcdefgh12345678''
   \<and> process_text demo_fr (dumps_stable (PDict [(''sk-abcdefgh12345678'', PNone)]))
      = Inr (dumps_stable (PDict [(''sk-abcdefgh12345678'', PNone)]))"
proof
  let ?v = "PDict [(''sk-abcdefgh12345678'', PNone)]"
  have "json_loads demo_fr (dumps_stable ?v) = Inr (canon ?v)"
    by (simp add: dumps_stable_def loads_indent del: canon.simps json_indent.simps)
  moreover have "strip_value [] (canon ?v) = ?v"
    unfolding canon.simps by (simp add: dropped_def DROP_KEYS_def)
  ultimately show "process_text demo_fr (dumps_stable ?v) = Inr (dumps_stable ?v)"
    unfolding process_text_Inr by (intro exI [of _ "canon ?v"]) simp
qed (rule demo_is_secret)

end
