(* ===== verification/Sync_Snippets.thy ===== *)
theory Sync_Snippets
  imports Sanitize
begin

text \<open>
  \<open>scripts/sync_snippets.py\<close>: the body of a Code node whose first line names a snippet is replaced by the snippet's
  file.  The snippet directory is the map \<open>snippets\<close> from names to files; \<open>dir\<close> is its path in messages.  The document
  is updated in place by the code and returned here; a document is written only when no exception was raised.
\<close>

section \<open>Code nodes\<close>

definition CODE_BODY_KEYS :: "string list" where
  "CODE_BODY_KEYS = [''jsCode'', ''pythonCode'', ''functionCode'', ''code'']"

definition CODE_TYPES :: "string list" where
  "CODE_TYPES = [''n8n-nodes-base.code'']"

text \<open>\<open>SNIPPET_FIRST_LINE_RE.match(line)\<close> and its group.\<close>

definition name_char :: "char \<Rightarrow> bool" where
  "name_char c \<longleftrightarrow> ascii_alnum c \<or> one_of ''_.-'' c"

definition snippet_name :: "string \<Rightarrow> string option" where
  "snippet_name line =
     (if prefix ''// snippet:'' line
      then let r = dropWhile is_space (drop 11 line); name = takeWhile name_char r
           in if name \<noteq> [] \<and> list_all is_space (dropWhile name_char r) then Some name else None
      else None)"

definition first_line :: "string \<Rightarrow> string" where
  "first_line body = (if body = [] then [] else hd (splitlines body))"

definition invalid_name :: "string \<Rightarrow> bool" where
  "invalid_name name \<longleftrightarrow> contains ''..'' name \<or> CHR ''/'' \<in> set name \<or> CHR 0x5C \<in> set name"

text \<open>\<open>text.replace("\r\n", "\n")\<close>.\<close>

fun replace_crlf :: "string \<Rightarrow> string" where
  "replace_crlf [] = []"
| "replace_crlf (c # cs) =
     (if c = CHR 0x0D \<and> cs \<noteq> [] \<and> hd cs = CHR 0x0A then CHR 0x0A # replace_crlf (tl cs) else c # replace_crlf cs)"

type_synonym snippet_dir = "string \<rightharpoonup> py_error + string"

section \<open>Operations\<close>

datatype sync_error = SyncError string | SyncRead py_error

definition code_key :: "pydict \<Rightarrow> string option" where
  "code_key parameters = find (\<lambda>key. is_str (dget parameters key)) CODE_BODY_KEYS"

definition body_of :: "pydict \<Rightarrow> string \<Rightarrow> string" where
  "body_of parameters key = (case dget parameters key of PStr s \<Rightarrow> s | _ \<Rightarrow> [])"

definition type_of :: "pydict \<Rightarrow> string" where
  "type_of node = py_str (py_or (dget node ''type'') (PStr []))"

definition replacement_of :: "string \<Rightarrow> string" where
  "replacement_of content =
     (let t = replace_crlf (universal_newlines content)
      in if t \<noteq> [] \<and> \<not> suffix [CHR 0x0A] t then t @ [CHR 0x0A] else t)"

text \<open>The body of the loop over the nodes: the node afterwards and whether it was updated.\<close>

definition sync_node :: "snippet_dir \<Rightarrow> string \<Rightarrow> string \<Rightarrow> int \<Rightarrow> pyval \<Rightarrow> sync_error + pyval \<times> nat" where
  "sync_node snippets dir path index v =
     (case v of
        PDict node \<Rightarrow>
          if type_of node \<notin> set CODE_TYPES then Inr (v, 0)
          else (case dget node ''parameters'' of
                  PDict parameters \<Rightarrow>
                    (case code_key parameters of
                       None \<Rightarrow> Inr (v, 0)
                     | Some key \<Rightarrow>
                         (let body = body_of parameters key
                          in case snippet_name (first_line body) of
                               None \<Rightarrow> Inr (v, 0)
                             | Some name \<Rightarrow>
                                 (let label = py_repr (py_or (py_or (dget node ''name'') (dget node ''id'')) (PInt index))
                                  in if invalid_name name
                                     then Inl (SyncError (path @ '' node '' @ label @ '': invalid snippet name '' @ repr_str name))
                                     else case snippets name of
                                       None \<Rightarrow>
                                         Inl (SyncError (path @ '' node '' @ label @ '': snippet file missing: '' @ dir @ ''/'' @ name @ ''.js''))
                                     | Some (Inl e) \<Rightarrow> Inl (SyncRead e)
                                     | Some (Inr content) \<Rightarrow>
                                         (let replacement = replacement_of content
                                          in if replace_crlf body \<noteq> replacement
                                             then Inr (PDict (dict_set node ''parameters''
                                                        (PDict (dict_set parameters key (PStr replacement)))), 1)
                                             else Inr (v, 0)))))
                | _ \<Rightarrow> Inr (v, 0))
      | _ \<Rightarrow> Inr (v, 0))"

fun sync_nodes :: "snippet_dir \<Rightarrow> string \<Rightarrow> string \<Rightarrow> int \<Rightarrow> pyval list \<Rightarrow> sync_error + pyval list \<times> nat" where
  "sync_nodes snippets dir path index [] = Inr ([], 0)"
| "sync_nodes snippets dir path index (v # vs) =
     rbind (sync_node snippets dir path index v) (\<lambda>(v', n).
       rbind (sync_nodes snippets dir path (index + 1) vs) (\<lambda>(vs', m). Inr (v' # vs', n + m)))"

definition sync_workflow :: "snippet_dir \<Rightarrow> string \<Rightarrow> string \<Rightarrow> pydict \<Rightarrow> sync_error + pydict \<times> nat" where
  "sync_workflow snippets dir path workflow =
     (case dget workflow ''nodes'' of
        PList nodes \<Rightarrow>
          rbind (sync_nodes snippets dir path 0 nodes) (\<lambda>(nodes', n). Inr (dict_set workflow ''nodes'' (PList nodes'), n))
      | _ \<Rightarrow> Inr (workflow, 0))"

fun sync_items :: "snippet_dir \<Rightarrow> string \<Rightarrow> string \<Rightarrow> int \<Rightarrow> pyval list \<Rightarrow> sync_error + pyval list \<times> nat" where
  "sync_items snippets dir path index [] = Inr ([], 0)"
| "sync_items snippets dir path index (v # vs) =
     rbind (case v of
              PDict w \<Rightarrow> rbind (sync_workflow snippets dir (path @ ''['' @ str_int index @ '']'') w) (\<lambda>(w', n). Inr (PDict w', n))
            | _ \<Rightarrow> Inr (v, 0))
       (\<lambda>(v', n). rbind (sync_items snippets dir path (index + 1) vs) (\<lambda>(vs', m). Inr (v' # vs', n + m)))"

definition sync_document :: "snippet_dir \<Rightarrow> string \<Rightarrow> string \<Rightarrow> pyval \<Rightarrow> sync_error + pyval \<times> nat" where
  "sync_document snippets dir path v =
     (case v of
        PDict w \<Rightarrow> rbind (sync_workflow snippets dir path w) (\<lambda>(w', n). Inr (PDict w', n))
      | PList vs \<Rightarrow> rbind (sync_items snippets dir path 0 vs) (\<lambda>(vs', n). Inr (PList vs', n))
      | _ \<Rightarrow> Inl (SyncError (path @ '': expected a workflow object or a list of workflows'')))"

text \<open>The file is written even when no node was updated.\<close>

datatype sync_failure = SyncFailed sync_error | SyncBadJson json_error

definition sync_file ::
    "(string \<Rightarrow> string) \<Rightarrow> (path \<Rightarrow> bool) \<Rightarrow> snippet_dir \<Rightarrow> string \<Rightarrow> path \<Rightarrow> text_files \<Rightarrow> (sync_failure + nat) \<times> text_files" where
  "sync_file fr denied snippets dir p files =
     (case read_text files p of
        Inl e \<Rightarrow> (Inl (SyncFailed (SyncRead e)), files)
      | Inr s \<Rightarrow>
          (case json_loads fr s of
             Inl e \<Rightarrow> (Inl (SyncBadJson e), files)
           | Inr v \<Rightarrow>
               (case sync_document snippets dir (as_posix p) v of
                  Inl e \<Rightarrow> (Inl (SyncFailed e), files)
                | Inr (v', n) \<Rightarrow>
                    (case write_text denied p (dumps_stable v') files of
                       (Inl e, files') \<Rightarrow> (Inl (SyncFailed (SyncRead e)), files')
                     | (Inr _, files') \<Rightarrow> (Inr n, files')))))"

fun sync_caught :: "sync_failure \<Rightarrow> bool" where
  "sync_caught (SyncBadJson e) \<longleftrightarrow> e = JSONDecodeError"
| "sync_caught (SyncFailed (SyncError _)) \<longleftrightarrow> True"
| "sync_caught (SyncFailed (SyncRead e)) \<longleftrightarrow> e = OSError \<or> e = FileNotFoundError"

fun sync_all ::
    "(string \<Rightarrow> string) \<Rightarrow> (path \<Rightarrow> bool) \<Rightarrow> snippet_dir \<Rightarrow> string \<Rightarrow> path list \<Rightarrow> bool \<times> nat \<Rightarrow> text_files
     \<Rightarrow> (bool \<times> nat) option \<times> text_files" where
  "sync_all fr denied snippets dir [] acc files = (Some acc, files)"
| "sync_all fr denied snippets dir (p # ps) (failed, n) files =
     (case sync_file fr denied snippets dir p files of
        (Inr m, files') \<Rightarrow> sync_all fr denied snippets dir ps (failed, n + m) files'
      | (Inl e, files') \<Rightarrow> if sync_caught e then sync_all fr denied snippets dir ps (True, n) files' else (None, files'))"

definition default_workflow_files :: "listing \<Rightarrow> path \<Rightarrow> path list" where
  "default_workflow_files tree repo =
     sort (glob tree (repo @ [''platform'', ''workflows'']) [''*.json''])
     @ sort (glob tree repo [''projects'', ''*'', ''workflows'', ''*.json''])"

text \<open>
  \<open>main\<close> with parsed arguments, in the repository \<open>repo\<close>.  The targets are \<open>None\<close> when \<open>--in-place\<close> names no
  directory; the result is the exit code, the files and the standard output.
\<close>

definition sync_targets :: "listing \<Rightarrow> path \<Rightarrow> path list \<Rightarrow> path option \<Rightarrow> path list option" where
  "sync_targets tree repo args in_place =
     map_option (\<lambda>given. if given = [] then default_workflow_files tree repo else given)
       (case in_place of
          None \<Rightarrow> Some args
        | Some d \<Rightarrow> if listed_dir tree d then Some (args @ sort (rglob tree d ''*.json'')) else None)"

definition sync_main ::
    "(string \<Rightarrow> string) \<Rightarrow> (path \<Rightarrow> bool) \<Rightarrow> listing \<Rightarrow> path \<Rightarrow> snippet_dir \<Rightarrow> string \<Rightarrow> path list \<Rightarrow> path option \<Rightarrow> text_files
     \<Rightarrow> int option \<times> text_files \<times> string" where
  "sync_main fr denied tree repo snippets dir args in_place files =
     (case sync_targets tree repo args in_place of
        None \<Rightarrow> (Some 2, files, [])
      | Some targets \<Rightarrow>
          if targets = [] then (Some 2, files, [])
          else case sync_all fr denied snippets dir targets (False, 0) files of
                 (None, files') \<Rightarrow> (None, files', [])
               | (Some (failed, n), files') \<Rightarrow>
                   if failed then (Some 1, files', [])
                   else (Some 0, files', ''updated '' @ str_nat n @ '' Code node(s)'' @ [CHR 0x0A]))"

lemmas sync_defs [eval_simps] =
  CODE_BODY_KEYS_def CODE_TYPES_def name_char_def snippet_name_def first_line_def invalid_name_def code_key_def body_of_def
  type_of_def replacement_of_def sync_node_def sync_workflow_def sync_document_def sync_file_def
  default_workflow_files_def sync_targets_def sync_main_def

section \<open>Synchronizing twice\<close>

text \<open>
  The convention on the files of the snippet directory: one whose first line is a marker names itself there and its last
  line is ended.  A file without a marker, such as a test beside the snippets, is not restricted.
\<close>

definition snippet_files_ok :: "snippet_dir \<Rightarrow> bool" where
  "snippet_files_ok snippets \<longleftrightarrow>
     (\<forall>name content. snippets name = Some (Inr content) \<longrightarrow>
        (case snippet_name (first_line (universal_newlines content)) of
           None \<Rightarrow> True
         | Some marked \<Rightarrow> marked = name \<and> suffix [CHR 0x0A] (universal_newlines content)))"

lemma replace_crlf_id: "CHR 0x0D \<notin> set s \<Longrightarrow> replace_crlf s = s"
  by (induction s rule: replace_crlf.induct) auto

lemma first_line_takeWhile: "first_line s = takeWhile (\<lambda>c. \<not> is_line_break c) s"
proof -
  have "s \<noteq> [] \<Longrightarrow> splitlines s \<noteq> [] \<and> hd (splitlines s) = takeWhile (\<lambda>c. \<not> is_line_break c) s"
  proof (induction s rule: splitlines.induct)
    case (2 c cs)
    show ?case
    proof (cases "is_line_break c")
      case False
      then have "code c \<noteq> 13" by (auto simp: is_line_break_def)
      then show ?thesis using 2 False by (cases "cs = []") (auto split: list.splits)
    qed auto
  qed simp
  then show ?thesis by (simp add: first_line_def)
qed

lemma first_line_newline: "first_line (s @ [CHR 0x0A]) = first_line s"
proof -
  have "is_line_break (CHR 0x0A)" by (simp add: is_line_break_def)
  then show ?thesis by (auto simp: first_line_takeWhile takeWhile_append simp flip: takeWhile_eq_all_conv)
qed

lemma first_line_crlf: "first_line (replace_crlf s) = first_line s"
  unfolding first_line_takeWhile by (induction s rule: replace_crlf.induct) (auto simp: is_line_break_def)

lemma replacement_text:
  "replacement_of content
     = (if universal_newlines content \<noteq> [] \<and> \<not> suffix [CHR 0x0A] (universal_newlines content)
        then universal_newlines content @ [CHR 0x0A] else universal_newlines content)"
  by (simp add: replacement_of_def replace_crlf_id newlines_no_cr)

lemma replacement_lf: "replace_crlf (replacement_of content) = replacement_of content"
  using newlines_no_cr [of content] by (intro replace_crlf_id) (auto simp: replacement_text)

lemma replacement_ok:
  assumes "snippet_files_ok snippets" "snippets name = Some (Inr content)"
    "snippet_name (first_line (replacement_of content)) = Some marked"
  shows "marked = name" "replacement_of content = universal_newlines content"
proof -
  have "snippet_name (first_line (universal_newlines content)) = Some marked"
    using assms(3) by (auto simp: replacement_text first_line_newline split: if_splits)
  then show "marked = name" "replacement_of content = universal_newlines content"
    using assms(1,2) by (fastforce simp: snippet_files_ok_def replacement_text)+
qed

lemma dget_dict_set: "dget (dict_set d k v) k' = (if k' = k then v else dget d k')"
  by (simp add: dget_def map_of_dict_set)

lemma code_key_set:
  assumes "code_key parameters = Some key"
  shows "code_key (dict_set parameters key (PStr s)) = Some key"
proof -
  have "find (\<lambda>k. k = key \<or> is_str (dget parameters k)) ks = Some key"
    if "find (\<lambda>k. is_str (dget parameters k)) ks = Some key" for ks
    using that by (induction ks) (auto split: if_splits)
  moreover have "(\<lambda>k. is_str (dget (dict_set parameters key (PStr s)) k)) = (\<lambda>k. k = key \<or> is_str (dget parameters k))"
    by (auto simp: dget_dict_set)
  ultimately show ?thesis using assms by (simp add: code_key_def)
qed

text \<open>A node whose body is in order.\<close>

definition node_synced :: "snippet_dir \<Rightarrow> pyval \<Rightarrow> bool" where
  "node_synced snippets v \<longleftrightarrow>
     (\<forall>node parameters key name. v = PDict node \<and> type_of node \<in> set CODE_TYPES \<and> dget node ''parameters'' = PDict parameters
        \<and> code_key parameters = Some key \<and> snippet_name (first_line (body_of parameters key)) = Some name
      \<longrightarrow> \<not> invalid_name name
        \<and> (\<exists>content. snippets name = Some (Inr content) \<and> replace_crlf (body_of parameters key) = replacement_of content))"

lemma synced_sync: "node_synced snippets v \<Longrightarrow> sync_node snippets dir path index v = Inr (v, 0)"
  by (fastforce simp: sync_node_def node_synced_def Let_def split: pyval.splits option.splits)

lemma sync_node_synced:
  assumes "snippet_files_ok snippets" "sync_node snippets dir path index v = Inr (v', n)"
  shows "node_synced snippets v'"
proof (cases "n = 0")
  case True
  then have "v' = v"
    using assms(2) by (auto simp: sync_node_def Let_def split: pyval.splits option.splits sum.splits if_splits)
  then show ?thesis
    using assms(2) True by (auto simp: node_synced_def sync_node_def Let_def split: option.splits sum.splits if_splits)
next
  case False
  then obtain node parameters key name content where v: "v = PDict node" "type_of node \<in> set CODE_TYPES"
    "dget node ''parameters'' = PDict parameters" "code_key parameters = Some key"
    and name: "\<not> invalid_name name" "snippets name = Some (Inr content)"
    and v': "v' = PDict (dict_set node ''parameters'' (PDict (dict_set parameters key (PStr (replacement_of content)))))"
    using assms(2) by (auto simp: sync_node_def Let_def split: pyval.splits option.splits sum.splits if_splits)
  show ?thesis
    using v name code_key_set [OF v(4)] replacement_ok(1) [OF assms(1) name(2)] replacement_lf [of content]
    by (auto simp: node_synced_def v' dget_dict_set body_of_def type_of_def)
qed

lemma sync_nodes_synced:
  assumes "snippet_files_ok snippets" "sync_nodes snippets dir path index vs = Inr (vs', n)"
  shows "list_all (node_synced snippets) vs'"
  using assms(2)
proof (induction vs arbitrary: index vs' n)
  case (Cons v vs)
  then show ?case using sync_node_synced [OF assms(1)] by (auto simp: rbind_eq_Inr_iff)
qed simp

lemma synced_nodes_sync: "list_all (node_synced snippets) vs \<Longrightarrow> sync_nodes snippets dir path index vs = Inr (vs, 0)"
  by (induction vs arbitrary: index) (auto simp: synced_sync)

definition workflow_synced :: "snippet_dir \<Rightarrow> pydict \<Rightarrow> bool" where
  "workflow_synced snippets w \<longleftrightarrow> (\<forall>nodes. dget w ''nodes'' = PList nodes \<longrightarrow> list_all (node_synced snippets) nodes)"

lemma dict_set_same: "map_of d k = Some v \<Longrightarrow> dict_set d k v = d"
  by (induction d k v rule: dict_set.induct) (auto split: if_splits)

lemma synced_workflow_sync: "workflow_synced snippets w \<Longrightarrow> sync_workflow snippets dir path w = Inr (w, 0)"
proof (cases "dget w ''nodes''")
  case (PList nodes)
  assume "workflow_synced snippets w"
  then have "sync_nodes snippets dir path 0 nodes = Inr (nodes, 0)"
    using PList by (simp add: workflow_synced_def synced_nodes_sync)
  moreover have "dict_set w ''nodes'' (PList nodes) = w"
    using PList by (intro dict_set_same) (auto simp: dget_def split: option.splits)
  ultimately show ?thesis using PList by (simp add: sync_workflow_def)
qed (simp_all add: sync_workflow_def)

lemma sync_workflow_synced:
  assumes "snippet_files_ok snippets" "sync_workflow snippets dir path w = Inr (w', n)"
  shows "workflow_synced snippets w'"
proof (cases "dget w ''nodes''")
  case (PList nodes)
  then show ?thesis
    using assms sync_nodes_synced [OF assms(1)]
    by (auto simp: sync_workflow_def workflow_synced_def rbind_eq_Inr_iff dget_dict_set)
qed (use assms(2) in \<open>auto simp: sync_workflow_def workflow_synced_def\<close>)

text \<open>The workflows of a document.\<close>

definition document_synced :: "snippet_dir \<Rightarrow> pyval \<Rightarrow> bool" where
  "document_synced snippets v \<longleftrightarrow>
     (case v of
        PDict w \<Rightarrow> workflow_synced snippets w
      | PList vs \<Rightarrow> (\<forall>w. PDict w \<in> set vs \<longrightarrow> workflow_synced snippets w)
      | _ \<Rightarrow> False)"

lemma sync_items_synced:
  assumes "snippet_files_ok snippets" "sync_items snippets dir path index vs = Inr (vs', n)"
  shows "\<forall>w. PDict w \<in> set vs' \<longrightarrow> workflow_synced snippets w"
  using assms(2)
proof (induction vs arbitrary: index vs' n)
  case (Cons v vs)
  obtain v1 m1 vs1 m2 where split: "sync_items snippets dir path (index + 1) vs = Inr (vs1, m2)" "vs' = v1 # vs1"
    and v1: "(case v of PDict w \<Rightarrow> rbind (sync_workflow snippets dir (path @ ''['' @ str_int index @ '']'') w) (\<lambda>(w', n). Inr (PDict w', n))
       | _ \<Rightarrow> Inr (v, 0)) = Inr (v1, m1)"
    using Cons.prems by (fastforce simp: rbind_eq_Inr_iff)
  have "workflow_synced snippets w" if "v1 = PDict w" for w
    using v1 that sync_workflow_synced [OF assms(1)] by (auto simp: rbind_eq_Inr_iff split: pyval.splits)
  then show ?case using Cons.IH [OF split(1)] split(2) by auto
qed simp

lemma synced_items_sync:
  "\<forall>w. PDict w \<in> set vs \<longrightarrow> workflow_synced snippets w \<Longrightarrow> sync_items snippets dir path index vs = Inr (vs, 0)"
proof (induction vs arbitrary: index)
  case (Cons v vs)
  then show ?case by (cases v) (auto simp: synced_workflow_sync)
qed simp

lemma sync_document_synced:
  "snippet_files_ok snippets \<Longrightarrow> sync_document snippets dir path v = Inr (v', n) \<Longrightarrow> document_synced snippets v'"
  by (auto simp: sync_document_def document_synced_def rbind_eq_Inr_iff split: pyval.splits
      dest: sync_workflow_synced sync_items_synced)

lemma synced_document_sync: "document_synced snippets v \<Longrightarrow> sync_document snippets dir path v = Inr (v, 0)"
  by (auto simp: sync_document_def document_synced_def synced_workflow_sync synced_items_sync split: pyval.splits)

end
