(* ===== verification/Lint.thy ===== *)
theory Lint
  imports Sync_Snippets
begin

text \<open>
  \<open>scripts/lint_workflows.py\<close>: the rules on workflow exports.  A node whose \<open>parameters\<close> are truthy but no dict makes the
  code raise \<open>AttributeError\<close>; reading a snippet can raise too, so a workflow is linted to issues or
  an exception.  Snippets and files are those of the other scripts.
\<close>

section \<open>Patterns\<close>

definition MAX_NODES :: nat where "MAX_NODES = 40"

definition DEFAULT_NODE_NAME_RE :: regex where
  "DEFAULT_NODE_NAME_RE =
     Then (alt [''HTTP Request'', ''Code'', ''Set'', ''IF'', ''If'', ''Switch'', ''Merge'', ''Webhook'', ''Edit Fields'', ''Filter'',
                ''Wait'', ''Split Out'', ''Split In Batches'', ''Schedule Trigger'', ''Manual Trigger'', ''Error Trigger'',
                ''No Operation, do nothing'', ''Sticky Note'', ''Note'', ''Execute Workflow'', ''Execute Sub-workflow''])
          (Many is_decimal 0 None)"

definition LITERAL_HTTP_RE :: regex where
  "LITERAL_HTTP_RE = seq [lit_i ''http'', Many (ignoring_case (\<lambda>c. c = CHR ''s'')) 0 (Some 1), Lit ''://'']"

definition gap :: regex where
  "gap = Many (\<lambda>c. c \<noteq> CHR 0x0A) 0 (Some 40)"

definition SETTINGS_LOOKUP_NAME_RE :: regex where
  "SETTINGS_LOOKUP_NAME_RE =
     Or (seq [Or (lit_i ''lookup'') (Or (lit_i ''load'') (Or (lit_i ''get'') (Or (lit_i ''read'') (lit_i ''fetch'')))), gap, lit_i ''settings''])
        (seq [lit_i ''settings'', gap, Or (lit_i ''lookup'') (Or (lit_i ''table'') (lit_i ''row''))])"

definition SETTINGS_WORD_RE :: regex where
  "SETTINGS_WORD_RE = seq [WordBoundary, lit_i ''settings'', WordBoundary]"

text \<open>\<open>EXPRESSION_ONLY_RE.fullmatch(text.strip())\<close> and its group.\<close>

definition expression_body :: "string \<Rightarrow> string option" where
  "expression_body s =
     (let t = py_strip s; u = (if prefix ''='' t then tl t else t); r = drop 2 (dropWhile is_space u)
      in if prefix [CHR 0x7B, CHR 0x7B] (dropWhile is_space u) \<and> suffix [CHR 0x7D, CHR 0x7D] r \<and> 2 < length r
         then Some (take (length r - 2) r) else None)"

definition HTTP_REQUEST_TYPES :: "string list" where
  "HTTP_REQUEST_TYPES = [''n8n-nodes-base.httpRequest'', ''n8n-nodes-base.httpRequestTool'']"

section \<open>Rules on one node\<close>

record issue =
  issue_path :: string
  issue_message :: string

definition mk_issue :: "string \<Rightarrow> string \<Rightarrow> issue" where
  "mk_issue p m = \<lparr>issue_path = p, issue_message = m\<rparr>"

definition issue_str :: "issue \<Rightarrow> string" where
  "issue_str i = issue_path i @ '': '' @ issue_message i"

text \<open>\<open>node.get("parameters") or {}\<close>, on which \<open>get\<close> is called.\<close>

definition params_of :: "pydict \<Rightarrow> pydict res" where
  "params_of node =
     (case py_or (dget node ''parameters'') (PDict []) of PDict d \<Rightarrow> Inr d | _ \<Rightarrow> Inl AttributeError)"

definition code_body :: "pydict \<Rightarrow> string res" where
  "code_body node =
     rbind (params_of node) (\<lambda>params.
       Inr (case code_key params of None \<Rightarrow> [] | Some key \<Rightarrow> body_of params key))"

definition unset :: "pyval \<Rightarrow> bool" where
  "unset v \<longleftrightarrow> v = PNone \<or> v = PStr []"

definition http_timeout :: "pydict \<Rightarrow> pyval res" where
  "http_timeout node =
     rbind (params_of node) (\<lambda>params.
       let nested = (case dget params ''options'' of PDict options \<Rightarrow> dget options ''timeout'' | _ \<Rightarrow> PNone)
       in if \<not> unset nested then Inr nested
          else if \<not> unset (dget params ''timeout'') then Inr (dget params ''timeout'')
          else Inr PNone)"

text \<open>A text that \<open>float()\<close> refuses counts as set; so does \<open>inf\<close>, while \<open>nan\<close>, \<open>-inf\<close> and a number that
  underflows to zero do not.\<close>

definition timeout_text_set :: "string \<Rightarrow> bool" where
  "timeout_text_set s \<longleftrightarrow>
     (let stripped = py_strip s; (neg, body) = sign_and_body (py_lower stripped)
      in stripped \<noteq> []
         \<and> (prefix (''='' @ [CHR 0x7B, CHR 0x7B]) stripped \<or> prefix [CHR 0x7B, CHR 0x7B] stripped
            \<or> (if body \<in> {''inf'', ''infinity''} then \<not> neg
               else if body = ''nan'' then False
               else case float_of_string stripped of None \<Rightarrow> True | Some q \<Rightarrow> float_positive q)))"

definition timeout_is_set :: "pydict \<Rightarrow> bool res" where
  "timeout_is_set node =
     rbind (http_timeout node) (\<lambda>t.
       Inr (case t of
              PNone \<Rightarrow> False
            | PBool _ \<Rightarrow> False
            | PInt i \<Rightarrow> 0 < i
            | PFloat f \<Rightarrow> f = ''inf'' \<or> (case float_val f of None \<Rightarrow> False | Some q \<Rightarrow> 0 < q)
            | PStr s \<Rightarrow> timeout_text_set s
            | _ \<Rightarrow> True))"

definition name_of :: "pydict \<Rightarrow> string" where
  "name_of node = py_str (py_or (dget node ''name'') (PStr []))"

definition is_settings_lookup_node :: "pydict \<Rightarrow> bool res" where
  "is_settings_lookup_node node =
     (if re_search SETTINGS_LOOKUP_NAME_RE (name_of node) then Inr True
      else if suffix ''.postgres'' (type_of node)
      then rbind (params_of node) (\<lambda>params.
             Inr (case py_or (py_or (dget params ''query'') (dget params ''sql'')) (PStr []) of
                    PStr q \<Rightarrow> re_search SETTINGS_WORD_RE q
                  | _ \<Rightarrow> False))
      else Inr False)"

definition has_literal_http_url :: "string \<Rightarrow> bool" where
  "has_literal_http_url s \<longleftrightarrow>
     (if \<not> re_search LITERAL_HTTP_RE s then False
      else case expression_body s of
             Some e \<Rightarrow> re_search LITERAL_HTTP_RE e
           | None \<Rightarrow> True)"

text \<open>Enumerated, as \<open>enumerate\<close> does.\<close>

fun number_from :: "nat \<Rightarrow> 'a list \<Rightarrow> (nat \<times> 'a) list" where
  "number_from n [] = []"
| "number_from n (x # xs) = (n, x) # number_from (Suc n) xs"

lemma set_number_from: "snd ` set (number_from n xs) = set xs"
  by (induction xs arbitrary: n) auto

lemma number_from_in: "(i, x) \<in> set (number_from n xs) \<Longrightarrow> x \<in> set xs"
  using set_number_from [of n xs] by force

function scan_hardcoded_urls :: "pyval \<Rightarrow> string \<Rightarrow> string \<Rightarrow> issue list" where
  "scan_hardcoded_urls (PDict d) label path =
     concat (map (\<lambda>(k, v). scan_hardcoded_urls v label (path @ ''.'' @ k)) d)"
| "scan_hardcoded_urls (PList xs) label path =
     concat (map (\<lambda>(i, v). scan_hardcoded_urls v label (path @ ''['' @ str_nat i @ '']'')) (number_from 0 xs))"
| "scan_hardcoded_urls (PStr s) label path =
     (if has_literal_http_url s then [mk_issue path (''node '' @ label @ '': hardcoded http(s) URL in parameters'')] else [])"
| "scan_hardcoded_urls PNone label path = []"
| "scan_hardcoded_urls (PBool b) label path = []"
| "scan_hardcoded_urls (PInt i) label path = []"
| "scan_hardcoded_urls (PFloat t) label path = []"
  by pat_completeness auto

lemma size_pair: "(k, v) \<in> set d \<Longrightarrow> size v < size (PDict d)"
  by (induction d) auto

lemma size_element: "v \<in> set xs \<Longrightarrow> size v < size (PList xs)"
  by (induction xs) auto

termination scan_hardcoded_urls
  by (relation "measure (\<lambda>(v, _, _). size v)")
    (auto dest!: size_pair number_from_in size_element)

definition snippet_issues :: "snippet_dir \<Rightarrow> string \<Rightarrow> pydict \<Rightarrow> string \<Rightarrow> issue list res" where
  "snippet_issues snippets dir node path =
     rbind (code_body node) (\<lambda>body.
       case snippet_name (first_line body) of
         None \<Rightarrow> Inr []
       | Some name \<Rightarrow>
           (let label = py_repr (py_or (py_or (dget node ''name'') (dget node ''id'')) (PStr ''?''))
            in if invalid_name name then Inr [mk_issue path (''node '' @ label @ '': invalid snippet name '' @ repr_str name)]
               else case snippets name of
                      None \<Rightarrow>
                        Inr [mk_issue path (''node '' @ label @ '': snippet '' @ repr_str name @ '' missing at '' @ dir @ ''/'' @ name @ ''.js'')]
                    | Some (Inl e) \<Rightarrow> Inl e
                    | Some (Inr content) \<Rightarrow>
                        if replace_crlf body \<noteq> replace_crlf (universal_newlines content)
                        then Inr [mk_issue path (''node '' @ label @ '': Code body differs from code-snippets/'' @ name @ ''.js'')]
                        else Inr []))"

text \<open>The body of the loop over the nodes.\<close>

definition lint_node :: "snippet_dir \<Rightarrow> string \<Rightarrow> string \<Rightarrow> nat \<times> pyval \<Rightarrow> issue list res" where
  "lint_node snippets dir path = (\<lambda>(index, v).
     case v of
       PDict node \<Rightarrow>
         (let node_path = path @ ''.nodes['' @ str_nat index @ '']'';
              label = py_repr (py_or (py_or (PStr (name_of node)) (dget node ''id'')) (PInt (int index)));
              say = (\<lambda>m. mk_issue node_path (''node '' @ label @ m))
          in rbind (if type_of node \<in> set HTTP_REQUEST_TYPES then rbind (timeout_is_set node) (\<lambda>b. Inr (\<not> b)) else Inr False) (\<lambda>no_timeout.
             rbind (if type_of node \<in> set CODE_TYPES then snippet_issues snippets dir node node_path else Inr []) (\<lambda>snip.
             rbind (is_settings_lookup_node node) (\<lambda>lookup.
               Inr ((if map_of node ''pinData'' \<noteq> None then [say '': pinData is present''] else [])
                    @ (if re_fullmatch DEFAULT_NODE_NAME_RE (name_of node) then [say '': default node name''] else [])
                    @ (if no_timeout then [say '': HTTP Request missing parameters.options.timeout''] else [])
                    @ snip
                    @ (if lookup then []
                       else scan_hardcoded_urls (dget node ''parameters'') label (node_path @ ''.parameters'')))))))
     | _ \<Rightarrow> Inr [])"

section \<open>Workflows and documents\<close>

definition missing_error :: "pydict \<Rightarrow> bool" where
  "missing_error workflow \<longleftrightarrow>
     (let settings = (case dget workflow ''settings'' of PDict d \<Rightarrow> d | _ \<Rightarrow> [])
      in dget settings ''errorWorkflow'' \<in> {PNone, PStr [], PDict [], PList []})"

definition nodes_of :: "pydict \<Rightarrow> pyval list" where
  "nodes_of workflow = (case dget workflow ''nodes'' of PList nodes \<Rightarrow> nodes | _ \<Rightarrow> [])"

definition lint_workflow :: "snippet_dir \<Rightarrow> string \<Rightarrow> string \<Rightarrow> pydict \<Rightarrow> issue list res" where
  "lint_workflow snippets dir path workflow =
     (let nodes = nodes_of workflow
      in rbind (rmap (lint_node snippets dir path) (number_from 0 nodes)) (\<lambda>per_node.
           Inr ((if map_of workflow ''pinData'' \<noteq> None then [mk_issue path ''pinData is present''] else [])
                @ (if missing_error workflow \<and> \<not> contains ''Error Handler'' (name_of workflow)
                   then [mk_issue path ''missing settings.errorWorkflow''] else [])
                @ (if MAX_NODES < length nodes
                   then [mk_issue path (''more than 40 nodes ('' @ str_nat (length nodes) @ '' found)'')] else [])
                @ concat per_node
                @ map (\<lambda>m. mk_issue path (''secret pattern matched: '' @ m)) (find_secret_matches (PDict workflow)))))"

definition iter_workflows :: "pyval \<Rightarrow> (string \<times> pydict) list" where
  "iter_workflows v =
     (case v of
        PDict d \<Rightarrow> [([], d)]
      | PList xs \<Rightarrow> concat (map (\<lambda>(i, x). case x of PDict d \<Rightarrow> [(''['' @ str_nat i @ '']'', d)] | _ \<Rightarrow> []) (number_from 0 xs))
      | _ \<Rightarrow> [])"

definition lint_document :: "snippet_dir \<Rightarrow> string \<Rightarrow> string \<Rightarrow> pyval \<Rightarrow> issue list res" where
  "lint_document snippets dir path v =
     (let workflows = iter_workflows v
      in rbind (rmap (\<lambda>(sfx, w). lint_workflow snippets dir (path @ sfx) w) workflows) (\<lambda>per_workflow.
           Inr (concat per_workflow
                @ (if workflows = [] then [mk_issue path ''expected a workflow object or a list of workflows''] else []))))"

text \<open>\<open>main\<close> with parsed arguments; \<open>None\<close> is an exception that is not caught.  The output is on the standard error.\<close>

fun lint_all ::
    "(string \<Rightarrow> string) \<Rightarrow> snippet_dir \<Rightarrow> string \<Rightarrow> text_files \<Rightarrow> path list \<Rightarrow> int \<Rightarrow> int option \<times> string list" where
  "lint_all fr snippets dir files [] failed = (Some failed, [])"
| "lint_all fr snippets dir files (p # ps) failed =
     (case (case read_text files p of
              Inl e \<Rightarrow> if e = OSError \<or> e = FileNotFoundError then Inr None else Inl ()
            | Inr s \<Rightarrow>
                (case json_loads fr s of
                   Inl e \<Rightarrow> if e = JSONDecodeError then Inr None else Inl ()
                 | Inr v \<Rightarrow> Inr (Some v))) of
        Inl _ \<Rightarrow> (None, [])
      | Inr None \<Rightarrow>
          (let (result, err) = lint_all fr snippets dir files ps 1 in (result, (as_posix p @ '': cannot read JSON'') # err))
      | Inr (Some v) \<Rightarrow>
          (case lint_document snippets dir (as_posix p) v of
             Inl _ \<Rightarrow> (None, [])
           | Inr issues \<Rightarrow>
               (let (result, err) = lint_all fr snippets dir files ps (if issues = [] then failed else 1)
                in (result, map issue_str issues @ err))))"

definition lint_default_workflow_files :: "listing \<Rightarrow> path \<Rightarrow> path list" where
  "lint_default_workflow_files tree repo =
     sort (glob tree (repo @ [''platform'', ''workflows'']) [''*.json''])
     @ sort (glob tree repo [''projects'', ''*'', ''workflows'', ''*.json''])"

definition lint_main ::
    "(string \<Rightarrow> string) \<Rightarrow> listing \<Rightarrow> path \<Rightarrow> snippet_dir \<Rightarrow> string \<Rightarrow> text_files \<Rightarrow> path list \<Rightarrow> path option
     \<Rightarrow> int option \<times> string list" where
  "lint_main fr tree repo snippets dir files args in_dir =
     (case (case in_dir of
              None \<Rightarrow> Inr args
            | Some d \<Rightarrow> if listed_dir tree d then Inr (args @ sort (rglob tree d ''*.json'')) else Inl d) of
        Inl d \<Rightarrow> (Some 2, [''error: not a directory: '' @ as_posix d])
      | Inr given \<Rightarrow>
          (let targets = (if given = [] then lint_default_workflow_files tree repo else given)
           in if targets = [] then (Some 2, [''error: no workflow JSON files to lint''])
              else lint_all fr snippets dir files targets 0))"

lemmas lint_defs [eval_simps] =
  MAX_NODES_def DEFAULT_NODE_NAME_RE_def LITERAL_HTTP_RE_def gap_def SETTINGS_LOOKUP_NAME_RE_def SETTINGS_WORD_RE_def
  expression_body_def HTTP_REQUEST_TYPES_def mk_issue_def issue_str_def params_of_def code_body_def unset_def http_timeout_def
  timeout_text_set_def timeout_is_set_def name_of_def is_settings_lookup_node_def has_literal_http_url_def
  snippet_issues_def lint_node_def missing_error_def nodes_of_def lint_workflow_def iter_workflows_def lint_document_def
  lint_default_workflow_files_def lint_main_def

section \<open>Linting what the other scripts produced\<close>

lemma params_of_dict: "dget node ''parameters'' = PDict d \<Longrightarrow> params_of node = Inr d"
  by (simp add: params_of_def py_or_def)

lemma code_key_Nil: "code_key [] = None"
  by (simp add: code_key_def CODE_BODY_KEYS_def)

lemma snippet_name_Nil: "snippet_name (first_line []) = None"
  by (simp add: snippet_name_def first_line_def)

lemma synced_node_lints:
  assumes "snippet_files_ok snippets" "node_synced snippets (PDict node)" "type_of node \<in> set CODE_TYPES"
  shows "snippet_issues snippets dir node path \<in> {Inr [], Inl AttributeError}"
proof (cases "params_of node")
  case (Inl e)
  then have "e = AttributeError" by (auto simp: params_of_def split: pyval.splits)
  then show ?thesis using Inl by (simp add: snippet_issues_def code_body_def)
next
  case (Inr params)
  show ?thesis
  proof (cases "code_key params")
    case None
    then show ?thesis using Inr by (simp add: snippet_issues_def code_body_def snippet_name_Nil)
  next
    case (Some key)
    then have "params \<noteq> []" by (auto simp: code_key_Nil)
    then have params: "dget node ''parameters'' = PDict params"
      using Inr by (auto simp: params_of_def py_or_def split: if_splits pyval.splits)
    show ?thesis
    proof (cases "snippet_name (first_line (body_of params key))")
      case None
      then show ?thesis using Inr Some by (simp add: snippet_issues_def code_body_def)
    next
      case name: (Some name)
      then obtain content where content: "\<not> invalid_name name" "snippets name = Some (Inr content)"
        "replace_crlf (body_of params key) = replacement_of content"
        using assms(2,3) params Some unfolding node_synced_def by blast
      have "first_line (replacement_of content) = first_line (body_of params key)"
        unfolding content(3) [symmetric] by (rule first_line_crlf)
      then have "replacement_of content = universal_newlines content"
        using replacement_ok(2) [OF assms(1) content(2)] name by simp
      then show ?thesis
        using Inr Some name content replacement_lf [of content]
        by (simp add: snippet_issues_def code_body_def Let_def)
    qed
  qed
qed

lemma iter_workflows_in: "(sfx, w) \<in> set (iter_workflows v) \<Longrightarrow> v = PDict w \<or> (\<exists>vs. v = PList vs \<and> PDict w \<in> set vs)"
  by (auto simp: iter_workflows_def split: pyval.splits dest!: number_from_in)

lemma list_all2_list_all: "list_all2 P xs ys \<Longrightarrow> (\<And>x y. x \<in> set xs \<Longrightarrow> P x y \<Longrightarrow> Q y) \<Longrightarrow> list_all Q ys"
  by (induction rule: list_all2_induct) auto

lemma clean_no_pin: "clean path (PDict d) \<Longrightarrow> map_of d ''pinData'' = None"
  by (auto simp: map_of_eq_None_iff list_all_iff volatile_def)

lemma clean_nodes: "clean path (PDict w) \<Longrightarrow> PDict node \<in> set (nodes_of w) \<Longrightarrow> map_of node ''pinData'' = None"
proof -
  assume clean: "clean path (PDict w)" and node: "PDict node \<in> set (nodes_of w)"
  then have nodes: "map_of w ''nodes'' = Some (PList (nodes_of w))"
    by (cases "map_of w ''nodes''"; cases "dget w ''nodes''") (auto simp: nodes_of_def dget_def)
  then have "clean (child_path path ''nodes'') (PList (nodes_of w))" using clean by (auto simp: list_all_iff dest!: map_of_SomeD)
  then show ?thesis using node clean_no_pin by (auto simp: list_all_iff simp del: clean.simps(1))
qed

end
