(* ===== verification/Workflow_Pipeline.thy ===== *)
theory Workflow_Pipeline
  imports Lint
begin

text \<open>
  The scripts one after the other on the same files: what \<open>sync_snippets\<close> keeps of a sanitized workflow, that its
  run settles (an interpretation of \<open>file_loop\<close>), and what the linter can still find in files that were sanitized and
  synchronized.
\<close>

section \<open>What a synchronization changes\<close>

text \<open>Only string values, and only into the text of a snippet.\<close>

inductive updates :: "snippet_dir \<Rightarrow> pyval \<Rightarrow> pyval \<Rightarrow> bool" for snippets where
  updates_same: "updates snippets v v"
| updates_body: "snippets name = Some (Inr content) \<Longrightarrow> updates snippets (PStr s) (PStr (replacement_of content))"
| updates_list: "list_all2 (updates snippets) vs vs' \<Longrightarrow> updates snippets (PList vs) (PList vs')"
| updates_dict:
    "map fst d = map fst d' \<Longrightarrow> list_all2 (updates snippets) (map snd d) (map snd d') \<Longrightarrow> updates snippets (PDict d) (PDict d')"
monos list.rel_mono

lemma updates_set:
  assumes "updates snippets (dget d k) v" "map_of d k \<noteq> None"
  shows "updates snippets (PDict d) (PDict (dict_set d k v))"
proof (rule updates_dict)
  show "map fst d = map fst (dict_set d k v)"
    using assms(2) by (auto simp: keys_dict_set map_of_eq_None_iff)
  obtain u where "map_of d k = Some u" "updates snippets u v" using assms by (auto simp: dget_def)
  then show "list_all2 (updates snippets) (map snd d) (map snd (dict_set d k v))"
    by (induction d) (auto simp: list_all2_same updates_same split: if_splits)
qed

lemma dget_key: "dget d k \<noteq> PNone \<Longrightarrow> map_of d k \<noteq> None"
  by (auto simp: dget_def split: option.splits)

lemma sync_node_updates:
  assumes "sync_node snippets dir path index v = Inr (v', n)"
  shows "updates snippets v v'"
proof (cases "v' = v")
  case False
  then obtain node parameters key name content where v: "v = PDict node"
    "dget node ''parameters'' = PDict parameters" "code_key parameters = Some key"
    and name: "snippets name = Some (Inr content)"
    and v': "v' = PDict (dict_set node ''parameters'' (PDict (dict_set parameters key (PStr (replacement_of content)))))"
    using assms by (auto simp: sync_node_def Let_def split: pyval.splits option.splits sum.splits if_splits)
  obtain s where s: "dget parameters key = PStr s"
    using v(3) by (cases "dget parameters key") (auto simp: code_key_def find_Some_iff)
  have "updates snippets (PDict parameters) (PDict (dict_set parameters key (PStr (replacement_of content))))"
    using s name by (intro updates_set dget_key) (auto intro: updates_body)
  then show ?thesis unfolding v v' using v(2) by (intro updates_set dget_key) auto
qed (simp add: updates_same)

lemma sync_nodes_updates: "sync_nodes snippets dir path index vs = Inr (vs', n) \<Longrightarrow> list_all2 (updates snippets) vs vs'"
  by (induction vs arbitrary: index vs' n) (auto simp: rbind_eq_Inr_iff dest: sync_node_updates)

lemma sync_workflow_updates: "sync_workflow snippets dir path w = Inr (w', n) \<Longrightarrow> updates snippets (PDict w) (PDict w')"
  by (auto simp: sync_workflow_def rbind_eq_Inr_iff split: pyval.splits
      intro!: updates_set dget_key updates_same updates_list dest: sync_nodes_updates)

lemma sync_items_updates: "sync_items snippets dir path index vs = Inr (vs', n) \<Longrightarrow> list_all2 (updates snippets) vs vs'"
  by (induction vs arbitrary: index vs' n)
    (auto simp: rbind_eq_Inr_iff updates_same split: pyval.splits dest: sync_workflow_updates)

lemma sync_document_updates: "sync_document snippets dir path v = Inr (v', n) \<Longrightarrow> updates snippets v v'"
  by (auto simp: sync_document_def rbind_eq_Inr_iff split: pyval.splits
      intro: updates_list dest: sync_workflow_updates sync_items_updates)

text \<open>So JSON stays JSON, a clean workflow stays clean, and every new string is a snippet.\<close>

lemma updates_is_str: "updates snippets v v' \<Longrightarrow> is_str v' = is_str v"
  by (induction rule: updates.induct) simp_all

lemma updates_entry:
  "map fst d = map fst d' \<Longrightarrow> list_all2 P (map snd d) (map snd d') \<Longrightarrow> (k, v') \<in> set d' \<Longrightarrow> \<exists>v. (k, v) \<in> set d \<and> P v v'"
proof (induction d arbitrary: d')
  case (Cons e d)
  then obtain e' d1 where d': "d' = e' # d1" by (cases d') auto
  then show ?case using Cons.IH [of d1] Cons.prems by (cases e; cases e') auto
qed simp

lemma updates_element: "list_all2 P vs vs' \<Longrightarrow> v' \<in> set vs' \<Longrightarrow> \<exists>v \<in> set vs. P v v'"
  by (induction rule: list_all2_induct) auto

lemma updates_json_ok: "updates snippets v v' \<Longrightarrow> json_ok fr v \<Longrightarrow> json_ok fr v'"
proof (induction rule: updates.induct)
  case (updates_list vs vs')
  then show ?case by (fastforce simp: list_all_iff dest: updates_element)
next
  case (updates_dict d d')
  then show ?case by (fastforce simp: list_all_iff dest: updates_entry)
qed simp_all

lemma updates_clean: "updates snippets v v' \<Longrightarrow> clean path v \<Longrightarrow> clean path v'"
proof (induction arbitrary: path rule: updates.induct)
  case (updates_list vs vs')
  then show ?case by (fastforce simp: list_all_iff dest: updates_element)
next
  case (updates_dict d d')
  have "\<not> dropped path k v' \<and> clean (child_path path k) v'" if "(k, v') \<in> set d'" for k v'
  proof -
    from updates_entry [OF updates_dict(1,2) that] obtain v
      where v: "(k, v) \<in> set d" "updates snippets v v'" "\<forall>path. clean path v \<longrightarrow> clean path v'"
      by blast
    then show ?thesis
      using updates_dict(3) updates_is_str [OF v(2)] by (fastforce simp: list_all_iff dropped_def simp flip: dropped_volatile)
  qed
  then show ?case by (auto simp: list_all_iff simp flip: dropped_volatile)
qed simp_all

lemma updates_strings:
  "updates snippets v v' \<Longrightarrow> s \<in> set (collect_strings v') \<Longrightarrow>
     s \<in> set (collect_strings v) \<or> (\<exists>name content. snippets name = Some (Inr content) \<and> s = replacement_of content)"
proof (induction rule: updates.induct)
  case (updates_list vs vs')
  then obtain v' where "v' \<in> set vs'" "s \<in> set (collect_strings v')" by auto
  then show ?case using updates_element [OF updates_list(1)] by fastforce
next
  case (updates_dict d d')
  then obtain k v' where "(k, v') \<in> set d'" "s \<in> set (collect_strings v')" by auto
  then show ?case using updates_entry [OF updates_dict(1,2)] by fastforce
qed auto

section \<open>Sorted keys\<close>

text \<open>Writing and reading sorts the keys of every object, which no rule of the scripts looks at.\<close>

lemma map_of_sort_key: "distinct (map fst d) \<Longrightarrow> map_of (sort_key fst d) = map_of (d :: (string \<times> 'a) list)"
proof -
  assume distinct: "distinct (map fst d)"
  have "mset (map fst (sort_key fst d)) = mset (map fst d)" by simp
  then have "distinct (map fst (sort_key fst d))" using distinct mset_eq_imp_distinct_iff by blast
  then show ?thesis using distinct by (intro map_of_eqI) (auto simp: map_of_eq_Some_iff)
qed

lemma dget_canon:
  assumes "distinct (map fst d)"
  shows "dget (sort_key fst (map (\<lambda>(k, v). (k, canon v)) d)) k = canon (dget d k)"
proof -
  have "map fst (map (\<lambda>(k, v). (k, canon v)) d) = map fst d" by auto
  then have "map_of (sort_key fst (map (\<lambda>(k, v). (k, canon v)) d)) k = map_option canon (map_of d k)"
    using assms by (subst map_of_sort_key) (simp_all add: map_of_map del: map_map)
  then show ?thesis by (cases "map_of d k") (simp_all add: dget_def)
qed

lemma canon_PDict: "canon v = PDict d \<longleftrightarrow> (\<exists>d0. v = PDict d0 \<and> d = sort_key fst (map (\<lambda>(k, v). (k, canon v)) d0))"
  by (cases v) auto

lemma canon_PList: "canon v = PList vs \<longleftrightarrow> (\<exists>vs0. v = PList vs0 \<and> vs = map canon vs0)"
  by (cases v) auto

lemma canon_PStr [simp]: "canon v = PStr s \<longleftrightarrow> v = PStr s"
  by (cases v) auto

definition sorted_dict :: "pydict \<Rightarrow> pydict" where
  "sorted_dict d = sort_key fst (map (\<lambda>(k, v). (k, canon v)) d)"

lemmas canon_dict = canon_PDict [folded sorted_dict_def]
lemmas dget_sorted [simp] = dget_canon [folded sorted_dict_def]

lemma truthy_canon [simp]: "truthy (canon v) = truthy v"
  by (cases v) (simp_all add: sort_key_empty)

text \<open>A list or a dict is printed with a bracket in front, so it is no node type.\<close>

lemma code_type_canon: "py_str (canon v) \<in> set CODE_TYPES \<longleftrightarrow> py_str v \<in> set CODE_TYPES"
  by (cases v) (simp_all add: CODE_TYPES_def)

lemma type_of_sorted: "distinct (map fst d) \<Longrightarrow> type_of (sorted_dict d) \<in> set CODE_TYPES \<longleftrightarrow> type_of d \<in> set CODE_TYPES"
  by (auto simp: type_of_def py_or_def code_type_canon)

lemma code_key_sorted: "distinct (map fst d) \<Longrightarrow> code_key (sorted_dict d) = code_key d"
  by (simp add: code_key_def)

lemma body_of_sorted: "distinct (map fst d) \<Longrightarrow> body_of (sorted_dict d) key = body_of d key"
  by (cases "dget d key") (simp_all add: body_of_def)

lemma json_ok_dget: "json_ok fr (PDict d) \<Longrightarrow> json_ok fr (dget d k)"
  by (auto simp: dget_def list_all_iff split: option.splits dest!: map_of_SomeD)

lemma node_synced_canon:
  assumes "json_ok fr v" "node_synced snippets v"
  shows "node_synced snippets (canon v)"
  unfolding node_synced_def
proof (intro allI impI, elim conjE)
  fix node parameters key name
  assume node: "canon v = PDict node" and type: "type_of node \<in> set CODE_TYPES"
    and parameters: "dget node ''parameters'' = PDict parameters" and key: "code_key parameters = Some key"
    and name: "snippet_name (first_line (body_of parameters key)) = Some name"
  obtain node0 where node0: "v = PDict node0" "node = sorted_dict node0" using node canon_dict by auto
  then have distinct: "distinct (map fst node0)" using assms(1) by simp
  obtain parameters0 where parameters0: "dget node0 ''parameters'' = PDict parameters0" "parameters = sorted_dict parameters0"
    using parameters node0(2) distinct canon_dict by auto
  have "distinct (map fst parameters0)" using json_ok_dget [of fr node0 "''parameters''"] assms(1) node0(1) parameters0(1) by simp
  then have same: "code_key parameters0 = Some key" "body_of parameters key = body_of parameters0 key"
    using key parameters0(2) by (simp_all add: code_key_sorted body_of_sorted)
  have "type_of node0 \<in> set CODE_TYPES" using type type_of_sorted distinct node0(2) by simp
  then show "\<not> invalid_name name
      \<and> (\<exists>content. snippets name = Some (Inr content) \<and> replace_crlf (body_of parameters key) = replacement_of content)"
    using assms(2) node0(1) parameters0(1) same name unfolding node_synced_def by metis
qed

lemma workflow_synced_canon:
  assumes "json_ok fr (PDict w)" "workflow_synced snippets w"
  shows "workflow_synced snippets (sorted_dict w)"
  unfolding workflow_synced_def
proof (intro allI impI)
  fix nodes
  assume "dget (sorted_dict w) ''nodes'' = PList nodes"
  then obtain nodes0 where nodes0: "dget w ''nodes'' = PList nodes0" "nodes = map canon nodes0"
    using assms(1) by (auto simp: canon_PList)
  have "list_all (json_ok fr) nodes0" using json_ok_dget [OF assms(1), of "''nodes''"] nodes0(1) by simp
  then show "list_all (node_synced snippets) nodes"
    using assms(2) nodes0 node_synced_canon by (auto simp: workflow_synced_def list_all_iff)
qed

lemma document_synced_canon:
  assumes "json_ok fr v" "document_synced snippets v"
  shows "document_synced snippets (canon v)"
proof (cases v)
  case (PDict w)
  then show ?thesis
    using assms workflow_synced_canon by (simp add: document_synced_def flip: sorted_dict_def)
next
  case (PList vs)
  have "workflow_synced snippets w" if mem: "PDict w \<in> set (map canon vs)" for w
  proof -
    obtain v0 where v0: "v0 \<in> set vs" "canon v0 = PDict w" using mem by fastforce
    then obtain w0 where w0: "v0 = PDict w0" "w = sorted_dict w0" using canon_dict by auto
    then have "json_ok fr (PDict w0)" "workflow_synced snippets w0"
      using assms v0(1) PList by (auto simp: document_synced_def list_all_iff simp del: json_ok.simps(4))
    then show ?thesis using workflow_synced_canon w0(2) by simp
  qed
  then show ?thesis using PList by (simp add: document_synced_def)
qed (use assms in \<open>simp_all add: document_synced_def\<close>)

section \<open>Runs of the synchronization\<close>

lemma sync_file_Inr:
  assumes "repr_float_law fr" "snippet_files_ok snippets" "sync_file fr denied snippets dir p files = (Inr n, files')"
  obtains s v v' where "read_text files p = Inr s" "json_loads fr s = Inr v" "updates snippets v v'"
    "read_text files' p = Inr (dumps_stable v')" "json_loads fr (dumps_stable v') = Inr (canon v')"
    "document_synced snippets (canon v')" "sync_file fr denied snippets dir p files' = (Inr 0, files')"
proof -
  obtain s v v' where v: "read_text files p = Inr s" "json_loads fr s = Inr v" "sync_document snippets dir (as_posix p) v = Inr (v', n)"
    and files': "\<not> denied p" "files' = files(p \<mapsto> Inr (dumps_stable v'))"
    using assms(3) by (auto simp: sync_file_def write_text_def split: sum.splits if_splits)
  have up: "updates snippets v v'" using sync_document_updates v(3) by blast
  have ok: "json_ok fr v'" using updates_json_ok [OF up loads_ok [OF assms(1) v(2)]] .
  have read: "read_text files' p = Inr (dumps_stable v')"
    unfolding files' by (rule read_written) (use dumps_no_cr [OF ok] in \<open>simp add: dumps_stable_def\<close>)
  have loads: "json_loads fr (dumps_stable v') = Inr (canon v')" using loads_indent [OF ok] by (simp add: dumps_stable_def)
  have synced: "document_synced snippets (canon v')"
    using document_synced_canon [OF ok] sync_document_synced [OF assms(2) v(3)] by blast
  have "dumps_stable (canon v') = dumps_stable v'" by (simp add: dumps_stable_def dumps_canon)
  then have "sync_file fr denied snippets dir p files' = (Inr 0, files')"
    using read loads synced_document_sync [OF synced] files' by (simp add: sync_file_def write_text_def)
  then show thesis using that v(1,2) up read loads synced by blast
qed

lemma sync_file_shape:
  "sync_file fr denied snippets dir p files =
     (fst (sync_file fr denied snippets dir p files), files(p := snd (sync_file fr denied snippets dir p files) p))"
  by (auto simp: sync_file_def write_text_def split: sum.splits)

lemma sync_file_Inl: "sync_file fr denied snippets dir p files = (Inl e, files') \<Longrightarrow> files' = files"
  by (auto simp: sync_file_def write_text_def split: sum.splits if_splits)

interpretation sync_loop: file_loop "sync_file fr denied snippets dir" sync_caught "\<lambda>(failed, n) m. (failed, n + m)"
    "\<lambda>(failed, n). (True, n)" fst "sync_all fr denied snippets dir"
  for fr denied snippets dir
proof unfold_locales
  fix p q :: path and r and files files' :: text_files
  assume "sync_file fr denied snippets dir p files = (r, files')" "q \<noteq> p"
  then show "files' q = files q" using sync_file_shape [of fr denied snippets dir p files] by (metis fun_upd_other snd_conv)
next
  fix p :: path and files other :: text_files
  assume same: "files p = other p"
  then show "fst (sync_file fr denied snippets dir p files) = fst (sync_file fr denied snippets dir p other)
      \<and> snd (sync_file fr denied snippets dir p files) p = snd (sync_file fr denied snippets dir p other) p"
    using read_local [of files p other] by (auto simp: sync_file_def write_text_def split: sum.splits)
qed (use sync_file_Inl in \<open>auto split: prod.splits sum.splits\<close>)

lemma sync_file_stable: "repr_float_law fr \<Longrightarrow> snippet_files_ok snippets \<Longrightarrow> sync_loop.stable fr denied snippets dir p"
  unfolding sync_loop.stable_def by (auto elim!: sync_file_Inr)

section \<open>What the linter can still report\<close>

definition remaining :: "issue \<Rightarrow> bool" where
  "remaining i \<longleftrightarrow>
     (\<exists>l. issue_message i \<in> {''node '' @ l @ '': default node name'',
                             ''node '' @ l @ '': HTTP Request missing parameters.options.timeout'',
                             ''node '' @ l @ '': hardcoded http(s) URL in parameters''})
     \<or> (\<exists>n. issue_message i = ''more than 40 nodes ('' @ n @ '' found)'')
     \<or> issue_message i \<in> {''missing settings.errorWorkflow'', ''expected a workflow object or a list of workflows''}"

lemma remaining_messages:
  "remaining (mk_issue p (''node '' @ l @ '': default node name''))"
  "remaining (mk_issue p (''node '' @ l @ '': HTTP Request missing parameters.options.timeout''))"
  "remaining (mk_issue p (''node '' @ l @ '': hardcoded http(s) URL in parameters''))"
  "remaining (mk_issue p ''missing settings.errorWorkflow'')"
  "remaining (mk_issue p (''more than 40 nodes ('' @ n @ '' found)''))"
  "remaining (mk_issue p ''expected a workflow object or a list of workflows'')"
  unfolding remaining_def mk_issue_def issue.simps by blast+

lemma scan_remaining: "i \<in> set (scan_hardcoded_urls v label path) \<Longrightarrow> remaining i"
  by (induction v label path rule: scan_hardcoded_urls.induct)
    (auto split: if_splits simp: remaining_messages(3) [simplified append.simps])

lemma lint_node_remaining:
  assumes "snippet_files_ok snippets" "lint_node snippets dir path (i, v) = Inr is"
    "\<And>node. v = PDict node \<Longrightarrow> map_of node ''pinData'' = None \<and> node_synced snippets v"
  shows "list_all remaining is"
proof (cases v)
  case (PDict node)
  let ?p = "path @ ''.nodes['' @ str_nat i @ '']''"
  let ?l = "py_repr (py_or (py_or (PStr (name_of node)) (dget node ''id'')) (PInt (int i)))"
  obtain no_timeout snip lookup where
    snip: "(if type_of node \<in> set CODE_TYPES then snippet_issues snippets dir node ?p else Inr []) = Inr snip"
    and eq: "is = (if re_fullmatch DEFAULT_NODE_NAME_RE (name_of node) then [mk_issue ?p (''node '' @ ?l @ '': default node name'')] else [])
      @ (if no_timeout then [mk_issue ?p (''node '' @ ?l @ '': HTTP Request missing parameters.options.timeout'')] else [])
      @ snip @ (if lookup then [] else scan_hardcoded_urls (dget node ''parameters'') ?l (?p @ ''.parameters''))"
    using assms(2) PDict assms(3) [OF PDict] by (auto simp: lint_node_def rbind_eq_Inr_iff Let_def simp del: append_Cons)
  have "snip = []"
    using snip synced_node_lints [OF assms(1), of node dir ?p] assms(3) PDict by (auto split: if_splits)
  then show ?thesis
    unfolding eq by (auto simp: list_all_iff remaining_messages simp del: append_Cons dest: scan_remaining)
qed (use assms(2) in \<open>simp_all add: lint_node_def\<close>)

lemma lint_workflow_remaining:
  assumes "snippet_files_ok snippets" "lint_workflow snippets dir path w = Inr is"
    "clean [] (PDict w)" "workflow_synced snippets w" "find_secret_matches (PDict w) = []"
  shows "list_all remaining is"
proof -
  obtain per_node where nodes: "rmap (lint_node snippets dir path) (number_from 0 (nodes_of w)) = Inr per_node"
    and eq: "is = (if missing_error w \<and> \<not> contains ''Error Handler'' (name_of w) then [mk_issue path ''missing settings.errorWorkflow''] else [])
      @ (if MAX_NODES < length (nodes_of w)
         then [mk_issue path (''more than 40 nodes ('' @ str_nat (length (nodes_of w)) @ '' found)'')] else [])
      @ concat per_node"
    using assms(2,5) clean_no_pin [OF assms(3)] by (auto simp: lint_workflow_def rbind_eq_Inr_iff Let_def simp del: append_Cons)
  have "list_all (list_all remaining) per_node"
  proof (rule list_all2_list_all [OF nodes [unfolded rmap_eq_Inr_iff]])
    fix e "is"
    assume "e \<in> set (number_from 0 (nodes_of w))" and lint: "lint_node snippets dir path e = Inr is"
    then have mem: "snd e \<in> set (nodes_of w)" using number_from_in [of "fst e" "snd e"] by simp
    then have "dget w ''nodes'' = PList (nodes_of w)" by (cases "dget w ''nodes''") (auto simp: nodes_of_def)
    then have "node_synced snippets (snd e)" using mem assms(4) by (simp add: workflow_synced_def list_all_iff)
    then have "\<And>node. snd e = PDict node \<Longrightarrow> map_of node ''pinData'' = None \<and> node_synced snippets (snd e)"
      using clean_nodes [OF assms(3)] mem by simp
    then show "list_all remaining is"
      using lint lint_node_remaining [OF assms(1), of dir path "fst e" "snd e" "is"] by simp
  qed
  then show ?thesis unfolding eq by (auto simp: list_all_iff remaining_messages simp del: append_Cons)
qed

lemma lint_document_remaining:
  assumes "snippet_files_ok snippets" "lint_document snippets dir path v = Inr issues"
    "clean [] v" "document_synced snippets v" "\<forall>s \<in> set (collect_strings v). \<not> is_secret s"
  shows "list_all remaining issues"
proof -
  obtain per_workflow where runs: "rmap (\<lambda>(sfx, w). lint_workflow snippets dir (path @ sfx) w) (iter_workflows v) = Inr per_workflow"
    and eq: "issues = concat per_workflow
      @ (if iter_workflows v = [] then [mk_issue path ''expected a workflow object or a list of workflows''] else [])"
    using assms(2) by (auto simp: lint_document_def rbind_eq_Inr_iff Let_def simp del: append_Cons)
  have "list_all (list_all remaining) per_workflow"
  proof (rule list_all2_list_all [OF runs [unfolded rmap_eq_Inr_iff]])
    fix e "is"
    assume mem: "e \<in> set (iter_workflows v)" and lint: "(case e of (sfx, w) \<Rightarrow> lint_workflow snippets dir (path @ sfx) w) = Inr is"
    obtain sfx d where e: "e = (sfx, d)" by fastforce
    have "v = PDict d \<or> (\<exists>vs. v = PList vs \<and> PDict d \<in> set vs)" using iter_workflows_in mem e by simp
    then have "clean [] (PDict d)" "find_secret_matches (PDict d) = []" "workflow_synced snippets d"
      using assms(3-5)
      by (auto simp: no_secret_matches list_all_iff document_synced_def simp del: clean.simps(1) collect_strings.simps(2))
    then show "list_all remaining is" using lint e lint_workflow_remaining [OF assms(1)] by auto
  qed
  then show ?thesis unfolding eq by (auto simp: list_all_iff remaining_messages)
qed

lemma lint_all_remaining:
  assumes "\<forall>p \<in> set ps. \<exists>s v. read_text files p = Inr s \<and> json_loads fr s = Inr v
    \<and> (\<forall>issues. lint_document snippets dir (as_posix p) v = Inr issues \<longrightarrow> list_all remaining issues)"
  shows "\<forall>line \<in> set (snd (lint_all fr snippets dir files ps failed)). \<exists>i. remaining i \<and> line = issue_str i"
  using assms
proof (induction ps arbitrary: failed)
  case (Cons p ps)
  obtain s v where v: "read_text files p = Inr s" "json_loads fr s = Inr v"
    "\<forall>issues. lint_document snippets dir (as_posix p) v = Inr issues \<longrightarrow> list_all remaining issues"
    using Cons.prems by auto
  then show ?case
    using Cons by (cases "lint_document snippets dir (as_posix p) v") (auto simp: Let_def list_all_iff split_beta)
qed simp

section \<open>The pipeline\<close>

definition snippets_free_of_secrets :: "snippet_dir \<Rightarrow> bool" where
  "snippets_free_of_secrets snippets \<longleftrightarrow>
     (\<forall>name content. snippets name = Some (Inr content) \<longrightarrow> \<not> is_secret (replacement_of content))"

lemma sanitize_success:
  assumes "repr_float_law fr" "ps \<noteq> []" "sanitize_main fr denied tree ps None stdin files = (Some 0, files', out)" "p \<in> set ps"
  shows "sanitized fr files' p"
proof -
  have run: "process_all fr denied ps 0 files = (Some 0, files')"
    using assms(2,3) by (auto simp: sanitize_main_def sanitize_targets_def split: prod.splits)
  have stable: "\<forall>p \<in> set ps. sanitize_loop.stable fr denied p" using process_file_stable [OF assms(1)] by blast
  have "\<not> isl (fst (process_file fr denied p files'))"
    using sanitize_loop.run_flag [OF stable run] sanitize_loop.step_result_kept(2) [OF stable run assms(4)] assms(4)
    by (auto simp: sanitize_loop.fails_def)
  then obtain b files1 where "process_file fr denied p files' = (Inr b, files1)"
    by (cases "process_file fr denied p files'"; cases "fst (process_file fr denied p files')") auto
  moreover have "snd (process_file fr denied p files') = files'"
    using sanitize_loop.settled_step_same sanitize_loop.loop_settles [OF stable run] assms(4) by blast
  ultimately show ?thesis using process_file_Inr(1) [OF assms(1)] by simp
qed

lemma synced_sanitized_file:
  assumes "repr_float_law fr" "snippet_files_ok snippets" "snippets_free_of_secrets snippets"
    "sanitized fr files1 p" "sync_file fr denied snippets dir p files1 = (Inr n, files2)"
  obtains v where "read_text files2 p = Inr (dumps_stable v)" "json_loads fr (dumps_stable v) = Inr (canon v)"
    "clean [] (canon v)" "\<forall>s \<in> set (collect_strings (canon v)). \<not> is_secret s" "document_synced snippets (canon v)"
proof -
  from assms(1,2,5) obtain s v v' where v: "read_text files1 p = Inr s" "json_loads fr s = Inr v" "updates snippets v v'"
    "read_text files2 p = Inr (dumps_stable v')" "json_loads fr (dumps_stable v') = Inr (canon v')"
    "document_synced snippets (canon v')"
    by (rule sync_file_Inr)
  have w: "clean [] v" "\<forall>s \<in> set (collect_strings v). \<not> is_secret s" using assms(4) v(1,2) by (auto simp: sanitized_def collect_strings_iff)
  have "\<not> is_secret x" if "x \<in> set (collect_strings v')" for x
    using updates_strings [OF v(3) that] w(2) assms(3)
    by (auto simp: snippets_free_of_secrets_def)
  moreover have "clean [] v'" using updates_clean [OF v(3) w(1)] .
  ultimately show thesis using that v(4-6) by (simp add: clean_canon strings_canon)
qed

lemma synced_sanitized_run:
  assumes "repr_float_law fr" "snippet_files_ok snippets" "snippets_free_of_secrets snippets"
    "\<forall>p \<in> set ps. sanitized fr files1 p"
    "sync_all fr denied snippets dir ps (False, 0) files1 = (Some (False, n), files2)" "p \<in> set ps"
  shows "\<exists>v. read_text files2 p = Inr (dumps_stable v) \<and> json_loads fr (dumps_stable v) = Inr (canon v)
      \<and> clean [] (canon v) \<and> (\<forall>s \<in> set (collect_strings (canon v)). \<not> is_secret s) \<and> document_synced snippets (canon v)"
proof -
  have stable: "\<forall>p \<in> set ps. sync_loop.stable fr denied snippets dir p" using sync_file_stable assms(1,2) by blast
  have "\<not> sync_loop.fails fr denied snippets dir p files1" using sync_loop.run_flag [OF stable assms(5)] assms(6) by auto
  then obtain m files3 where one: "sync_file fr denied snippets dir p files1 = (Inr m, files3)"
    by (cases "sync_file fr denied snippets dir p files1"; cases "fst (sync_file fr denied snippets dir p files1)")
      (auto simp: sync_loop.fails_def)
  have "files2 p = files3 p" using sync_loop.step_result_kept(1) [OF stable assms(5,6)] one by simp
  then show ?thesis
    using synced_sanitized_file [OF assms(1-3) bspec [OF assms(4,6)] one] read_local [of files2 p files3] by metis
qed

lemma process_clean_file:
  assumes "read_text files p = Inr (dumps_stable v)" "json_loads fr (dumps_stable v) = Inr (canon v)"
    "clean [] (canon v)" "\<forall>s \<in> set (collect_strings (canon v)). \<not> is_secret s"
  shows "process_file fr denied p files = (Inr False, files)"
proof -
  have "process_text fr (dumps_stable v) = Inr (dumps_stable (strip_value [] (canon v)))"
    using assms(2,4) by (auto simp: process_text_Inr)
  then have "process_text fr (dumps_stable v) = Inr (dumps_stable v)"
    by (simp add: strip_clean [OF assms(3)] dumps_stable_def dumps_canon)
  then show ?thesis using assms(1) by (simp add: process_file_def)
qed

text \<open>
  C38: After \<open>sanitize_workflows\<close> and \<open>sync_snippets\<close> have both succeeded on the same files, either script run again succeeds,
  reports no update and changes no file, and the linter has no complaint about pinned data, secrets or snippets in any of
  these files: all it can still report are default node names, missing timeouts, literal addresses, a missing error
  workflow, too many nodes and a document that is no workflow.  Assumed of the snippet directory: a file whose first line
  is a marker names itself and ends with a newline, and no file's text is a secret.
\<close>

theorem sanitize_sync_lint:
  assumes "repr_float_law fr" "snippet_files_ok snippets" "snippets_free_of_secrets snippets" "ps \<noteq> []"
    "sanitize_main fr denied tree ps None stdin files = (Some 0, files1, out1)"
    "sync_main fr denied tree repo snippets dir ps None files1 = (Some 0, files2, out2)"
  shows "sanitize_main fr denied tree ps None stdin files2 = (Some 0, files2, out1)
    \<and> sync_main fr denied tree repo snippets dir ps None files2 = (Some 0, files2, ''updated 0 Code node(s)'' @ [CHR 0x0A])
    \<and> (\<forall>line \<in> set (snd (lint_main fr tree repo snippets dir files2 ps None)). \<exists>i. remaining i \<and> line = issue_str i)"
proof -
  have out1: "out1 = []" using assms(4,5) by (auto simp: sanitize_main_def sanitize_targets_def split: prod.splits)
  obtain n where run: "sync_all fr denied snippets dir ps (False, 0) files1 = (Some (False, n), files2)"
    using assms(4,6) by (auto simp: sync_main_def sync_targets_def split: prod.splits option.splits if_splits)
  have stable: "\<forall>p \<in> set ps. sync_loop.stable fr denied snippets dir p" using sync_file_stable assms(1,2) by blast
  have fine: "\<not> sync_loop.fails fr denied snippets dir p files1" if "p \<in> set ps" for p
    using sync_loop.run_flag [OF stable run] that by auto
  have "sync_all fr denied snippets dir ps (False, 0) files2 = (Some (False, 0), files2)"
    using sync_loop.second_run [OF stable run] fine by auto
  then have sync: "sync_main fr denied tree repo snippets dir ps None files2 = (Some 0, files2, ''updated 0 Code node(s)'' @ [CHR 0x0A])"
    using assms(4) by (simp add: sync_main_def sync_targets_def digit_char_def)
  have "\<forall>p \<in> set ps. sanitized fr files1 p" using sanitize_success [OF assms(1,4,5)] by blast
  note synced = synced_sanitized_run [OF assms(1-3) this run]
  have "process_file fr denied p files2 = (Inr False, files2)" if "p \<in> set ps" for p
    using synced [OF that] process_clean_file by blast
  then have "process_all fr denied ps 0 files2 = (Some 0, files2)"
    using sanitize_loop.loop_settled [of ps fr denied files2 0] by (auto simp: sanitize_loop.settled_def sanitize_loop.fails_def)
  then have sanitize: "sanitize_main fr denied tree ps None stdin files2 = (Some 0, files2, out1)"
    using assms(4) out1 by (simp add: sanitize_main_def sanitize_targets_def)
  have "\<exists>s v. read_text files2 p = Inr s \<and> json_loads fr s = Inr v
      \<and> (\<forall>issues. lint_document snippets dir (as_posix p) v = Inr issues \<longrightarrow> list_all remaining issues)" if "p \<in> set ps" for p
    using synced [OF that] lint_document_remaining [OF assms(2)] by blast
  then have "\<forall>line \<in> set (snd (lint_all fr snippets dir files2 ps 0)). \<exists>i. remaining i \<and> line = issue_str i"
    by (intro lint_all_remaining) blast
  then show ?thesis using sanitize sync assms(4) by (simp add: lint_main_def Let_def)
qed

section \<open>A concrete run\<close>

definition demo_text :: string where
  "demo_text = ''// snippet: a'' @ [CHR 0x0A] @ ''y'' @ [CHR 0x0A]"

definition demo_snippets :: snippet_dir where
  "demo_snippets = [''a'' \<mapsto> Inr demo_text]"

definition demo_document :: "string \<Rightarrow> pyval" where
  "demo_document body =
     PDict [(''nodes'', PList [PDict [(''parameters'', PDict [(''jsCode'', PStr body)]), (''type'', PStr ''n8n-nodes-base.code'')]])]"

lemma demo_snippet_files: "snippet_files_ok demo_snippets"
  by (simp add: snippet_files_ok_def demo_snippets_def demo_text_def snippet_name_def first_line_def is_line_break_def name_char_def
      ascii_alnum_def one_of_def is_space_def is_lower_az_def is_upper_az_def is_decimal_def suffix_to_prefix Let_def)

lemma demo_no_secrets: "\<not> is_secret ''// snippet: a''" "\<not> is_secret ''n8n-nodes-base.code''" "\<not> is_secret demo_text"
  by (rule not_secretI, simp add: telltale_def demo_text_def)+

lemma demo_newlines: "universal_newlines demo_text = demo_text" "replacement_of demo_text = demo_text"
  by (simp_all add: replacement_text demo_text_def suffix_to_prefix)

lemma demo_snippets_safe: "snippets_free_of_secrets demo_snippets"
  by (auto simp: snippets_free_of_secrets_def demo_snippets_def demo_newlines demo_no_secrets split: if_splits)

lemma demo_sync:
  "sync_document demo_snippets dir path (demo_document ''// snippet: a'') = Inr (demo_document demo_text, 1)"
  by (simp add: sync_document_def sync_workflow_def sync_node_def demo_document_def demo_snippets_def dget_def type_of_def py_or_def
      CODE_TYPES_def code_key_def CODE_BODY_KEYS_def body_of_def snippet_name_def first_line_def is_line_break_def name_char_def
      ascii_alnum_def one_of_def is_space_def is_lower_az_def is_upper_az_def is_decimal_def invalid_name_def replacement_of_def
      suffix_to_prefix Let_def demo_text_def)

lemma demo_document_facts:
  "canon (demo_document body) = demo_document body" "json_ok fr (demo_document body)" "clean [] (demo_document body)"
  "set (collect_strings (demo_document body)) = {body, ''n8n-nodes-base.code''}"
  by (auto simp: demo_document_def volatile_def)

lemma demo_read: "read_text (demo_files (dumps_stable (demo_document body))) [''w'', ''b.json''] = Inr (dumps_stable (demo_document body))"
  using dumps_no_cr [OF demo_document_facts(2), of 0 body]
  by (simp add: demo_files_def read_written dumps_stable_def)

lemma demo_reload: "json_loads fr (dumps_stable (demo_document body)) = Inr (canon (demo_document body))"
  using loads_indent [OF demo_document_facts(2)] by (simp add: dumps_stable_def)

lemma demo_sanitize:
  "sanitize_main demo_fr (\<lambda>_. False) [] [[''w'', ''b.json'']] None [] (demo_files (dumps_stable (demo_document ''// snippet: a''))) =
     (Some 0, demo_files (dumps_stable (demo_document ''// snippet: a'')), [])"
proof -
  have "process_file demo_fr (\<lambda>_. False) [''w'', ''b.json''] (demo_files (dumps_stable (demo_document ''// snippet: a''))) =
      (Inr False, demo_files (dumps_stable (demo_document ''// snippet: a'')))"
    by (rule process_clean_file [OF demo_read demo_reload]) (simp_all only: demo_document_facts, simp add: demo_no_secrets)
  then show ?thesis by (simp add: sanitize_main_def sanitize_targets_def)
qed

lemma demo_sync_main:
  "sync_main demo_fr (\<lambda>_. False) [] [] demo_snippets ''d'' [[''w'', ''b.json'']] None
       (demo_files (dumps_stable (demo_document ''// snippet: a''))) =
     (Some 0, demo_files (dumps_stable (demo_document demo_text)), ''updated 1 Code node(s)'' @ [CHR 0x0A])"
proof -
  have "sync_file demo_fr (\<lambda>_. False) demo_snippets ''d'' [''w'', ''b.json''] (demo_files (dumps_stable (demo_document ''// snippet: a''))) =
      (Inr 1, demo_files (dumps_stable (demo_document demo_text)))"
    by (simp add: sync_file_def demo_read demo_reload demo_document_facts(1) demo_sync write_text_def) (simp add: demo_files_def)
  then show ?thesis by (simp add: sync_main_def sync_targets_def digit_char_def)
qed

theorem sanitize_sync_lint_witness:
  "sync_main demo_fr (\<lambda>_. False) [] [] demo_snippets ''d'' [[''w'', ''b.json'']] None (demo_files (dumps_stable (demo_document demo_text))) =
     (Some 0, demo_files (dumps_stable (demo_document demo_text)), ''updated 0 Code node(s)'' @ [CHR 0x0A])"
  using sanitize_sync_lint [OF demo_fr_law demo_snippet_files demo_snippets_safe _ demo_sanitize demo_sync_main] by blast

end
