(* ===== verification/Py_Match.thy ===== *)
theory Py_Match
  imports Py_Regex
begin

text \<open>
  Matches with groups.  A pattern is a sequence of parts, some of them groups; \<open>captures\<close> lists the ways to match
  it from a position, with the groups and the position it ends at, in the order of the backtracking matcher, so the first
  way accepted is the match object of \<open>match\<close>, \<open>fullmatch\<close> and \<open>search\<close>.  The reference semantics
  \<open>spans\<close> is a relation between an expression, what it consumes and the text around it; it is exact for word
  boundaries and anchors too.
\<close>

datatype part = Plain regex | Group regex

type_synonym pattern = "part list"

definition consumed :: "position \<Rightarrow> position \<Rightarrow> string" where
  "consumed p q = take (length (snd p) - length (snd q)) (snd p)"

fun captures :: "pattern \<Rightarrow> position \<Rightarrow> (string list \<times> position) list" where
  "captures [] p = [([], p)]"
| "captures (Plain r # ps) p = concat (map (captures ps) (ends r p))"
| "captures (Group r # ps) p =
     concat (map (\<lambda>q. map (\<lambda>(gs, e). (consumed p q # gs, e)) (captures ps q)) (ends r p))"

definition first_groups :: "(string list \<times> position) list \<Rightarrow> string list option" where
  "first_groups ms = (case ms of [] \<Rightarrow> None | (gs, e) # _ \<Rightarrow> Some gs)"

definition match_groups :: "pattern \<Rightarrow> string \<Rightarrow> string list option" where
  "match_groups ps s = first_groups (captures ps ([], s))"

definition fullmatch_groups :: "pattern \<Rightarrow> string \<Rightarrow> string list option" where
  "fullmatch_groups ps s = first_groups (filter (\<lambda>(gs, e). snd e = []) (captures ps ([], s)))"

text \<open>\<open>search\<close> tries every position from the left.\<close>

fun search_groups_from :: "pattern \<Rightarrow> string \<Rightarrow> string \<Rightarrow> string list option" where
  "search_groups_from ps before [] = first_groups (captures ps (before, []))"
| "search_groups_from ps before (c # cs) =
     (case first_groups (captures ps (before, c # cs)) of
        Some gs \<Rightarrow> Some gs
      | None \<Rightarrow> search_groups_from ps (c # before) cs)"

definition search_groups :: "pattern \<Rightarrow> string \<Rightarrow> string list option" where
  "search_groups ps s = search_groups_from ps [] s"

lemmas match_defs [eval_simps] =
  consumed_def first_groups_def match_groups_def fullmatch_groups_def search_groups_def

section \<open>Reference semantics in context\<close>

fun spans :: "regex \<Rightarrow> string \<Rightarrow> string \<Rightarrow> string \<Rightarrow> bool" where
  "spans WordBoundary b y t \<longleftrightarrow> y = [] \<and> at_boundary (b, t)"
| "spans TextStart b y t \<longleftrightarrow> y = [] \<and> b = []"
| "spans TextEnd b y t \<longleftrightarrow> y = [] \<and> at_end (b, t)"
| "spans (Then r1 r2) b y t \<longleftrightarrow> (\<exists>u v. y = u @ v \<and> spans r1 b u (v @ t) \<and> spans r2 (rev u @ b) v t)"
| "spans (Or r1 r2) b y t \<longleftrightarrow> spans r1 b y t \<or> spans r2 b y t"
| "spans r b y t \<longleftrightarrow> denotes r y"

lemma ends_spans: "(b', t) \<in> set (ends r (b, s)) \<longleftrightarrow> (\<exists>y. s = y @ t \<and> b' = rev y @ b \<and> spans r b y t)"
proof (induction r arbitrary: b s b' t)
  case (Class f)
  show ?case
    by (cases s) (auto simp: advance_def)
next
  case (Lit w)
  show ?case
    by (auto simp: advance_def prefix_def)
next
  case (Many f lo hi)
  show ?case
    using ends_Many [of "(b', t)" f lo hi "(b, s)"] by simp
next
  case (Then r1 r2)
  have "(b', t) \<in> set (ends (Then r1 r2) (b, s))
      \<longleftrightarrow> (\<exists>m n. (m, n) \<in> set (ends r1 (b, s)) \<and> (b', t) \<in> set (ends r2 (m, n)))" by force
  also have "\<dots> \<longleftrightarrow> (\<exists>u v. s = u @ v @ t \<and> b' = rev v @ rev u @ b \<and> spans r1 b u (v @ t) \<and> spans r2 (rev u @ b) v t)"
    unfolding Then.IH by auto
  also have "\<dots> \<longleftrightarrow> (\<exists>y. s = y @ t \<and> b' = rev y @ b \<and> spans (Then r1 r2) b y t)" by fastforce
  finally show ?case .
qed auto

lemma spans_iff_denotes: "boundary_free r \<Longrightarrow> spans r b y t \<longleftrightarrow> denotes r y"
  by (induction r arbitrary: b y t) auto

lemma captures_Nil: "(gs, e) \<in> set (captures [] p) \<longleftrightarrow> gs = [] \<and> e = p"
  by auto

lemma captures_Plain:
  "(gs, e) \<in> set (captures (Plain r # ps) (b, s))
     \<longleftrightarrow> (\<exists>y t. s = y @ t \<and> spans r b y t \<and> (gs, e) \<in> set (captures ps (rev y @ b, t)))"
proof -
  have "(gs, e) \<in> set (captures (Plain r # ps) (b, s))
      \<longleftrightarrow> (\<exists>m t. (m, t) \<in> set (ends r (b, s)) \<and> (gs, e) \<in> set (captures ps (m, t)))" by force
  then show ?thesis by (auto simp: ends_spans)
qed

lemma consumed_append: "consumed (b, y @ t) (m, t) = y"
  by (simp add: consumed_def)

lemma captures_Group:
  "(gs, e) \<in> set (captures (Group r # ps) (b, s))
     \<longleftrightarrow> (\<exists>y t hs. s = y @ t \<and> spans r b y t \<and> gs = y # hs \<and> (hs, e) \<in> set (captures ps (rev y @ b, t)))"
proof -
  have "(gs, e) \<in> set (captures (Group r # ps) (b, s))
      \<longleftrightarrow> (\<exists>m t hs. (m, t) \<in> set (ends r (b, s)) \<and> gs = consumed (b, s) (m, t) # hs \<and> (hs, e) \<in> set (captures ps (m, t)))"
    by force
  also have "\<dots> \<longleftrightarrow> (\<exists>y t hs. s = y @ t \<and> spans r b y t \<and> gs = y # hs \<and> (hs, e) \<in> set (captures ps (rev y @ b, t)))"
    unfolding ends_spans by (metis consumed_append)
  finally show ?thesis .
qed

lemmas captures_iff = captures_Nil captures_Plain captures_Group

text \<open>A match built part by part; an anchor is tried before the rule for any other part.\<close>

lemma captures_startI: "(gs, e) \<in> set (captures ps ([], s)) \<Longrightarrow> (gs, e) \<in> set (captures (Plain TextStart # ps) ([], s))"
  by simp

lemma captures_endI:
  "at_end p \<Longrightarrow> (gs, e) \<in> set (captures ps p) \<Longrightarrow> (gs, e) \<in> set (captures (Plain TextEnd # ps) p)"
  by simp

lemma captures_GroupI:
  "spans r b y t \<Longrightarrow> (gs, e) \<in> set (captures ps (rev y @ b, t)) \<Longrightarrow> (y # gs, e) \<in> set (captures (Group r # ps) (b, y @ t))"
  unfolding captures_Group by blast

lemma captures_PlainI:
  "spans r b y t \<Longrightarrow> (gs, e) \<in> set (captures ps (rev y @ b, t)) \<Longrightarrow> (gs, e) \<in> set (captures (Plain r # ps) (b, y @ t))"
  unfolding captures_Plain by blast

lemma captures_NilI: "([], p) \<in> set (captures [] p)"
  by simp

lemmas captures_intros = captures_startI captures_endI captures_GroupI captures_PlainI captures_NilI

section \<open>The match object\<close>

lemma first_groups_unique:
  assumes "\<And>gs. (\<exists>e. (gs, e) \<in> set ms) \<longleftrightarrow> f = Some gs"
  shows "first_groups ms = f"
proof (cases ms)
  case Nil
  then show ?thesis using assms by (cases f) (auto simp: first_groups_def)
next
  case (Cons m ms')
  then show ?thesis using assms [of "fst m"] by (cases m) (auto simp: first_groups_def)
qed

lemma fullmatch_groups_eqI:
  assumes "\<And>gs. (\<exists>b. (gs, b, []) \<in> set (captures ps ([], s))) \<longleftrightarrow> f = Some gs"
  shows "fullmatch_groups ps s = f"
  unfolding fullmatch_groups_def using assms by (intro first_groups_unique) force

lemma match_groups_eqI:
  assumes "\<And>gs. (\<exists>e. (gs, e) \<in> set (captures ps ([], s))) \<longleftrightarrow> f = Some gs"
  shows "match_groups ps s = f"
  unfolding match_groups_def using assms by (intro first_groups_unique) force

text \<open>The expression of a pattern, groups forgotten, matches exactly when the pattern does.\<close>

fun part_regex :: "part \<Rightarrow> regex" where
  "part_regex (Plain r) = r"
| "part_regex (Group r) = r"

lemma captures_ends: "snd ` set (captures ps p) = set (ends (foldr (\<lambda>x r. Then (part_regex x) r) ps (Lit [])) p)"
proof (induction ps p rule: captures.induct)
  case (1 p)
  then show ?case by (simp add: advance_def)
next
  case (2 r ps p)
  then show ?case by (simp add: image_UN)
next
  case (3 r ps p)
  then show ?case by (simp add: image_UN image_image case_prod_unfold)
qed

lemma first_groups_None [simp]: "first_groups ms = None \<longleftrightarrow> ms = []"
  by (auto simp: first_groups_def split: list.splits)

lemma fullmatch_groups_iff:
  "fullmatch_groups ps s \<noteq> None \<longleftrightarrow> re_fullmatch (foldr (\<lambda>x r. Then (part_regex x) r) ps (Lit [])) s"
proof -
  have "fullmatch_groups ps s \<noteq> None \<longleftrightarrow> (\<exists>e \<in> snd ` set (captures ps ([], s)). snd e = [])"
    by (force simp: fullmatch_groups_def filter_empty_conv)
  then show ?thesis by (simp only: captures_ends re_fullmatch_def list_ex_iff)
qed

end
