(* ===== verification/Patterns.thy ===== *)
theory Patterns
  imports Py_Match Business_Id Dates Error_Taxonomy Lint
begin

text \<open>
  The patterns with groups of the validators, the error taxonomy and the scripts, written as in the sources, and that the
  functions which read the groups in the other theories return what Python's matcher returns on the pattern.
\<close>

section \<open>The patterns\<close>

definition digits_re :: "nat \<Rightarrow> nat \<Rightarrow> regex" where
  "digits_re lo hi = Many is_decimal lo (Some hi)"

definition PATTERN :: pattern where
  "PATTERN = [Plain TextStart, Group (digits_re 7 7), Plain (Lit ''-''), Group (Class is_decimal), Plain TextEnd]"

definition FINNISH :: pattern where
  "FINNISH = [Plain TextStart, Group (digits_re 1 2), Plain (Lit ''.''), Group (digits_re 1 2), Plain (Lit ''.''), Group (digits_re 4 4),
              Plain TextEnd]"

definition ISO :: pattern where
  "ISO = [Plain TextStart, Group (digits_re 4 4), Plain (Lit ''-''), Group (digits_re 2 2), Plain (Lit ''-''), Group (digits_re 2 2),
          Plain TextEnd]"

definition spaces_re :: regex where
  "spaces_re = Many is_space 0 None"

definition SNIPPET_FIRST_LINE_RE :: pattern where
  "SNIPPET_FIRST_LINE_RE =
     [Plain TextStart, Plain (Lit ''// snippet:''), Plain spaces_re, Group (Many name_char 1 None), Plain spaces_re, Plain TextEnd]"

definition EXPRESSION_ONLY_RE :: pattern where
  "EXPRESSION_ONLY_RE =
     [Plain TextStart, Plain (Many (\<lambda>c. c = CHR ''='') 0 (Some 1)), Plain spaces_re, Plain (Lit [CHR 0x7B, CHR 0x7B]),
      Group (Many (\<lambda>_. True) 1 None), Plain (Lit [CHR 0x7D, CHR 0x7D]), Plain spaces_re, Plain TextEnd]"

definition STATUS_IN_MESSAGE :: pattern where
  "STATUS_IN_MESSAGE = [Plain (lit_i ''status code ''), Group (digits_re 3 3)]"

definition HTTP_IN_MESSAGE :: pattern where
  "HTTP_IN_MESSAGE =
     [Plain WordBoundary, Plain (lit_i ''http''), Plain (Class (one_of '' /'')), Group (digits_re 3 3), Plain WordBoundary]"

lemmas pattern_defs =
  digits_re_def PATTERN_def FINNISH_def ISO_def spaces_re_def SNIPPET_FIRST_LINE_RE_def EXPRESSION_ONLY_RE_def
  STATUS_IN_MESSAGE_def HTTP_IN_MESSAGE_def

section \<open>The validators\<close>

definition decimals :: "nat \<Rightarrow> nat \<Rightarrow> string \<Rightarrow> bool" where
  "decimals lo hi s \<longleftrightarrow> list_all is_decimal s \<and> lo \<le> length s \<and> length s \<le> hi"

lemma spans_digits [simp]: "spans (digits_re lo hi) b y t \<longleftrightarrow> decimals lo hi y"
  by (simp add: digits_re_def decimals_def)

lemma spans_spaces [simp]: "spans spaces_re b y t \<longleftrightarrow> list_all is_space y"
  by (simp add: spaces_re_def)

lemma business_id_match_iff:
  "business_id_match s = Some (a, b) \<longleftrightarrow> s = a @ ''-'' @ b \<and> decimals 7 7 a \<and> decimals 1 1 b"
proof
  assume match: "business_id_match s = Some (a, b)"
  then have "length s = 9" by (simp add: business_id_match_def split: if_splits)
  then obtain c1 c2 c3 c4 c5 c6 c7 c8 c9 where "s = [c1, c2, c3, c4, c5, c6, c7, c8, c9]" by (rule list_of_length_9)
  then show "s = a @ ''-'' @ b \<and> decimals 7 7 a \<and> decimals 1 1 b"
    using match by (auto simp: business_id_match_def decimals_def split: if_splits)
next
  assume "s = a @ ''-'' @ b \<and> decimals 7 7 a \<and> decimals 1 1 b"
  then show "business_id_match s = Some (a, b)"
    by (cases b) (auto simp: business_id_match_def decimals_def nth_append)
qed

lemma business_id_pattern:
  "fullmatch_groups PATTERN s = map_option (\<lambda>(body, check_s). [body, check_s]) (business_id_match s)"
proof (rule fullmatch_groups_eqI)
  fix gs
  have one: "decimals 1 1 b \<longleftrightarrow> (\<exists>c. b = [c] \<and> is_decimal c)" for b
    by (cases b) (auto simp: decimals_def)
  have "(\<exists>b. (gs, b, []) \<in> set (captures PATTERN ([], s)))
      \<longleftrightarrow> (\<exists>a b. gs = [a, b] \<and> s = a @ ''-'' @ b \<and> decimals 7 7 a \<and> decimals 1 1 b)"
    unfolding PATTERN_def captures_iff one by (auto simp: at_end_def)
  then show "(\<exists>b. (gs, b, []) \<in> set (captures PATTERN ([], s)))
      \<longleftrightarrow> map_option (\<lambda>(body, check_s). [body, check_s]) (business_id_match s) = Some gs"
    by (auto simp: business_id_match_iff)
qed

lemma iso_match_iff:
  "iso_match s = Some (y, m, d) \<longleftrightarrow> s = y @ ''-'' @ m @ ''-'' @ d \<and> decimals 4 4 y \<and> decimals 2 2 m \<and> decimals 2 2 d"
proof
  assume match: "iso_match s = Some (y, m, d)"
  then have "length s = 10" by (simp add: iso_match_def split: if_splits)
  then obtain c1 c2 c3 c4 c5 c6 c7 c8 c9 c10 where "s = [c1, c2, c3, c4, c5, c6, c7, c8, c9, c10]"
    by (auto simp: eval_nat_numeral length_Suc_conv)
  then show "s = y @ ''-'' @ m @ ''-'' @ d \<and> decimals 4 4 y \<and> decimals 2 2 m \<and> decimals 2 2 d"
    using match by (auto simp: iso_match_def decimals_def split: if_splits)
next
  assume "s = y @ ''-'' @ m @ ''-'' @ d \<and> decimals 4 4 y \<and> decimals 2 2 m \<and> decimals 2 2 d"
  then show "iso_match s = Some (y, m, d)"
    by (auto simp: iso_match_def decimals_def nth_append list_all_length)
qed

lemma finnish_match_iff:
  "finnish_match s = Some (d, m, y) \<longleftrightarrow> s = d @ ''.'' @ m @ ''.'' @ y \<and> decimals 1 2 d \<and> decimals 1 2 m \<and> decimals 4 4 y"
proof
  assume match: "finnish_match s = Some (d, m, y)"
  define r where "r = dropWhile is_decimal s"
  define r' where "r' = dropWhile is_decimal (tl r)"
  have groups: "d = takeWhile is_decimal s" "m = takeWhile is_decimal (tl r)" "y = tl r'"
    and shape: "length d = 1 \<or> length d = 2" "r = CHR ''.'' # tl r" "length m = 1 \<or> length m = 2" "r' = CHR ''.'' # y"
      "length y = 4" "list_all is_decimal y"
    using match unfolding finnish_match_def Let_def r_def [symmetric] r'_def [symmetric]
    by (cases r; cases r'; auto split: if_splits)+
  have "s = d @ r" "tl r = m @ r'" by (simp_all add: groups r_def r'_def)
  then have "s = d @ ''.'' @ m @ ''.'' @ y" using shape(2,4) by simp
  moreover have "list_all is_decimal d" "list_all is_decimal m" by (auto simp: groups list_all_iff dest: set_takeWhileD)
  ultimately show "s = d @ ''.'' @ m @ ''.'' @ y \<and> decimals 1 2 d \<and> decimals 1 2 m \<and> decimals 4 4 y"
    using shape by (auto simp: decimals_def)
next
  assume "s = d @ ''.'' @ m @ ''.'' @ y \<and> decimals 1 2 d \<and> decimals 1 2 m \<and> decimals 4 4 y"
  then show "finnish_match s = Some (d, m, y)"
    by (auto simp: finnish_match_def decimals_def Let_def takeWhile_decimal dropWhile_decimal)
qed

lemma date_patterns:
  "fullmatch_groups FINNISH s = map_option (\<lambda>(d, m, y). [d, m, y]) (finnish_match s)"
  "fullmatch_groups ISO s = map_option (\<lambda>(y, m, d). [y, m, d]) (iso_match s)"
proof -
  have "(\<exists>b. (gs, b, []) \<in> set (captures FINNISH ([], s)))
      \<longleftrightarrow> (\<exists>d m y. gs = [d, m, y] \<and> s = d @ ''.'' @ m @ ''.'' @ y \<and> decimals 1 2 d \<and> decimals 1 2 m \<and> decimals 4 4 y)" for gs
    unfolding FINNISH_def captures_iff by (auto simp: at_end_def)
  then show "fullmatch_groups FINNISH s = map_option (\<lambda>(d, m, y). [d, m, y]) (finnish_match s)"
    by (intro fullmatch_groups_eqI) (auto simp: finnish_match_iff)
  have "(\<exists>b. (gs, b, []) \<in> set (captures ISO ([], s)))
      \<longleftrightarrow> (\<exists>y m d. gs = [y, m, d] \<and> s = y @ ''-'' @ m @ ''-'' @ d \<and> decimals 4 4 y \<and> decimals 2 2 m \<and> decimals 2 2 d)" for gs
    unfolding ISO_def captures_iff by (auto simp: at_end_def)
  then show "fullmatch_groups ISO s = map_option (\<lambda>(y, m, d). [y, m, d]) (iso_match s)"
    by (intro fullmatch_groups_eqI) (auto simp: iso_match_iff)
qed

section \<open>The scripts\<close>

lemma name_char_not_space: "name_char c \<Longrightarrow> \<not> is_space c"
  by (auto simp: name_char_def ascii_alnum_def one_of_def is_upper_az_def is_lower_az_def is_decimal_def is_space_def)

lemma snippet_name_iff:
  "snippet_name s = Some n
     \<longleftrightarrow> (\<exists>a b. s = ''// snippet:'' @ a @ n @ b \<and> list_all is_space a \<and> n \<noteq> [] \<and> list_all name_char n \<and> list_all is_space b)"
proof
  assume match: "snippet_name s = Some n"
  define r where "r = dropWhile is_space (drop 11 s)"
  have "prefix ''// snippet:'' s" and n: "n = takeWhile name_char r" "n \<noteq> []" "list_all is_space (dropWhile name_char r)"
    using match by (auto simp: snippet_name_def Let_def r_def split: if_splits)
  then have "s = ''// snippet:'' @ drop 11 s" by (auto simp: prefix_def)
  also have "drop 11 s = takeWhile is_space (drop 11 s) @ n @ dropWhile name_char r" by (simp add: n(1) r_def)
  finally have "s = ''// snippet:'' @ takeWhile is_space (drop 11 s) @ n @ dropWhile name_char r" .
  moreover have "list_all is_space (takeWhile is_space (drop 11 s))" "list_all name_char n"
    by (auto simp: n(1) list_all_iff dest: set_takeWhileD)
  ultimately show "\<exists>a b. s = ''// snippet:'' @ a @ n @ b \<and> list_all is_space a \<and> n \<noteq> [] \<and> list_all name_char n \<and> list_all is_space b"
    using n(2,3) by blast
next
  assume "\<exists>a b. s = ''// snippet:'' @ a @ n @ b \<and> list_all is_space a \<and> n \<noteq> [] \<and> list_all name_char n \<and> list_all is_space b"
  then obtain a b where s: "s = ''// snippet:'' @ a @ n @ b" "list_all is_space a" "n \<noteq> []" "list_all name_char n" "list_all is_space b"
    by blast
  have "drop 11 s = a @ n @ b" by (simp add: s(1))
  moreover have "dropWhile is_space (a @ n @ b) = n @ b"
    using s(2,3,4) name_char_not_space by (cases n) (auto simp: dropWhile_append list_all_iff)
  moreover have "takeWhile name_char (n @ b) = n" "dropWhile name_char (n @ b) = b"
    using s(4,5) name_char_not_space by (cases b; auto simp: takeWhile_append dropWhile_append list_all_iff)+
  ultimately show "snippet_name s = Some n" using s by (simp add: snippet_name_def Let_def)
qed

lemma snippet_pattern: "match_groups SNIPPET_FIRST_LINE_RE s = map_option (\<lambda>n. [n]) (snippet_name s)"
proof (rule match_groups_eqI)
  fix gs
  show "(\<exists>e. (gs, e) \<in> set (captures SNIPPET_FIRST_LINE_RE ([], s))) \<longleftrightarrow> map_option (\<lambda>n. [n]) (snippet_name s) = Some gs"
    (is "?matched \<longleftrightarrow> ?named")
  proof
    assume ?matched
    then obtain a n b t where "gs = [n]" "s = ''// snippet:'' @ a @ n @ b @ t" "list_all is_space a" "n \<noteq> []" "list_all name_char n"
        "list_all is_space b" "t = [] \<or> t = [CHR 0x0A]"
      unfolding SNIPPET_FIRST_LINE_RE_def captures_iff by (auto simp: at_end_def Suc_le_eq)
    moreover from this have "list_all is_space (b @ t)" by (auto simp: is_space_def)
    ultimately have "gs = [n]" "snippet_name s = Some n" unfolding snippet_name_iff by blast+
    then show ?named by simp
  next
    assume ?named
    then obtain n where gs: "gs = [n]" and "snippet_name s = Some n" by auto
    then obtain a b where s: "s = ''// snippet:'' @ a @ n @ b @ []"
      and parts: "list_all is_space a" "n \<noteq> []" "list_all name_char n" "list_all is_space b"
      unfolding snippet_name_iff by auto
    show ?matched
      unfolding SNIPPET_FIRST_LINE_RE_def gs s
      by (rule exI) (rule captures_intros | use parts in \<open>simp add: at_end_def Suc_le_eq\<close>)+
  qed
qed

lemma expression_body_iff:
  "expression_body s = Some e
     \<longleftrightarrow> (\<exists>q a. py_strip s = q @ a @ [CHR 0x7B, CHR 0x7B] @ e @ [CHR 0x7D, CHR 0x7D] \<and> (q = [] \<or> q = ''='') \<and> list_all is_space a \<and> e \<noteq> [])"
proof
  assume match: "expression_body s = Some e"
  define t where "t = py_strip s"
  define u where "u = (if prefix ''='' t then tl t else t)"
  define r where "r = drop 2 (dropWhile is_space u)"
  have shape: "prefix [CHR 0x7B, CHR 0x7B] (dropWhile is_space u)" "suffix [CHR 0x7D, CHR 0x7D] r" "2 < length r" "e = take (length r - 2) r"
    using match unfolding expression_body_def Let_def t_def [symmetric] u_def [symmetric] r_def [symmetric]
    by (simp_all split: if_splits)
  obtain q where q: "t = q @ u" "q = [] \<or> q = ''=''"
  proof
    show "t = (if prefix ''='' t then ''='' else []) @ u" by (auto simp: u_def prefix_def)
  qed simp
  obtain a where a: "u = a @ [CHR 0x7B, CHR 0x7B] @ r" "list_all is_space a"
  proof
    show "u = takeWhile is_space u @ [CHR 0x7B, CHR 0x7B] @ r"
      using shape(1) by (auto simp: prefix_def r_def) (metis takeWhile_dropWhile_id)
    show "list_all is_space (takeWhile is_space u)" by (auto simp: list_all_iff dest: set_takeWhileD)
  qed
  have "r = e @ [CHR 0x7D, CHR 0x7D]" "e \<noteq> []" using shape(2-4) by (auto simp: suffix_def)
  then have "t = q @ a @ [CHR 0x7B, CHR 0x7B] @ e @ [CHR 0x7D, CHR 0x7D]" "e \<noteq> []" using q(1) a(1) by simp_all
  then show "\<exists>q a. py_strip s = q @ a @ [CHR 0x7B, CHR 0x7B] @ e @ [CHR 0x7D, CHR 0x7D] \<and> (q = [] \<or> q = ''='') \<and> list_all is_space a \<and> e \<noteq> []"
    using q(2) a(2) unfolding t_def by blast
next
  assume "\<exists>q a. py_strip s = q @ a @ [CHR 0x7B, CHR 0x7B] @ e @ [CHR 0x7D, CHR 0x7D] \<and> (q = [] \<or> q = ''='') \<and> list_all is_space a \<and> e \<noteq> []"
  then obtain q a where t: "py_strip s = q @ a @ [CHR 0x7B, CHR 0x7B] @ e @ [CHR 0x7D, CHR 0x7D]"
    and q: "q = [] \<or> q = ''=''" and a: "list_all is_space a" and e: "e \<noteq> []" by blast
  have brace: "\<not> is_space (CHR 0x7B)" "\<not> is_space (CHR ''='')" by (simp_all add: is_space_def)
  have "(if prefix ''='' (py_strip s) then tl (py_strip s) else py_strip s) = a @ [CHR 0x7B, CHR 0x7B] @ e @ [CHR 0x7D, CHR 0x7D]"
    using q a brace by (cases a) (auto simp: t)
  moreover have "dropWhile is_space (a @ [CHR 0x7B, CHR 0x7B] @ e @ [CHR 0x7D, CHR 0x7D]) = [CHR 0x7B, CHR 0x7B] @ e @ [CHR 0x7D, CHR 0x7D]"
    using a brace by (auto simp: dropWhile_append list_all_iff)
  ultimately show "expression_body s = Some e"
    using e by (simp add: expression_body_def Let_def suffix_def)
qed

lemma expression_pattern: "fullmatch_groups EXPRESSION_ONLY_RE (py_strip s) = map_option (\<lambda>e. [e]) (expression_body s)"
proof (rule fullmatch_groups_eqI)
  fix gs
  show "(\<exists>b. (gs, b, []) \<in> set (captures EXPRESSION_ONLY_RE ([], py_strip s))) \<longleftrightarrow> map_option (\<lambda>e. [e]) (expression_body s) = Some gs"
    (is "?matched \<longleftrightarrow> ?body")
  proof
    assume ?matched
    then obtain q a e b where s: "py_strip s = q @ a @ [CHR 0x7B, CHR 0x7B] @ e @ [CHR 0x7D, CHR 0x7D] @ b"
      and parts: "gs = [e]" "list_all (\<lambda>c. c = CHR ''='') q" "length q \<le> 1" "list_all is_space a" "e \<noteq> []" "list_all is_space b"
      unfolding EXPRESSION_ONLY_RE_def captures_iff by (auto simp: Suc_le_eq)
    have "b = []"
      using py_strip_ends(2) [of s] parts(6) by (cases b rule: rev_cases) (auto simp: s)
    moreover have "q = [] \<or> q = ''=''" using parts(2,3) by (cases q) auto
    ultimately have "gs = [e]" "expression_body s = Some e"
      using s parts unfolding expression_body_iff by auto
    then show ?body by simp
  next
    assume ?body
    then obtain e where gs: "gs = [e]" and "expression_body s = Some e" by auto
    then obtain q a where s: "py_strip s = q @ a @ [CHR 0x7B, CHR 0x7B] @ e @ [CHR 0x7D, CHR 0x7D] @ [] @ []"
      and parts: "q = [] \<or> q = ''=''" "list_all is_space a" "e \<noteq> []"
      unfolding expression_body_iff by auto
    have q: "list_all (\<lambda>c. c = CHR ''='') q" "length q \<le> 1" using parts(1) by auto
    show ?matched
      unfolding EXPRESSION_ONLY_RE_def gs s
      by (rule exI) (rule captures_intros | use q parts(2,3) in \<open>simp add: at_end_def Suc_le_eq list_all_iff\<close>)+
  qed
qed

section \<open>The error taxonomy\<close>

lemma boundary_free_lit_i [simp]: "boundary_free (lit_i w)"
  by (induction w rule: lit_i.induct) auto

lemma denotes_lit_i: "py_lower w = w \<Longrightarrow> denotes (lit_i w) y \<longleftrightarrow> py_lower y = w"
proof (induction w arbitrary: y rule: lit_i.induct)
  case (2 c cs)
  then have c: "lower_char c = c" "py_lower cs = cs" by (simp_all add: py_lower_def)
  have "denotes (lit_i (c # cs)) y \<longleftrightarrow> (\<exists>d ds. y = [d] @ ds \<and> ignoring_case (\<lambda>d. d = c) d \<and> denotes (lit_i cs) ds)"
    by (simp only: lit_i.simps denotes.simps) blast
  also have "\<dots> \<longleftrightarrow> (\<exists>d ds. y = [d] @ ds \<and> lower_char d = c \<and> py_lower ds = cs)"
    unfolding "2.IH" [OF c(2)] using c(1) by (auto simp: ignoring_case_def)
  finally show ?case by (auto simp: py_lower_def map_eq_Cons_conv)
qed (simp add: py_lower_def)

text \<open>A part of fixed length matches in one way at most.\<close>

lemma ex_split: "(\<exists>y t. s = y @ t \<and> length y = n \<and> Q y t) \<longleftrightarrow> n \<le> length s \<and> Q (take n s) (drop n s)"
proof
  assume "n \<le> length s \<and> Q (take n s) (drop n s)"
  then show "\<exists>y t. s = y @ t \<and> length y = n \<and> Q y t"
    by (intro exI [of _ "take n s"] exI [of _ "drop n s"]) simp
qed auto

lemma prefix_iff_take: "prefix w t \<longleftrightarrow> length w \<le> length t \<and> take (length w) t = w"
  by (metis append_eq_conv_conj append_take_drop_id prefix_def prefix_length_le)

lemma captures_lit_i:
  assumes w: "py_lower w = w" "length w = n"
  shows "(gs, e) \<in> set (captures (Plain (lit_i w) # ps) (b, s))
     \<longleftrightarrow> prefix w (py_lower s) \<and> (gs, e) \<in> set (captures ps (rev (take n s) @ b, drop n s))"
proof -
  have "length y = n" if "py_lower y = w" for y using w(2) by (simp add: that [symmetric] py_lower_def)
  then have "(gs, e) \<in> set (captures (Plain (lit_i w) # ps) (b, s))
      \<longleftrightarrow> (\<exists>y t. s = y @ t \<and> length y = n \<and> py_lower y = w \<and> (gs, e) \<in> set (captures ps (rev y @ b, t)))"
    unfolding captures_Plain spans_iff_denotes [OF boundary_free_lit_i] denotes_lit_i [OF w(1)] by blast
  moreover have "prefix w (py_lower s) \<longleftrightarrow> n \<le> length s \<and> py_lower (take n s) = w"
    using w(2) by (simp add: prefix_iff_take py_lower_def take_map)
  ultimately show ?thesis unfolding ex_split by blast
qed

lemma captures_digits:
  "(gs, e) \<in> set (captures (Group (digits_re n n) # ps) (b, s))
     \<longleftrightarrow> n \<le> length s \<and> list_all is_decimal (take n s)
         \<and> (\<exists>hs. gs = take n s # hs \<and> (hs, e) \<in> set (captures ps (rev (take n s) @ b, drop n s)))"
proof -
  have "(gs, e) \<in> set (captures (Group (digits_re n n) # ps) (b, s))
      \<longleftrightarrow> (\<exists>y t. s = y @ t \<and> length y = n \<and> list_all is_decimal y
             \<and> (\<exists>hs. gs = y # hs \<and> (hs, e) \<in> set (captures ps (rev y @ b, t))))"
    unfolding captures_Group by (auto simp: decimals_def)
  then show ?thesis unfolding ex_split by blast
qed

lemma captures_Class:
  "(gs, e) \<in> set (captures (Plain (Class f) # ps) (b, s))
     \<longleftrightarrow> s \<noteq> [] \<and> f (hd s) \<and> (gs, e) \<in> set (captures ps (hd s # b, tl s))"
  by (cases s) (auto simp: advance_def)

lemma captures_WordBoundary:
  "(gs, e) \<in> set (captures (Plain WordBoundary # ps) p) \<longleftrightarrow> at_boundary p \<and> (gs, e) \<in> set (captures ps p)"
  by simp

lemma captures_words:
  "(gs, e) \<in> set (captures (Plain (lit_i ''status code '') # ps) (b, s))
     \<longleftrightarrow> prefix ''status code '' (py_lower s) \<and> (gs, e) \<in> set (captures ps (rev (take 12 s) @ b, drop 12 s))"
  "(gs, e) \<in> set (captures (Plain (lit_i ''http'') # ps) (b, s))
     \<longleftrightarrow> prefix ''http'' (py_lower s) \<and> (gs, e) \<in> set (captures ps (rev (take 4 s) @ b, drop 4 s))"
  by (rule captures_lit_i; simp add: eval_simps)+

lemmas captures_fixed = captures_Nil captures_words captures_digits captures_Class captures_WordBoundary

lemma status_here:
  "first_groups (captures STATUS_IN_MESSAGE (b, s))
     = map_option (\<lambda>d. [d]) (if prefix ''status code '' (py_lower s) then three_digits (drop 12 s) else None)"
  unfolding STATUS_IN_MESSAGE_def
  by (rule first_groups_unique) (auto simp: captures_fixed three_digits_def simp del: captures.simps lit_i.simps)

lemma status_pattern: "search_groups_from STATUS_IN_MESSAGE b s = map_option (\<lambda>d. [d]) (status_in_message s)"
  by (induction s arbitrary: b) (simp_all add: status_here py_lower_def split: option.splits)

text \<open>The five characters a match begins with.\<close>

lemma http_prefix:
  "prefix ''http '' (py_lower s) \<or> prefix ''http/'' (py_lower s)
     \<longleftrightarrow> prefix ''http'' (py_lower s) \<and> drop 4 s \<noteq> [] \<and> one_of '' /'' (hd (drop 4 s))"
proof -
  have lower: "one_of '' /'' c \<longleftrightarrow> lower_char c = CHR '' '' \<or> lower_char c = CHR ''/''" for c
    by (auto simp: lower_char_def one_of_def is_upper_az_def dest!: arg_cong [of _ _ "of_char :: char \<Rightarrow> nat"])
  show ?thesis
  proof (cases "drop 4 s")
    case Nil
    then show ?thesis by (auto simp: prefix_iff_take py_lower_def)
  next
    case (Cons c t)
    then have "4 < length s" by (metis drop_eq_Nil list.distinct(1) not_le)
    then obtain u where u: "s = u @ c # t" "length u = 4"
      using append_take_drop_id [of 4 s] Cons by (metis length_take less_imp_le min_absorb2)
    then obtain c1 c2 c3 c4 where "u = [c1, c2, c3, c4]" by (auto simp: eval_nat_numeral length_Suc_conv)
    then have "s = [c1, c2, c3, c4] @ c # t" using u(1) by simp
    then show ?thesis by (auto simp: py_lower_def lower)
  qed
qed

lemma is_word_eq: "is_word c = word_char c"
  by (simp add: is_word_def word_char_def)

lemma boundary_before: "s \<noteq> [] \<Longrightarrow> is_word (hd s) \<Longrightarrow> at_boundary (b, s) \<longleftrightarrow> \<not> (b \<noteq> [] \<and> is_word (hd b))"
  by (simp add: at_boundary_def is_word_eq)

lemma boundary_after: "d \<noteq> [] \<Longrightarrow> is_word (last d) \<Longrightarrow> at_boundary (rev d @ b, t) \<longleftrightarrow> \<not> (t \<noteq> [] \<and> is_word (hd t))"
  by (simp add: at_boundary_def is_word_eq hd_rev)

lemma http_here_pattern:
  "first_groups (captures HTTP_IN_MESSAGE (b, s)) = map_option (\<lambda>d. [d]) (http_here (b \<noteq> [] \<and> is_word (hd b)) s)"
proof (rule first_groups_unique)
  fix gs
  show "(\<exists>e. (gs, e) \<in> set (captures HTTP_IN_MESSAGE (b, s)))
      \<longleftrightarrow> map_option (\<lambda>d. [d]) (http_here (b \<noteq> [] \<and> is_word (hd b)) s) = Some gs"
  proof (cases "prefix ''http'' (py_lower s) \<and> drop 4 s \<noteq> [] \<and> one_of '' /'' (hd (drop 4 s))")
    case False
    then show ?thesis
      unfolding HTTP_IN_MESSAGE_def captures_fixed by (auto simp: http_here_def http_prefix)
  next
    case True
    define t where "t = drop 5 s"
    have t: "tl (drop 4 s) = t" using drop_Suc [of 4 s] by (simp add: t_def tl_drop)
    have t': "drop 8 s = drop 3 t" by (simp add: t_def)
    have word: "is_word (last d)" if "list_all is_decimal d" "d \<noteq> []" for d
      using that by (cases d rule: rev_cases) (auto simp: is_word_def is_alnum_def is_digit_def)
    have "is_word c" if "lower_char c = CHR ''h''" for c
      using that by (auto simp: lower_char_def is_word_def is_alnum_def is_alpha_def is_lower_az_def split: if_splits)
    then have "s \<noteq> []" "is_word (hd s)" using True by (cases s; auto simp: py_lower_def)+
    then have before: "at_boundary (b, s) \<longleftrightarrow> \<not> (b \<noteq> [] \<and> is_word (hd b))" by (rule boundary_before)
    have after: "at_boundary (rev (take 3 t) @ x, drop 3 t) \<longleftrightarrow> \<not> (drop 3 t \<noteq> [] \<and> is_word (hd (drop 3 t)))"
      if "3 \<le> length t" "list_all is_decimal (take 3 t)" for x
    proof (rule boundary_after)
      show "take 3 t \<noteq> []" using that(1) by auto
      then show "is_word (last (take 3 t))" by (rule word [OF that(2)])
    qed
    have "(\<exists>e. (gs, e) \<in> set (captures HTTP_IN_MESSAGE (b, s)))
        \<longleftrightarrow> \<not> (b \<noteq> [] \<and> is_word (hd b)) \<and> 3 \<le> length t \<and> list_all is_decimal (take 3 t)
            \<and> \<not> (drop 3 t \<noteq> [] \<and> is_word (hd (drop 3 t))) \<and> gs = [take 3 t]"
      unfolding HTTP_IN_MESSAGE_def captures_fixed t using True before after by blast
    moreover have "http_here (b \<noteq> [] \<and> is_word (hd b)) s
        = (if \<not> (b \<noteq> [] \<and> is_word (hd b)) \<and> (3 \<le> length t \<and> list_all is_decimal (take 3 t))
              \<and> \<not> (drop 3 t \<noteq> [] \<and> is_word (hd (drop 3 t))) then Some (take 3 t) else None)"
      unfolding http_here_def http_prefix t' t_def [symmetric] three_digits_def using True by simp
    ultimately show ?thesis by auto
  qed
qed

lemma http_pattern:
  "search_groups_from HTTP_IN_MESSAGE b s = map_option (\<lambda>d. [d]) (http_in_message (b \<noteq> [] \<and> is_word (hd b)) s)"
proof (induction s arbitrary: b)
  case Nil
  then show ?case by (simp add: http_here_pattern) (simp add: http_here_def py_lower_def)
next
  case (Cons c s)
  then show ?case by (simp add: http_here_pattern split: option.splits)
qed

section \<open>Properties\<close>

text \<open>
  C8: The functions of the model that read the groups of a pattern return, for every text, what Python's matcher returns
  for the pattern of the source: the business id, the two date formats, the snippet line, the expression-only value and
  the two ways an error message carries a status, the latter at the leftmost position.
\<close>

theorem matchers_read_the_patterns:
  "fullmatch_groups PATTERN s = map_option (\<lambda>(body, check_s). [body, check_s]) (business_id_match s)
   \<and> fullmatch_groups FINNISH s = map_option (\<lambda>(d, m, y). [d, m, y]) (finnish_match s)
   \<and> fullmatch_groups ISO s = map_option (\<lambda>(y, m, d). [y, m, d]) (iso_match s)
   \<and> match_groups SNIPPET_FIRST_LINE_RE s = map_option (\<lambda>n. [n]) (snippet_name s)
   \<and> fullmatch_groups EXPRESSION_ONLY_RE (py_strip s) = map_option (\<lambda>e. [e]) (expression_body s)
   \<and> search_groups STATUS_IN_MESSAGE s = map_option (\<lambda>d. [d]) (status_in_message s)
   \<and> search_groups HTTP_IN_MESSAGE s = map_option (\<lambda>d. [d]) (http_in_message False s)"
  using business_id_pattern date_patterns snippet_pattern expression_pattern status_pattern http_pattern [of "[]"]
  by (simp add: search_groups_def)

text \<open>The calendar day a text says, in one of the two formats.\<close>

definition says_day :: "string \<Rightarrow> date \<Rightarrow> bool" where
  "says_day s x \<longleftrightarrow>
     (\<exists>d m y. decimals 1 2 d \<and> decimals 1 2 m \<and> decimals 4 4 y
        \<and> x = Date (int_of_digits y) (int_of_digits m) (int_of_digits d)
        \<and> (s = d @ ''.'' @ m @ ''.'' @ y \<or> length d = 2 \<and> length m = 2 \<and> s = y @ ''-'' @ m @ ''-'' @ d))"

lemma decimals_two: "decimals 2 2 d \<longleftrightarrow> decimals 1 2 d \<and> length d = 2"
  by (auto simp: decimals_def)

lemma says_day_matches:
  "says_day s x \<longleftrightarrow>
     (\<exists>d m y. x = Date (int_of_digits y) (int_of_digits m) (int_of_digits d)
        \<and> (finnish_match s = Some (d, m, y) \<or> iso_match s = Some (y, m, d)))"
  unfolding says_day_def finnish_match_iff iso_match_iff decimals_two by blast

lemma formats_disjoint: "finnish_match s \<noteq> None \<Longrightarrow> iso_match s = None"
proof (rule ccontr)
  assume "finnish_match s \<noteq> None" "iso_match s \<noteq> None"
  then obtain d m y d' m' y' where "finnish_match s = Some (d, m, y)" "iso_match s = Some (y', m', d')" by auto
  then have f: "s = d @ ''.'' @ m @ ''.'' @ y" "decimals 1 2 d" "decimals 1 2 m" "decimals 4 4 y" and i: "s = y' @ ''-'' @ m' @ ''-'' @ d'"
    unfolding finnish_match_iff iso_match_iff by blast+
  have "CHR ''-'' \<in> set s" unfolding i by simp
  then show False using f(2-4) unfolding f(1) by (auto simp: decimals_def list_all_iff)
qed

lemma parse_date_iff: "parse_date v = Some x \<longleftrightarrow> says_day (py_strip (or_empty v)) x \<and> valid_date x"
proof -
  define s where "s = py_strip (or_empty v)"
  have "parse_date v = (case finnish_match s of
      Some (d, m, y) \<Rightarrow> date_or_none (int_of_digits y) (int_of_digits m) (int_of_digits d)
    | None \<Rightarrow> (case iso_match s of
        Some (y, m, d) \<Rightarrow> date_or_none (int_of_digits y) (int_of_digits m) (int_of_digits d) | None \<Rightarrow> None))"
    by (simp add: parse_date_def Let_def s_def [symmetric]) (simp add: finnish_match_def iso_match_def)
  then show ?thesis
    unfolding says_day_matches s_def [symmetric] using formats_disjoint [of s] by (auto split: option.splits)
qed

text \<open>
  C9: The date rule passes exactly when the two texts, stripped, say existing calendar days, each in the form d.m.yyyy or
  yyyy-mm-dd, the invoice date is not after today and the due date is not before the invoice date.
\<close>

theorem dates_passes_iff:
  "passed (dates invoice_date due_date today) \<longleftrightarrow>
     (\<exists>i d. says_day (py_strip (or_empty invoice_date)) i \<and> valid_date i
         \<and> says_day (py_strip (or_empty due_date)) d \<and> valid_date d \<and> i \<le> today \<and> i \<le> d)"
  unfolding dates_passes_parsed parse_date_iff by blast

end
