(* ===== verification/Lint_Rules.thy ===== *)
theory Lint_Rules
  imports Patterns
begin

text \<open>
  What the linter decides: the rules of its documentation as a specification, stated over the entries of the workflow and
  the places in it without the functions of the code, and that the exit code 0 means exactly that every file conforms to it.  The exemption of pure expressions from the rule on addresses never applies: such an
  expression with a literal address anywhere has it between its braces.
\<close>

section \<open>Literal addresses\<close>

text \<open>A character that can neither be stripped nor belong to the delimiters of an expression.\<close>

definition solid :: "char \<Rightarrow> bool" where
  "solid c \<longleftrightarrow> \<not> is_space c \<and> c \<noteq> CHR ''='' \<and> c \<noteq> CHR 0x7B \<and> c \<noteq> CHR 0x7D"

lemma ignoring_case_solid: "ignoring_case (\<lambda>d. d = k) c \<Longrightarrow> solid k \<Longrightarrow> solid c"
proof (rule ccontr)
  assume c: "ignoring_case (\<lambda>d. d = k) c" "solid k" "\<not> solid c"
  then have "lower_char c = c" by (auto simp: solid_def lower_char_def is_space_def is_upper_az_def)
  then show False using c by (simp add: ignoring_case_def)
qed

lemma lit_i_solid: "list_all solid s \<Longrightarrow> consists_of solid (lit_i s)"
  by (induction s) (auto intro: ignoring_case_solid)

lemma literal_solid: "consists_of solid LITERAL_HTTP_RE"
proof -
  have "list_all solid ''http''" "solid CHR ''s''" "list_all solid ''://''" by (simp_all add: solid_def is_space_def)
  then show ?thesis
    using lit_i_solid [of "''http''"] by (auto simp: LITERAL_HTTP_RE_def simp del: lit_i.simps intro: ignoring_case_solid)
qed

lemma literal_plain: "boundary_free LITERAL_HTTP_RE"
  by (simp add: LITERAL_HTTP_RE_def)

lemma literal_nonempty: "denotes LITERAL_HTTP_RE y \<Longrightarrow> y \<noteq> []"
  by (auto simp: LITERAL_HTTP_RE_def)

lemma block_inside:
  assumes "pre @ e @ post = x @ y @ z" "y \<noteq> []" "list_all P y" "list_all (\<lambda>c. \<not> P c) pre" "list_all (\<lambda>c. \<not> P c) post"
  shows "\<exists>x' z'. e = x' @ y @ z'"
proof -
  obtain c y' where y: "y = c # y'" "P c" using assms(2,3) by (cases y) auto
  obtain us where us: "e @ post = us @ y @ z"
    using assms(1,4) y by (auto simp: append_eq_append_conv2 append_eq_Cons_conv Cons_eq_append_conv list_all_iff)
  obtain d y1 where y1: "y = y1 @ [d]" "P d" using assms(2,3) by (cases y rule: rev_cases) auto
  have "(us @ y) @ z = e @ post" using us by simp
  then consider vs where "e = us @ y @ vs" | vs where "us @ y = e @ vs" "post = vs @ z"
    unfolding append_eq_append_conv2 by fastforce
  then show ?thesis
  proof cases
    case (2 vs)
    show ?thesis
    proof (cases "vs = []")
      case True
      then have "e = us @ y @ []" using 2(1) by simp
      then show ?thesis by blast
    next
      case False
      then have "last vs = d" using 2(1) y1 by (metis append_is_Nil_conv last_appendR last_snoc)
      then show ?thesis using False 2(2) assms(5) y1(2) by (metis last_in_set list_all_append list_all_iff)
    qed
  qed blast
qed

lemma strip_parts: "\<exists>a b. s = a @ py_strip s @ b \<and> list_all is_space a \<and> list_all is_space b"
proof -
  define m where "m = dropWhile is_space s"
  have "s = takeWhile is_space s @ m" "rev m = takeWhile is_space (rev m) @ dropWhile is_space (rev m)" by (simp_all add: m_def)
  then have "s = takeWhile is_space s @ py_strip s @ rev (takeWhile is_space (rev m))"
    unfolding py_strip_def m_def by (metis rev_append rev_rev_ident)
  moreover have "list_all is_space (takeWhile is_space s)" "list_all is_space (rev (takeWhile is_space (rev m)))"
    by (auto simp: list_all_iff dest: set_takeWhileD)
  ultimately show ?thesis by blast
qed

lemma expression_parts:
  assumes "expression_body s = Some e"
  shows "\<exists>pre post. s = pre @ e @ post \<and> list_all (\<lambda>c. \<not> solid c) pre \<and> list_all (\<lambda>c. \<not> solid c) post"
proof -
  define t where "t = py_strip s"
  define u where "u = (if prefix ''='' t then tl t else t)"
  define r where "r = drop 2 (dropWhile is_space u)"
  have r: "prefix [CHR 0x7B, CHR 0x7B] (dropWhile is_space u)" "suffix [CHR 0x7D, CHR 0x7D] r" "e = take (length r - 2) r"
    using assms by (auto simp: expression_body_def Let_def t_def u_def r_def split: if_splits)
  have "dropWhile is_space u = [CHR 0x7B, CHR 0x7B] @ r" using r(1) by (auto simp: r_def prefix_def)
  moreover have "r = e @ [CHR 0x7D, CHR 0x7D]" using r(2,3) by (auto simp: suffix_def)
  ultimately have u: "u = takeWhile is_space u @ [CHR 0x7B, CHR 0x7B] @ e @ [CHR 0x7D, CHR 0x7D]"
    by (metis append.assoc takeWhile_dropWhile_id)
  obtain q where q: "t = q @ u" "q = [] \<or> q = ''=''"
  proof (cases "prefix ''='' t")
    case True
    then show ?thesis using that [of "''=''"] by (auto simp: u_def prefix_def)
  next
    case False
    then show ?thesis using that [of "[]"] by (simp add: u_def)
  qed
  obtain a b where s: "s = a @ t @ b" "list_all is_space a" "list_all is_space b" using strip_parts t_def by blast
  have eq: "s = (a @ q @ takeWhile is_space u @ [CHR 0x7B, CHR 0x7B]) @ e @ [CHR 0x7D, CHR 0x7D] @ b"
    using u s(1) q(1) by (metis append.assoc)
  have "list_all (\<lambda>c. \<not> solid c) (a @ q @ takeWhile is_space u @ [CHR 0x7B, CHR 0x7B])"
    "list_all (\<lambda>c. \<not> solid c) ([CHR 0x7D, CHR 0x7D] @ b)"
    using s(2,3) q(2) by (auto simp: list_all_iff solid_def dest: set_takeWhileD)
  then show ?thesis using eq by blast
qed

lemma has_literal_http_url_iff: "has_literal_http_url s \<longleftrightarrow> re_search LITERAL_HTTP_RE s"
proof -
  have "re_search LITERAL_HTTP_RE e" if search: "re_search LITERAL_HTTP_RE s" and body: "expression_body s = Some e" for e
  proof -
    obtain x y z where y: "s = x @ y @ z" "denotes LITERAL_HTTP_RE y" using search search_matches by blast
    obtain pre post where s: "s = pre @ e @ post" "list_all (\<lambda>c. \<not> solid c) pre" "list_all (\<lambda>c. \<not> solid c) post"
      using expression_parts [OF body] by blast
    have "pre @ e @ post = x @ y @ z" using s(1) y(1) by simp
    then have "\<exists>x' z'. e = x' @ y @ z'"
      by (rule block_inside [OF _ literal_nonempty [OF y(2)] matches_consists [OF literal_solid y(2)] s(2,3)])
    then show ?thesis using y(2) search_iff [OF literal_plain] by blast
  qed
  then show ?thesis by (auto simp: has_literal_http_url_def split: option.splits)
qed

lemma scan_empty_iff:
  "scan_hardcoded_urls v label path = [] \<longleftrightarrow> (\<forall>s \<in> set (collect_strings v). \<not> re_search LITERAL_HTTP_RE s)"
proof (induction v label path rule: scan_hardcoded_urls.induct)
  case (2 xs label path)
  then have "scan_hardcoded_urls (PList xs) label path = []
      \<longleftrightarrow> (\<forall>(i, v) \<in> set (number_from 0 xs). \<forall>s \<in> set (collect_strings v). \<not> re_search LITERAL_HTTP_RE s)"
    by auto
  also have "\<dots> \<longleftrightarrow> (\<forall>v \<in> snd ` set (number_from 0 xs). \<forall>s \<in> set (collect_strings v). \<not> re_search LITERAL_HTTP_RE s)" by auto
  finally show ?case by (auto simp: set_number_from)
qed (auto simp: has_literal_http_url_iff)

section \<open>The rules\<close>

text \<open>The text of an entry, empty when it is missing or has no value; the object of the parameters, if there can be one.\<close>

definition text_entry :: "pydict \<Rightarrow> string \<Rightarrow> string" where
  "text_entry d k = (case map_of d k of Some v \<Rightarrow> if truthy v then py_str v else [] | None \<Rightarrow> [])"

definition param_object :: "pydict \<Rightarrow> pydict option" where
  "param_object node =
     (case map_of node ''parameters'' of
        None \<Rightarrow> Some []
      | Some v \<Rightarrow> if \<not> truthy v then Some [] else (case v of PDict d \<Rightarrow> Some d | _ \<Rightarrow> None))"

text \<open>Default names: a name of the list, perhaps with a number behind it.\<close>

definition default_names :: "string list" where
  "default_names =
     [''HTTP Request'', ''Code'', ''Set'', ''IF'', ''If'', ''Switch'', ''Merge'', ''Webhook'', ''Edit Fields'', ''Filter'',
      ''Wait'', ''Split Out'', ''Split In Batches'', ''Schedule Trigger'', ''Manual Trigger'', ''Error Trigger'',
      ''No Operation, do nothing'', ''Sticky Note'', ''Note'', ''Execute Workflow'', ''Execute Sub-workflow'']"

definition default_name :: "string \<Rightarrow> bool" where
  "default_name s \<longleftrightarrow> (\<exists>b ds. s = b @ ds \<and> b \<in> set default_names \<and> list_all is_decimal ds)"

text \<open>
  Timeouts: a positive number, a text that is an expression or no number or a positive number, a list or an object; the
  entry of the options counts before the one of the parameters.
\<close>

inductive counts_as_timeout :: "pyval \<Rightarrow> bool" where
  "0 < i \<Longrightarrow> counts_as_timeout (PInt i)"
| "t = ''inf'' \<Longrightarrow> counts_as_timeout (PFloat t)"
| "float_val t = Some q \<Longrightarrow> 0 < q \<Longrightarrow> counts_as_timeout (PFloat t)"
| "py_strip s = [CHR 0x7B, CHR 0x7B] @ r \<Longrightarrow> counts_as_timeout (PStr s)"
| "py_strip s = ''='' @ [CHR 0x7B, CHR 0x7B] @ r \<Longrightarrow> counts_as_timeout (PStr s)"
| "py_strip s \<noteq> [] \<Longrightarrow> float_of_string (py_strip s) = None \<Longrightarrow> snd (sign_and_body (py_lower (py_strip s))) \<notin> {''inf'', ''infinity'', ''nan''}
   \<Longrightarrow> counts_as_timeout (PStr s)"
| "float_of_string (py_strip s) = Some q \<Longrightarrow> snd (sign_and_body (py_lower (py_strip s))) \<notin> {''inf'', ''infinity'', ''nan''}
   \<Longrightarrow> float_positive q \<Longrightarrow> counts_as_timeout (PStr s)"
| "sign_and_body (py_lower (py_strip s)) = (False, b) \<Longrightarrow> b \<in> {''inf'', ''infinity''} \<Longrightarrow> counts_as_timeout (PStr s)"
| "counts_as_timeout (PList vs)"
| "counts_as_timeout (PDict d)"

inductive_simps counts_as_timeout_simps:
  "counts_as_timeout PNone" "counts_as_timeout (PBool b)" "counts_as_timeout (PInt i)" "counts_as_timeout (PFloat t)"
  "counts_as_timeout (PStr s)" "counts_as_timeout (PList vs)" "counts_as_timeout (PDict d)"

definition given_entry :: "pydict \<Rightarrow> string \<Rightarrow> pyval \<Rightarrow> bool" where
  "given_entry d k v \<longleftrightarrow> map_of d k = Some v \<and> v \<noteq> PNone \<and> v \<noteq> PStr []"

definition option_timeout :: "pydict \<Rightarrow> pyval \<Rightarrow> bool" where
  "option_timeout d v \<longleftrightarrow> (\<exists>options. map_of d ''options'' = Some (PDict options) \<and> given_entry options ''timeout'' v)"

definition timeout_rule :: "pydict \<Rightarrow> bool" where
  "timeout_rule node \<longleftrightarrow>
     (\<exists>d v. param_object node = Some d \<and> counts_as_timeout v
        \<and> (option_timeout d v \<or> (\<forall>u. \<not> option_timeout d u) \<and> given_entry d ''timeout'' v))"

text \<open>A body is the first text among the code entries; its first line may name a snippet.\<close>

definition code_text :: "pydict \<Rightarrow> string \<Rightarrow> bool" where
  "code_text d body \<longleftrightarrow>
     (\<exists>ks k ks'. [''jsCode'', ''pythonCode'', ''functionCode'', ''code''] = ks @ k # ks' \<and> map_of d k = Some (PStr body)
        \<and> (\<forall>k' \<in> set ks. \<forall>s. map_of d k' \<noteq> Some (PStr s)))"

definition marks :: "string \<Rightarrow> string \<Rightarrow> bool" where
  "marks body name \<longleftrightarrow>
     (\<exists>a b. takeWhile (\<lambda>c. \<not> is_line_break c) body = ''// snippet:'' @ a @ name @ b
        \<and> list_all is_space a \<and> list_all is_space b \<and> name \<noteq> [] \<and> list_all name_char name)"

definition snippet_rule :: "snippet_dir \<Rightarrow> pydict \<Rightarrow> bool" where
  "snippet_rule snippets node \<longleftrightarrow>
     (\<exists>d. param_object node = Some d
       \<and> (\<forall>body name. code_text d body \<and> marks body name \<longrightarrow>
            \<not> sublist ''..'' name
            \<and> (\<exists>content. snippets name = Some (Inr content) \<and> replace_crlf body = replace_crlf (universal_newlines content))))"

text \<open>
  Addresses: no string value in the parameters contains \<open>http://\<close> or \<open>https://\<close> in any case, unless the node looks up settings: by
  its name, or as a database node whose query has the word \<open>settings\<close>.
\<close>

definition has_address :: "string \<Rightarrow> bool" where
  "has_address s \<longleftrightarrow> (\<exists>x y z. s = x @ y @ z \<and> py_lower y \<in> {''http://'', ''https://''})"

definition has_word :: "string \<Rightarrow> string \<Rightarrow> bool" where
  "has_word w s \<longleftrightarrow>
     (\<exists>x y z. s = x @ y @ z \<and> py_lower y = w \<and> (x = [] \<or> \<not> word_char (last x)) \<and> (z = [] \<or> \<not> word_char (hd z)))"

definition lookup_name :: "string \<Rightarrow> bool" where
  "lookup_name s \<longleftrightarrow> (\<exists>x y z. s = x @ y @ z \<and> denotes SETTINGS_LOOKUP_NAME_RE y)"

definition database_node :: "pydict \<Rightarrow> bool" where
  "database_node node \<longleftrightarrow> suffix ''.postgres'' (text_entry node ''type'')"

definition settings_query :: "pydict \<Rightarrow> bool" where
  "settings_query d \<longleftrightarrow>
     (\<exists>q. has_word ''settings'' q
        \<and> (map_of d ''query'' = Some (PStr q)
            \<or> (\<forall>v. map_of d ''query'' = Some v \<longrightarrow> \<not> truthy v) \<and> map_of d ''sql'' = Some (PStr q)))"

definition address_rule :: "pydict \<Rightarrow> bool" where
  "address_rule node \<longleftrightarrow>
     lookup_name (text_entry node ''name'')
     \<or> database_node node \<and> (\<exists>d. param_object node = Some d \<and> settings_query d)
     \<or> (database_node node \<longrightarrow> param_object node \<noteq> None)
       \<and> (\<forall>v s. map_of node ''parameters'' = Some v \<and> string_in v s \<longrightarrow> \<not> has_address s)"

definition node_conforms :: "snippet_dir \<Rightarrow> pydict \<Rightarrow> bool" where
  "node_conforms snippets node \<longleftrightarrow>
     ''pinData'' \<notin> fst ` set node
     \<and> \<not> default_name (text_entry node ''name'')
     \<and> (text_entry node ''type'' \<in> {''n8n-nodes-base.httpRequest'', ''n8n-nodes-base.httpRequestTool''} \<longrightarrow> timeout_rule node)
     \<and> (text_entry node ''type'' = ''n8n-nodes-base.code'' \<longrightarrow> snippet_rule snippets node)
     \<and> address_rule node"

definition has_error_workflow :: "pydict \<Rightarrow> bool" where
  "has_error_workflow w \<longleftrightarrow>
     (\<exists>st e. map_of w ''settings'' = Some (PDict st) \<and> map_of st ''errorWorkflow'' = Some e
        \<and> e \<noteq> PNone \<and> e \<noteq> PStr [] \<and> e \<noteq> PDict [] \<and> e \<noteq> PList [])"

definition workflow_conforms :: "snippet_dir \<Rightarrow> pydict \<Rightarrow> bool" where
  "workflow_conforms snippets w \<longleftrightarrow>
     ''pinData'' \<notin> fst ` set w
     \<and> (has_error_workflow w \<or> sublist ''Error Handler'' (text_entry w ''name''))
     \<and> (\<forall>nodes. map_of w ''nodes'' = Some (PList nodes) \<longrightarrow>
          length nodes \<le> 40 \<and> (\<forall>node. PDict node \<in> set nodes \<longrightarrow> node_conforms snippets node))
     \<and> (\<forall>s. string_in (PDict w) s \<longrightarrow> \<not> is_secret s)"

definition document_conforms :: "snippet_dir \<Rightarrow> pyval \<Rightarrow> bool" where
  "document_conforms snippets v \<longleftrightarrow>
     (\<exists>w. v = PDict w \<and> workflow_conforms snippets w)
     \<or> (\<exists>vs. v = PList vs \<and> (\<exists>w. PDict w \<in> set vs) \<and> (\<forall>w. PDict w \<in> set vs \<longrightarrow> workflow_conforms snippets w))"

section \<open>The code decides the rules\<close>

lemma text_entry_eq: "name_of d = text_entry d ''name''" "type_of d = text_entry d ''type''"
  by (auto simp: name_of_def type_of_def text_entry_def dget_def py_or_def split: option.splits)

lemma params_of_eq: "params_of node = (case param_object node of None \<Rightarrow> Inl AttributeError | Some d \<Rightarrow> Inr d)"
  by (auto simp: params_of_def param_object_def dget_def py_or_def split: option.splits pyval.splits)

lemma fullmatch_iff: "boundary_free r \<Longrightarrow> re_fullmatch r s \<longleftrightarrow> denotes r s"
proof
  assume "re_fullmatch r s"
  then obtain q where "q \<in> set (ends r ([], s))" "snd q = []" by (auto simp: re_fullmatch_def list_ex_iff)
  then show "denotes r s" using ends_matches by fastforce
next
  assume "boundary_free r" "denotes r s"
  then show "re_fullmatch r s" using matches_ends [of r s "[]" "[]"] by (force simp: re_fullmatch_def list_ex_iff)
qed

lemma alt_texts: "ss \<noteq> [] \<Longrightarrow> boundary_free (alt ss) \<and> (denotes (alt ss) y \<longleftrightarrow> y \<in> set ss)"
  by (induction ss rule: alt.induct) auto

lemma default_name_eq: "re_fullmatch DEFAULT_NODE_NAME_RE s \<longleftrightarrow> default_name s"
proof -
  have re: "DEFAULT_NODE_NAME_RE = Then (alt default_names) (Many is_decimal 0 None)"
    by (simp only: DEFAULT_NODE_NAME_RE_def default_names_def)
  have ne: "default_names \<noteq> []" by (simp add: default_names_def)
  have "boundary_free DEFAULT_NODE_NAME_RE" unfolding re using alt_texts [OF ne] by simp
  then have "re_fullmatch DEFAULT_NODE_NAME_RE s \<longleftrightarrow> denotes DEFAULT_NODE_NAME_RE s" by (rule fullmatch_iff)
  also have "\<dots> \<longleftrightarrow> default_name s"
    unfolding re denotes.simps default_name_def using alt_texts [OF ne] by simp
  finally show ?thesis .
qed

lemma counts_as_timeout_text: "counts_as_timeout (PStr s) \<longleftrightarrow> timeout_text_set s"
proof -
  obtain neg body where sign: "sign_and_body (py_lower (py_strip s)) = (neg, body)" by fastforce
  have "neg = False \<and> body = []" if "py_strip s = []" using sign that by (auto simp: py_lower_def sign_and_body_def)
  moreover have "float_of_string [] = None"
    by (simp add: float_of_string_def dec_of_string_def py_strip_def sign_and_body_def)
  ultimately show ?thesis
    unfolding counts_as_timeout_simps timeout_text_set_def Let_def sign prefix_def
    by (auto split: option.splits)
qed

lemma timeout_is_set_eq: "timeout_is_set node = Inr True \<longleftrightarrow> timeout_rule node"
proof (cases "param_object node")
  case None
  then show ?thesis by (simp add: timeout_is_set_def http_timeout_def params_of_eq timeout_rule_def)
next
  case (Some d)
  have counts: "(case t of PNone \<Rightarrow> False | PBool _ \<Rightarrow> False | PInt i \<Rightarrow> 0 < i
      | PFloat f \<Rightarrow> f = ''inf'' \<or> (case float_val f of None \<Rightarrow> False | Some q \<Rightarrow> 0 < q) | PStr s \<Rightarrow> timeout_text_set s | _ \<Rightarrow> True)
    \<longleftrightarrow> counts_as_timeout t" for t
    by (cases t) (auto simp: counts_as_timeout_simps(1-4,6,7) counts_as_timeout_text split: option.splits)
  let ?n = "case dget d ''options'' of PDict options \<Rightarrow> dget options ''timeout'' | _ \<Rightarrow> PNone"
  have nested: "option_timeout d v \<longleftrightarrow> v = ?n \<and> \<not> unset ?n" for v
    by (auto simp: option_timeout_def given_entry_def unset_def dget_def split: option.splits pyval.splits)
  have outer: "given_entry d ''timeout'' v \<longleftrightarrow> v = dget d ''timeout'' \<and> \<not> unset (dget d ''timeout'')" for v
    by (auto simp: given_entry_def unset_def dget_def split: option.splits)
  have none: "\<not> counts_as_timeout PNone" by (simp add: counts_as_timeout_simps)
  have "timeout_rule node \<longleftrightarrow> (if unset ?n then \<not> unset (dget d ''timeout'') \<and> counts_as_timeout (dget d ''timeout'') else counts_as_timeout ?n)"
    unfolding timeout_rule_def Some option.inject by (auto simp: nested outer)
  moreover have "timeout_is_set node = Inr (counts_as_timeout (if \<not> unset ?n then ?n else if \<not> unset (dget d ''timeout'') then dget d ''timeout'' else PNone))"
    unfolding timeout_is_set_def http_timeout_def params_of_eq Some counts by (simp add: Let_def)
  ultimately show ?thesis by (simp add: none)
qed

lemma find_split: "find P xs = Some x \<longleftrightarrow> (\<exists>ys zs. xs = ys @ x # zs \<and> P x \<and> (\<forall>y \<in> set ys. \<not> P y))"
proof
  assume "find P xs = Some x"
  then show "\<exists>ys zs. xs = ys @ x # zs \<and> P x \<and> (\<forall>y \<in> set ys. \<not> P y)"
  proof (induction xs)
    case (Cons a xs)
    show ?case
    proof (cases "P a")
      case True
      then have "a # xs = [] @ x # xs \<and> P x \<and> (\<forall>y \<in> set []. \<not> P y)" using Cons.prems by simp
      then show ?thesis by blast
    next
      case False
      then obtain ys zs where "xs = ys @ x # zs" "P x" "\<forall>y \<in> set ys. \<not> P y" using Cons by auto
      then have "a # xs = (a # ys) @ x # zs \<and> P x \<and> (\<forall>y \<in> set (a # ys). \<not> P y)" using False by simp
      then show ?thesis by blast
    qed
  qed simp
next
  assume "\<exists>ys zs. xs = ys @ x # zs \<and> P x \<and> (\<forall>y \<in> set ys. \<not> P y)"
  then obtain ys zs where "xs = ys @ x # zs" "P x" "\<forall>y \<in> set ys. \<not> P y" by blast
  then show "find P xs = Some x" by (induction ys arbitrary: xs) auto
qed

lemma code_text_eq: "code_text d body \<longleftrightarrow> (\<exists>key. code_key d = Some key \<and> body = body_of d key)"
proof -
  have is_text: "is_str (dget d k) \<longleftrightarrow> (\<exists>s. map_of d k = Some (PStr s))" for k
    by (cases "map_of d k"; cases "dget d k") (auto simp: dget_def)
  have "map_of d k = Some (PStr body) \<longleftrightarrow> is_str (dget d k) \<and> body = body_of d k" for k
    unfolding is_text by (auto simp: body_of_def dget_def)
  then show ?thesis
    unfolding code_text_def code_key_def CODE_BODY_KEYS_def find_split is_text by blast
qed

lemma marks_eq: "marks body name \<longleftrightarrow> snippet_name (first_line body) = Some name"
  unfolding marks_def snippet_name_iff first_line_takeWhile by blast

lemma invalid_name_eq: "marks body name \<Longrightarrow> invalid_name name \<longleftrightarrow> sublist ''..'' name"
proof -
  assume "marks body name"
  then have "list_all name_char name" by (auto simp: marks_def)
  moreover have "\<not> name_char (CHR ''/'')" "\<not> name_char (CHR 0x5C)"
    by (simp_all add: name_char_def ascii_alnum_def one_of_def is_upper_az_def is_lower_az_def is_decimal_def)
  ultimately show ?thesis by (auto simp: invalid_name_def contains_iff_sublist list_all_iff)
qed

lemma snippet_issues_empty: "snippet_issues snippets dir node path = Inr [] \<longleftrightarrow> snippet_rule snippets node"
proof (cases "param_object node")
  case (Some d)
  define body where "body = (case code_key d of None \<Rightarrow> [] | Some key \<Rightarrow> body_of d key)"
  have code: "code_body node = Inr body" by (simp add: code_body_def params_of_eq Some body_def)
  have marked: "code_text d b \<and> marks b name \<longleftrightarrow> b = body \<and> marks body name" for b name
    unfolding code_text_eq body_def by (cases "code_key d") (auto simp: marks_eq snippet_name_Nil)
  have "snippet_issues snippets dir node path = Inr [] \<longleftrightarrow>
      (\<forall>name. marks body name \<longrightarrow> \<not> invalid_name name
         \<and> (\<exists>content. snippets name = Some (Inr content) \<and> replace_crlf body = replace_crlf (universal_newlines content)))"
    unfolding marks_eq snippet_issues_def code
    by (cases "snippet_name (first_line body)") (auto simp: Let_def split: option.splits sum.splits)
  then show ?thesis
    unfolding snippet_rule_def Some using marked invalid_name_eq by auto
qed (simp add: snippet_issues_def code_body_def params_of_eq snippet_rule_def)

lemma lower_char_low: "code d < 65 \<Longrightarrow> lower_char c = d \<longleftrightarrow> c = d"
  by (auto simp: lower_char_def is_upper_az_def split: if_splits)

lemma lower_low: "list_all (\<lambda>d. code d < 65) w \<Longrightarrow> py_lower v = w \<longleftrightarrow> v = w"
proof (induction v arbitrary: w)
  case (Cons c v)
  then show ?case by (cases w) (auto simp: py_lower_def lower_char_low)
qed (auto simp: py_lower_def)

lemma py_lower_append: "py_lower y = a @ b \<longleftrightarrow> (\<exists>u v. y = u @ v \<and> py_lower u = a \<and> py_lower v = b)"
  by (auto simp: py_lower_def map_eq_append_conv)

lemma has_address_eq: "re_search LITERAL_HTTP_RE s \<longleftrightarrow> has_address s"
proof -
  have lower: "py_lower ''http'' = ''http''" by (simp add: eval_simps)
  have "ignoring_case (\<lambda>c. c = CHR ''s'') c \<longleftrightarrow> lower_char c = CHR ''s''" for c
    by (auto simp: ignoring_case_def lower_char_def is_upper_az_def)
  then have s: "denotes (Many (ignoring_case (\<lambda>c. c = CHR ''s'')) 0 (Some 1)) v \<longleftrightarrow> py_lower v = [] \<or> py_lower v = ''s''" for v
    by (cases v rule: list.exhaust; cases "tl v") (auto simp: py_lower_def)
  have tail: "denotes (Lit ''://'') v \<longleftrightarrow> py_lower v = ''://''" for v using lower_low [of "''://''" v] by simp
  have "denotes LITERAL_HTTP_RE y \<longleftrightarrow> py_lower y = ''http'' @ [] @ ''://'' \<or> py_lower y = ''http'' @ ''s'' @ ''://''" for y
  proof -
    have "denotes LITERAL_HTTP_RE y \<longleftrightarrow>
        (\<exists>u v. y = u @ v \<and> py_lower u = ''http'' \<and> (\<exists>m t. v = m @ t \<and> (py_lower m = [] \<or> py_lower m = ''s'') \<and> py_lower t = ''://''))"
      unfolding LITERAL_HTTP_RE_def seq.simps denotes.simps(7) denotes_lit_i [OF lower] s tail by (rule refl)
    also have "\<dots> \<longleftrightarrow> py_lower y = ''http'' @ [] @ ''://'' \<or> py_lower y = ''http'' @ ''s'' @ ''://''"
      unfolding py_lower_append by blast
    finally show ?thesis .
  qed
  then show ?thesis unfolding search_iff [OF literal_plain] has_address_def by simp
qed

lemma has_word_eq: "re_search SETTINGS_WORD_RE s \<longleftrightarrow> has_word ''settings'' s"
proof -
  have lower: "py_lower ''settings'' = ''settings''" by (simp add: eval_simps)
  have "is_word c" if "lower_char c = CHR ''s''" for c
    using that by (auto simp: lower_char_def is_word_def is_alnum_def is_alpha_def is_lower_az_def split: if_splits)
  then have ends: "is_word (hd y)" "is_word (last y)" "y \<noteq> []" if "py_lower y = ''settings''" for y
    using that arg_cong [OF that, of hd] arg_cong [OF that, of last] by (auto simp: py_lower_def hd_map last_map)
  have "re_search SETTINGS_WORD_RE s \<longleftrightarrow> (\<exists>x t. s = x @ t \<and> (\<exists>y z. t = y @ z \<and> spans SETTINGS_WORD_RE (rev x) y z))"
  proof -
    have "ends SETTINGS_WORD_RE (b, t) \<noteq> [] \<longleftrightarrow> (\<exists>y z. t = y @ z \<and> spans SETTINGS_WORD_RE b y z)" for b t
      using ends_spans [of _ _ SETTINGS_WORD_RE b t] by (metis list.set_intros(1) neq_Nil_conv empty_iff empty_set surj_pair)
    then show ?thesis by (simp add: re_search_def scan_ends)
  qed
  also have "\<dots> \<longleftrightarrow> (\<exists>x y z. s = x @ y @ z \<and> py_lower y = ''settings'' \<and> at_boundary (rev x, y @ z) \<and> at_boundary (rev y @ rev x, z))"
    unfolding SETTINGS_WORD_RE_def seq.simps spans.simps spans_iff_denotes [OF boundary_free_lit_i] denotes_lit_i [OF lower]
    by (auto simp del: lit_i.simps)
  also have "\<dots> \<longleftrightarrow> has_word ''settings'' s"
  proof -
    have "at_boundary (rev x, y @ z) \<longleftrightarrow> x = [] \<or> \<not> word_char (last x)" "at_boundary (rev y @ rev x, z) \<longleftrightarrow> z = [] \<or> \<not> word_char (hd z)"
      if "py_lower y = ''settings''" for x y z
      using ends [OF that] boundary_before [of "y @ z" "rev x"] boundary_after [of y "rev x" z]
      by (auto simp: is_word_eq hd_append hd_rev)
    then show ?thesis unfolding has_word_def by blast
  qed
  finally show ?thesis .
qed

lemma lookup_name_eq: "re_search SETTINGS_LOOKUP_NAME_RE s \<longleftrightarrow> lookup_name s"
  unfolding lookup_name_def by (rule search_iff) (simp add: SETTINGS_LOOKUP_NAME_RE_def gap_def)

lemma settings_query_eq:
  "(case py_or (py_or (dget d ''query'') (dget d ''sql'')) (PStr []) of PStr q \<Rightarrow> re_search SETTINGS_WORD_RE q | _ \<Rightarrow> False)
     \<longleftrightarrow> settings_query d"
proof -
  have none: "\<not> has_word ''settings'' []" by (auto simp: has_word_def py_lower_def)
  have one: "(case py_or v (PStr []) of PStr q \<Rightarrow> has_word ''settings'' q | _ \<Rightarrow> False) \<longleftrightarrow> (\<exists>q. v = PStr q \<and> has_word ''settings'' q)" for v
    by (cases v) (auto simp: py_or_def none)
  show ?thesis
    unfolding has_word_eq one
    unfolding settings_query_def py_or_def dget_def
    by (cases "map_of d ''query''"; cases "map_of d ''sql''") (auto simp: none)
qed

lemma no_address_eq:
  "scan_hardcoded_urls (dget node ''parameters'') label path = []
     \<longleftrightarrow> (\<forall>v s. map_of node ''parameters'' = Some v \<and> string_in v s \<longrightarrow> \<not> has_address s)"
  unfolding scan_empty_iff has_address_eq by (auto simp: collect_strings_iff dget_def split: option.splits)

lemma address_rule_eq:
  "(\<exists>b. is_settings_lookup_node node = Inr b \<and> (\<not> b \<longrightarrow> scan_hardcoded_urls (dget node ''parameters'') label path = []))
     \<longleftrightarrow> address_rule node"
  unfolding is_settings_lookup_node_def lookup_name_eq text_entry_eq settings_query_eq no_address_eq params_of_eq address_rule_def
    database_node_def
  by (cases "param_object node") auto

lemma missing_error_eq: "missing_error w \<longleftrightarrow> \<not> has_error_workflow w"
  by (auto simp: missing_error_def has_error_workflow_def dget_def Let_def split: option.splits pyval.splits)

lemma lint_node_empty: "lint_node snippets dir path (i, PDict node) = Inr [] \<longleftrightarrow> node_conforms snippets node"
proof -
  let ?p = "path @ ''.nodes['' @ str_nat i @ '']''"
  let ?l = "py_repr (py_or (py_or (PStr (name_of node)) (dget node ''id'')) (PInt (int i)))"
  have "lint_node snippets dir path (i, PDict node) = Inr [] \<longleftrightarrow>
      (type_of node \<in> set HTTP_REQUEST_TYPES \<longrightarrow> timeout_is_set node = Inr True)
      \<and> (type_of node \<in> set CODE_TYPES \<longrightarrow> snippet_issues snippets dir node ?p = Inr [])
      \<and> (\<exists>b. is_settings_lookup_node node = Inr b \<and> (\<not> b \<longrightarrow> scan_hardcoded_urls (dget node ''parameters'') ?l (?p @ ''.parameters'') = []))
      \<and> ''pinData'' \<notin> fst ` set node \<and> \<not> re_fullmatch DEFAULT_NODE_NAME_RE (name_of node)"
    by (cases "is_settings_lookup_node node"; cases "timeout_is_set node"; cases "snippet_issues snippets dir node ?p")
      (simp_all add: lint_node_def Let_def map_of_eq_None_iff)
  then show ?thesis
    unfolding timeout_is_set_eq snippet_issues_empty address_rule_eq default_name_eq text_entry_eq node_conforms_def
      HTTP_REQUEST_TYPES_def CODE_TYPES_def
    by auto
qed

lemma rmap_all_empty: "(\<exists>rs. rmap f xs = Inr rs \<and> concat rs = []) \<longleftrightarrow> (\<forall>x \<in> set xs. f x = Inr [])"
  by (induction xs) (auto simp: rbind_eq_Inr_iff)

lemma all_numbered: "(\<forall>e \<in> set (number_from n xs). P (snd e)) \<longleftrightarrow> (\<forall>x \<in> set xs. P x)"
  using set_number_from [of n xs] by (metis (no_types, lifting) imageE imageI)

lemma lint_workflow_empty: "lint_workflow snippets dir path w = Inr [] \<longleftrightarrow> workflow_conforms snippets w"
proof -
  have node: "lint_node snippets dir path (i, v) = Inr [] \<longleftrightarrow> (\<forall>node. v = PDict node \<longrightarrow> node_conforms snippets node)" for i v
  proof (cases v)
    case (PDict node)
    then show ?thesis by (simp add: lint_node_empty)
  qed (simp_all add: lint_node_def)
  have "(\<exists>rs. rmap (lint_node snippets dir path) (number_from 0 (nodes_of w)) = Inr rs \<and> concat rs = [])
      \<longleftrightarrow> (\<forall>e \<in> set (number_from 0 (nodes_of w)). \<forall>node. snd e = PDict node \<longrightarrow> node_conforms snippets node)"
    unfolding rmap_all_empty using node by (auto simp: split_paired_all)
  also have "\<dots> \<longleftrightarrow> (\<forall>node. PDict node \<in> set (nodes_of w) \<longrightarrow> node_conforms snippets node)"
    using all_numbered [of 0 "nodes_of w" "\<lambda>v. \<forall>node. v = PDict node \<longrightarrow> node_conforms snippets node"] by auto
  finally have nodes: "(\<exists>rs. rmap (lint_node snippets dir path) (number_from 0 (nodes_of w)) = Inr rs \<and> concat rs = [])
      \<longleftrightarrow> (\<forall>node. PDict node \<in> set (nodes_of w) \<longrightarrow> node_conforms snippets node)" .
  have "lint_workflow snippets dir path w = Inr [] \<longleftrightarrow>
      (\<exists>rs. rmap (lint_node snippets dir path) (number_from 0 (nodes_of w)) = Inr rs \<and> concat rs = [])
      \<and> map_of w ''pinData'' = None \<and> (missing_error w \<longrightarrow> contains ''Error Handler'' (name_of w))
      \<and> length (nodes_of w) \<le> 40 \<and> find_secret_matches (PDict w) = []"
    by (cases "rmap (lint_node snippets dir path) (number_from 0 (nodes_of w))") (auto simp: lint_workflow_def Let_def MAX_NODES_def)
  moreover have "length (nodes_of w) \<le> 40 \<and> (\<forall>node. PDict node \<in> set (nodes_of w) \<longrightarrow> node_conforms snippets node)
      \<longleftrightarrow> (\<forall>nodes. map_of w ''nodes'' = Some (PList nodes) \<longrightarrow>
            length nodes \<le> 40 \<and> (\<forall>node. PDict node \<in> set nodes \<longrightarrow> node_conforms snippets node))"
    by (auto simp: nodes_of_def dget_def split: option.splits pyval.splits)
  ultimately show ?thesis
    unfolding nodes no_secret_matches no_secrets_iff map_of_eq_None_iff workflow_conforms_def missing_error_eq contains_iff_sublist text_entry_eq
    by blast
qed

lemma iter_workflows_iff:
  "w \<in> snd ` set (iter_workflows v) \<longleftrightarrow> v = PDict w \<or> (\<exists>vs. v = PList vs \<and> PDict w \<in> set vs)"
proof (cases v)
  case (PList vs)
  have one: "snd ` set (case x of PDict d \<Rightarrow> [(l, d)] | _ \<Rightarrow> []) = {d. x = PDict d}" for x and l :: string
    by (cases x) auto
  have "snd ` set (iter_workflows v) = (\<Union>e \<in> set (number_from 0 vs). {d. snd e = PDict d})"
    unfolding iter_workflows_def PList pyval.case set_concat set_map image_UN image_image
    by (intro SUP_cong refl) (simp only: split_beta one)
  then have "w \<in> snd ` set (iter_workflows v) \<longleftrightarrow> (\<exists>e \<in> set (number_from 0 vs). snd e = PDict w)" by auto
  also have "\<dots> \<longleftrightarrow> PDict w \<in> snd ` set (number_from 0 vs)" unfolding image_iff by metis
  finally show ?thesis using PList by (simp add: set_number_from)
qed (auto simp: iter_workflows_def)

lemma lint_document_empty: "lint_document snippets dir path v = Inr [] \<longleftrightarrow> document_conforms snippets v"
proof -
  have "lint_document snippets dir path v = Inr [] \<longleftrightarrow>
      (\<exists>rs. rmap (\<lambda>(sfx, w). lint_workflow snippets dir (path @ sfx) w) (iter_workflows v) = Inr rs \<and> concat rs = [])
      \<and> iter_workflows v \<noteq> []"
    by (cases "rmap (\<lambda>(sfx, w). lint_workflow snippets dir (path @ sfx) w) (iter_workflows v)")
      (auto simp: lint_document_def Let_def)
  also have "\<dots> \<longleftrightarrow> (\<forall>w \<in> snd ` set (iter_workflows v). workflow_conforms snippets w) \<and> snd ` set (iter_workflows v) \<noteq> {}"
    unfolding rmap_all_empty by (auto simp: lint_workflow_empty split_beta)
  also have "\<dots> \<longleftrightarrow> document_conforms snippets v"
  proof -
    have ws: "snd ` set (iter_workflows v) = {w. v = PDict w \<or> (\<exists>vs. v = PList vs \<and> PDict w \<in> set vs)}"
      using iter_workflows_iff by blast
    show ?thesis
    proof (cases v)
      case (PList vs)
      then have "snd ` set (iter_workflows v) = {w. PDict w \<in> set vs}" using ws by simp
      then show ?thesis by (simp add: PList document_conforms_def conj_commute)
    qed (use ws in \<open>simp_all add: document_conforms_def\<close>)
  qed
  finally show ?thesis .
qed

definition file_conforms :: "(string \<Rightarrow> string) \<Rightarrow> snippet_dir \<Rightarrow> text_files \<Rightarrow> path \<Rightarrow> bool" where
  "file_conforms fr snippets files p \<longleftrightarrow>
     (\<exists>s v. read_text files p = Inr s \<and> json_loads fr s = Inr v \<and> document_conforms snippets v)"

lemma lint_all_Some0:
  "fst (lint_all fr snippets dir files ps failed) = Some 0 \<longleftrightarrow> failed = 0 \<and> (\<forall>p \<in> set ps. file_conforms fr snippets files p)"
proof (induction ps arbitrary: failed)
  case (Cons p ps)
  show ?case
  proof (cases "read_text files p")
    case (Inl e)
    then show ?thesis using Cons by (auto simp: file_conforms_def Let_def split_beta)
  next
    case (Inr s)
    show ?thesis
    proof (cases "json_loads fr s")
      case (Inl e)
      then show ?thesis using Inr Cons by (auto simp: file_conforms_def Let_def split_beta)
    next
      case v: (Inr v)
      have "file_conforms fr snippets files p \<longleftrightarrow> lint_document snippets dir (as_posix p) v = Inr []"
        using Inr v by (simp add: file_conforms_def lint_document_empty)
      then show ?thesis
        using Inr v Cons by (cases "lint_document snippets dir (as_posix p) v") (auto simp: Let_def split_beta)
    qed
  qed
qed simp

text \<open>
  C39: Run on a non-empty list of files, the linter exits with code 0 exactly when every target is a readable file with JSON that is a workflow or a list
  with at least one, each without pinned data, with an error workflow unless its name marks it as an error
  handler, with at most 40 nodes, no default node names, a timeout on every HTTP node (a positive number, a text that
  is an expression, no number or a positive one, a list or an object), snippet bodies equal
  to their files, no literal address in the parameters of a node other than a settings lookup (the exemption of
  expressions in the code adds nothing), and no secret in any string.
\<close>

theorem lint_exit_zero_iff:
  assumes "ps \<noteq> []"
  shows "fst (lint_main fr tree repo snippets dir files ps None) = Some 0 \<longleftrightarrow> (\<forall>p \<in> set ps. file_conforms fr snippets files p)"
  using assms by (simp add: lint_main_def lint_all_Some0)

section \<open>A concrete file\<close>

definition demo_conforming :: pyval where
  "demo_conforming =
     PDict [(''name'', PStr ''a''),
            (''nodes'', PList [PDict [(''name'', PStr ''b''), (''parameters'', PDict [(''options'', PDict [(''timeout'', PInt 5)])]),
                                      (''type'', PStr ''n8n-nodes-base.httpRequest'')]]),
            (''settings'', PDict [(''errorWorkflow'', PStr ''e'')])]"

lemma demo_conforming_facts:
  "canon demo_conforming = demo_conforming" "json_ok fr demo_conforming"
  "set (collect_strings demo_conforming) = {''a'', ''b'', ''e'', ''n8n-nodes-base.httpRequest''}"
  by (auto simp: demo_conforming_def)

lemma conforming_no_secrets: "\<forall>s \<in> set (collect_strings demo_conforming). \<not> is_secret s"
  unfolding demo_conforming_facts by (auto intro!: not_secretI simp: telltale_def)

lemma demo_document_conforms: "document_conforms Map.empty demo_conforming"
proof -
  have "\<not> re_fullmatch DEFAULT_NODE_NAME_RE ''b''" by (simp add: re_fullmatch_def DEFAULT_NODE_NAME_RE_def)
  moreover have "\<not> re_search SETTINGS_LOOKUP_NAME_RE ''b''"
    by (rule no_search [of "\<lambda>c. lower_char c = CHR ''t''"]) (auto simp: SETTINGS_LOOKUP_NAME_RE_def ignoring_case_def lower_char_def is_upper_az_def)
  moreover have "find_secret_matches demo_conforming = []" using conforming_no_secrets by (simp add: no_secret_matches)
  ultimately have "lint_document Map.empty [] [] demo_conforming = Inr []"
    by (simp add: lint_document_def iter_workflows_def lint_workflow_def lint_node_def demo_conforming_def missing_error_def nodes_of_def
        dget_def name_of_def type_of_def py_or_def HTTP_REQUEST_TYPES_def CODE_TYPES_def timeout_is_set_def http_timeout_def
        params_of_def unset_def is_settings_lookup_node_def suffix_to_prefix MAX_NODES_def Let_def)
  then show ?thesis by (simp add: lint_document_empty)
qed

lemma demo_file_conforms: "file_conforms demo_fr Map.empty (demo_files (dumps_stable demo_conforming)) [''w'', ''b.json'']"
proof -
  have "CHR 0x0D \<notin> set (dumps_stable demo_conforming)"
    using dumps_no_cr [OF demo_conforming_facts(2), of 0] by (simp add: dumps_stable_def)
  then have "read_text (demo_files (dumps_stable demo_conforming)) [''w'', ''b.json''] = Inr (dumps_stable demo_conforming)"
    by (simp add: demo_files_def read_written)
  moreover have "json_loads demo_fr (dumps_stable demo_conforming) = Inr demo_conforming"
    using loads_indent [OF demo_conforming_facts(2)] by (simp add: dumps_stable_def demo_conforming_facts(1))
  ultimately show ?thesis using demo_document_conforms by (auto simp: file_conforms_def)
qed

theorem lint_exit_zero_iff_witness:
  "fst (lint_main demo_fr [] [] Map.empty ''d'' (demo_files (dumps_stable demo_conforming)) [[''w'', ''b.json'']] None) = Some 0"
  using lint_exit_zero_iff [of "[[''w'', ''b.json'']]" demo_fr "[]" "[]" Map.empty "''d''" "demo_files (dumps_stable demo_conforming)"]
    demo_file_conforms by simp

end
