(* ===== verification/Unit_Tests.thy ===== *)
theory Unit_Tests
  imports Py_Files
begin

text \<open>
  \<open>scripts/run_unit_tests.py\<close>: the test commands of the repository, one after the other.  The processes and the machine
  they run on are a parameter, the record \<open>host\<close> over a type of machine states: what the file system lists, what
  \<open>shutil.which\<close> finds, the environment, and what running a command does, which may raise and may change anything.  The
  script's own state is the machine, the lines printed and the commands that were run with their return codes.
\<close>

section \<open>Commands and the machine\<close>

record command =
  argv :: "string list"
  cwd :: path
  search_path :: "string option"

record 'w host =
  listing_of :: "'w \<Rightarrow> listing"
  which :: "'w \<Rightarrow> string \<Rightarrow> string option"
  environ_path :: "'w \<Rightarrow> string option"
  run_process :: "command \<Rightarrow> 'w \<Rightarrow> int res \<times> 'w"

record 'w session =
  machine :: 'w
  printed :: "string list"
  ran :: "(command \<times> int) list"

type_synonym ('w, 'a) script = "'w session \<Rightarrow> 'a res \<times> 'w session"

definition ret :: "'a \<Rightarrow> ('w, 'a) script" where
  "ret x = (\<lambda>s. (Inr x, s))"

definition bind :: "('w, 'a) script \<Rightarrow> ('a \<Rightarrow> ('w, 'b) script) \<Rightarrow> ('w, 'b) script" where
  "bind m f = (\<lambda>s. case m s of (Inl e, s') \<Rightarrow> (Inl e, s') | (Inr x, s') \<Rightarrow> f x s')"

definition say :: "string \<Rightarrow> ('w, unit) script" where
  "say line = (\<lambda>s. (Inr (), s\<lparr>printed := printed s @ [line]\<rparr>))"

definition ask :: "('w \<Rightarrow> 'a) \<Rightarrow> ('w, 'a) script" where
  "ask f = (\<lambda>s. (Inr (f (machine s)), s))"

text \<open>\<open>subprocess.run(..., check=False)\<close>: a return code, also of a command that failed.\<close>

definition subprocess_run :: "'w host \<Rightarrow> command \<Rightarrow> ('w, int) script" where
  "subprocess_run host cmd = (\<lambda>s.
     case run_process host cmd (machine s) of
       (Inl e, w) \<Rightarrow> (Inl e, s\<lparr>machine := w\<rparr>)
     | (Inr c, w) \<Rightarrow> (Inr c, s\<lparr>machine := w, ran := ran s @ [(cmd, c)]\<rparr>))"

section \<open>The script\<close>

definition PYTEST_DIRS :: "path \<Rightarrow> path list" where
  "PYTEST_DIRS repo =
     [repo @ [''scripts'', ''tests''],
      repo @ [''platform'', ''libs'', ''python''],
      repo @ [''platform'', ''db'', ''tests''],
      repo @ [''platform'', ''services'', ''mock-llm''],
      repo @ [''platform'', ''services'', ''review-ui''],
      repo @ [''projects'', ''p01-lead-qualification'', ''backend''],
      repo @ [''projects'', ''p02-document-intelligence'', ''backend'']]"

definition GO_DIRS :: "path \<Rightarrow> path list" where
  "GO_DIRS repo =
     [repo @ [''platform'', ''services'', ''flaky-api''],
      repo @ [''projects'', ''p03-webhook-gateway'']]"

definition run_in :: "'w host \<Rightarrow> string list \<Rightarrow> path \<Rightarrow> ('w, int) script" where
  "run_in host cmd d =
     bind (say (''+ '' @ join '' '' cmd @ ''  (cwd='' @ as_posix d @ '')'')) (\<lambda>_.
       subprocess_run host \<lparr>argv = cmd, cwd = d, search_path = None\<rparr>)"

text \<open>On POSIX the Windows path is one file name in the working directory.\<close>

definition windows_go :: string where
  "windows_go =
     ''C:'' @ [CHR 0x5C] @ ''Program Files'' @ [CHR 0x5C] @ ''Go'' @ [CHR 0x5C] @ ''bin'' @ [CHR 0x5C] @ ''go.exe''"

definition go_bin :: "'w host \<Rightarrow> 'w \<Rightarrow> string option" where
  "go_bin host w =
     (case which host w ''go'' of
        Some (c # cs) \<Rightarrow> Some (c # cs)
      | _ \<Rightarrow> if listed_file (listing_of host w) [windows_go] then Some windows_go else None)"

text \<open>\<open>str(Path(s).parent)\<close>.\<close>

definition parent_str :: "string \<Rightarrow> string" where
  "parent_str s =
     (let up = join ''/'' (butlast (path_parts s))
      in if double_slash s then ''//'' @ up else if prefix ''/'' s then ''/'' @ up
         else if up = [] then ''.'' else up)"

text \<open>A loop that keeps the last return code that is not 0.\<close>

fun for_each :: "'a list \<Rightarrow> ('a \<Rightarrow> ('w, int) script) \<Rightarrow> int \<Rightarrow> ('w, int) script" where
  "for_each [] body status = ret status"
| "for_each (x # xs) body status =
     bind (body x) (\<lambda>c. for_each xs body (if c \<noteq> 0 then c else status))"

definition has_tests :: "listing \<Rightarrow> path \<Rightarrow> bool" where
  "has_tests tree d \<longleftrightarrow> glob tree d [''test_*.py''] @ rglob tree d ''test_*.py'' \<noteq> []"

text \<open>The body of the first loop; a directory that is passed over leaves the status as it is.\<close>

definition pytest_in :: "'w host \<Rightarrow> string \<Rightarrow> path \<Rightarrow> ('w, int) script" where
  "pytest_in host python d =
     bind (ask (listing_of host)) (\<lambda>tree.
       if \<not> listed_dir tree d then bind (say (''skip missing '' @ as_posix d)) (\<lambda>_. ret 0)
       else if last d = ''tests'' \<and> \<not> has_tests tree d then ret 0
       else run_in host [python, ''-m'', ''pytest'', ''-q''] d)"

definition go_in :: "'w host \<Rightarrow> string \<Rightarrow> string \<Rightarrow> path \<Rightarrow> ('w, int) script" where
  "go_in host go gopath d =
     bind (ask (listing_of host)) (\<lambda>tree.
       if \<not> listed_file tree (d @ [''go.mod'']) then ret 0
       else bind (say (''+ '' @ go @ '' test -race ./...  (cwd='' @ as_posix d @ '')'')) (\<lambda>_.
              subprocess_run host \<lparr>argv = [go, ''test'', ''-race'', ''./...''], cwd = d, search_path = Some gopath\<rparr>))"

definition snippet_tests :: "'w host \<Rightarrow> path \<Rightarrow> int \<Rightarrow> ('w, int) script" where
  "snippet_tests host snippets status =
     bind (ask (listing_of host)) (\<lambda>tree.
       if \<not> listed_file tree (snippets @ [''package.json'']) then ret status
       else bind (ask (\<lambda>w. which host w ''npm'')) (\<lambda>npm.
         case npm of
           None \<Rightarrow> bind (say ''skip snippet tests: npm not on PATH'') (\<lambda>_. ret status)
         | Some npm \<Rightarrow>
             bind (if \<not> listed_dir tree (snippets @ [''node_modules'']) then run_in host [npm, ''ci''] snippets else ret 0) (\<lambda>install.
               let status1 = (if install \<noteq> 0 then install else status)
               in bind (run_in host [npm, ''test''] snippets) (\<lambda>c. ret (if c \<noteq> 0 then c else status1)))))"

definition run_tests :: "'w host \<Rightarrow> path \<Rightarrow> string \<Rightarrow> ('w, int) script" where
  "run_tests host repo python =
     bind (for_each (PYTEST_DIRS repo) (pytest_in host python) 0) (\<lambda>status1.
     bind (ask (go_bin host)) (\<lambda>go.
     bind (case go of
             None \<Rightarrow> bind (say ''skip Go tests: go not on PATH'') (\<lambda>_. ret status1)
           | Some go \<Rightarrow>
               bind (ask (environ_path host)) (\<lambda>old.
                 let gopath = parent_str go @ '':'' @ (case old of None \<Rightarrow> [] | Some p \<Rightarrow> p)
                 in for_each (GO_DIRS repo) (go_in host go gopath) status1)) (\<lambda>status2.
       snippet_tests host (repo @ [''code-snippets'']) status2)))"

text \<open>\<open>raise SystemExit(main())\<close>: the system keeps the low eight bits.\<close>

definition exit_status :: "int \<Rightarrow> int" where
  "exit_status c = c mod 256"

lemmas script_defs [eval_simps] =
  ret_def bind_def say_def ask_def subprocess_run_def PYTEST_DIRS_def GO_DIRS_def run_in_def windows_go_def go_bin_def
  parent_str_def has_tests_def pytest_in_def go_in_def snippet_tests_def run_tests_def exit_status_def

section \<open>The plan\<close>

text \<open>The commands the documentation promises, computed from the machine at the start.\<close>

definition pytest_wanted :: "listing \<Rightarrow> path \<Rightarrow> bool" where
  "pytest_wanted tree d \<longleftrightarrow> listed_dir tree d \<and> (last d = ''tests'' \<longrightarrow> has_tests tree d)"

definition pytest_command :: "string \<Rightarrow> path \<Rightarrow> command" where
  "pytest_command python d = \<lparr>argv = [python, ''-m'', ''pytest'', ''-q''], cwd = d, search_path = None\<rparr>"

definition go_command :: "string \<Rightarrow> string option \<Rightarrow> path \<Rightarrow> command" where
  "go_command go old d =
     \<lparr>argv = [go, ''test'', ''-race'', ''./...''], cwd = d,
      search_path = Some (parent_str go @ '':'' @ (case old of None \<Rightarrow> [] | Some p \<Rightarrow> p))\<rparr>"

definition npm_commands :: "listing \<Rightarrow> string option \<Rightarrow> path \<Rightarrow> command list" where
  "npm_commands tree npm d =
     (case npm of
        None \<Rightarrow> []
      | Some npm \<Rightarrow>
          if \<not> listed_file tree (d @ [''package.json'']) then []
          else (if listed_dir tree (d @ [''node_modules'']) then [] else [\<lparr>argv = [npm, ''ci''], cwd = d, search_path = None\<rparr>])
               @ [\<lparr>argv = [npm, ''test''], cwd = d, search_path = None\<rparr>])"

definition planned :: "'w host \<Rightarrow> path \<Rightarrow> string \<Rightarrow> 'w \<Rightarrow> command list" where
  "planned host repo python w =
     (let tree = listing_of host w
      in map (pytest_command python) (filter (pytest_wanted tree) (PYTEST_DIRS repo))
         @ (case go_bin host w of
              None \<Rightarrow> []
            | Some go \<Rightarrow> map (go_command go (environ_path host w)) (filter (\<lambda>d. listed_file tree (d @ [''go.mod''])) (GO_DIRS repo)))
         @ npm_commands tree (which host w ''npm'') (repo @ [''code-snippets'']))"

text \<open>Two machines look the same to the script.\<close>

definition same_view :: "'w host \<Rightarrow> path \<Rightarrow> 'w \<Rightarrow> 'w \<Rightarrow> bool" where
  "same_view host repo w w' \<longleftrightarrow>
     (\<forall>d \<in> set (PYTEST_DIRS repo). pytest_wanted (listing_of host w) d = pytest_wanted (listing_of host w') d)
     \<and> (\<forall>d \<in> set (GO_DIRS repo). listed_file (listing_of host w) (d @ [''go.mod'']) = listed_file (listing_of host w') (d @ [''go.mod'']))
     \<and> go_bin host w = go_bin host w' \<and> environ_path host w = environ_path host w'
     \<and> npm_commands (listing_of host w) (which host w ''npm'') (repo @ [''code-snippets''])
        = npm_commands (listing_of host w') (which host w' ''npm'') (repo @ [''code-snippets''])"

text \<open>The machines that running commands of \<open>C\<close> leads to.\<close>

inductive met :: "'w host \<Rightarrow> command set \<Rightarrow> 'w \<Rightarrow> 'w \<Rightarrow> bool" for host C w0 where
  start: "met host C w0 w0"
| run: "met host C w0 w \<Longrightarrow> cmd \<in> C \<Longrightarrow> run_process host cmd w = (r, w') \<Longrightarrow> met host C w0 w'"

text \<open>
  What is relied on of the commands \<open>C\<close>, on the machines they lead to: each starts and ends with a return code, which is the
  exit status or the negated number of a signal; and those outside \<open>code-snippets\<close> leave the view of the script alone, which
  \<open>npm ci\<close> in \<open>code-snippets\<close> does not.
\<close>

definition processes_return :: "'w host \<Rightarrow> command set \<Rightarrow> 'w \<Rightarrow> bool" where
  "processes_return host C w0 \<longleftrightarrow>
     (\<forall>cmd \<in> C. \<forall>w. met host C w0 w \<longrightarrow> (\<exists>c w'. run_process host cmd w = (Inr c, w') \<and> -256 < c \<and> c < 256))"

definition tests_keep_view :: "'w host \<Rightarrow> path \<Rightarrow> command set \<Rightarrow> 'w \<Rightarrow> bool" where
  "tests_keep_view host repo C w0 \<longleftrightarrow>
     (\<forall>cmd \<in> C. \<forall>w. met host C w0 w \<and> cwd cmd \<noteq> repo @ [''code-snippets'']
        \<longrightarrow> same_view host repo w (snd (run_process host cmd w)))"

definition last_failure :: "int list \<Rightarrow> int \<Rightarrow> int" where
  "last_failure codes status = fold (\<lambda>c st. if c \<noteq> 0 then c else st) codes status"

lemma last_failure_simps [simp]:
  "last_failure [] st = st" "last_failure (c # cs) st = last_failure cs (if c \<noteq> 0 then c else st)"
  "last_failure (cs @ ds) st = last_failure ds (last_failure cs st)"
  by (simp_all add: last_failure_def)

lemma last_failure_start: "(if last_failure cs 0 \<noteq> 0 then last_failure cs 0 else st) = last_failure cs st"
proof (induction cs arbitrary: st)
  case (Cons c cs)
  show ?case using Cons [of c] Cons [of st] by (cases "c = 0"; cases "last_failure cs 0 = 0") auto
qed simp

lemma last_failure_zero: "last_failure cs st = 0 \<longleftrightarrow> st = 0 \<and> (\<forall>c \<in> set cs. c = 0)"
  by (induction cs arbitrary: st) auto

lemma last_failure_range: "\<forall>c \<in> set cs. -256 < c \<and> c < 256 \<Longrightarrow> -256 < st \<and> st < 256 \<Longrightarrow> -256 < last_failure cs st \<and> last_failure cs st < 256"
  by (induction cs arbitrary: st) auto

lemma exit_status_zero: "-256 < c \<Longrightarrow> c < 256 \<Longrightarrow> exit_status c = 0 \<longleftrightarrow> c = 0"
  unfolding exit_status_def by presburger

text \<open>
  A part of the script that, started on a machine with the view of \<open>w0\<close>, runs the given commands and folds their return codes into
  the status.
\<close>

definition executes :: "('w session \<Rightarrow> bool) \<Rightarrow> ('w, int) script \<Rightarrow> int \<Rightarrow> command list \<Rightarrow> ('w session \<Rightarrow> bool) \<Rightarrow> bool" where
  "executes pre m st cmds post \<longleftrightarrow>
     (\<forall>s. pre s \<longrightarrow>
       (\<exists>s' codes. m s = (Inr (last_failure codes st), s') \<and> post s'
          \<and> ran s' = ran s @ zip cmds codes \<and> length codes = length cmds \<and> (\<forall>c \<in> set codes. -256 < c \<and> c < 256)))"

lemma executesE:
  assumes "executes pre m st cmds post" "pre s"
  obtains s' codes where "m s = (Inr (last_failure codes st), s')" "post s'" "ran s' = ran s @ zip cmds codes"
    "length codes = length cmds" "\<forall>c \<in> set codes. -256 < c \<and> c < 256"
  using assms unfolding executes_def by blast

lemma executesI:
  assumes "\<And>s. pre s \<Longrightarrow> \<exists>s' codes. m s = (Inr (last_failure codes st), s') \<and> post s'
    \<and> ran s' = ran s @ zip cmds codes \<and> length codes = length cmds \<and> (\<forall>c \<in> set codes. -256 < c \<and> c < 256)"
  shows "executes pre m st cmds post"
  using assms by (simp add: executes_def)

lemma executes_ret: "executes pre (ret st) st [] pre"
  by (auto simp: executes_def ret_def)

lemma executes_say: "executes pre m st cmds post \<Longrightarrow> (\<And>s l. pre (s\<lparr>printed := l\<rparr>) = pre s) \<Longrightarrow> executes pre (bind (say line) (\<lambda>_. m)) st cmds post"
  by (fastforce simp: executes_def bind_def say_def)

lemma executes_bind:
  assumes "executes pre m st cmds mid" "\<And>c. executes mid (f c) c cmds' post"
  shows "executes pre (bind m f) st (cmds @ cmds') post"
proof (rule executesI)
  fix s assume "pre s"
  with assms(1) obtain s1 codes where one: "m s = (Inr (last_failure codes st), s1)" "mid s1" "ran s1 = ran s @ zip cmds codes"
      "length codes = length cmds" "\<forall>c \<in> set codes. -256 < c \<and> c < 256"
    by (rule executesE)
  from assms(2) one(2) obtain s2 codes' where two: "f (last_failure codes st) s1 = (Inr (last_failure codes' (last_failure codes st)), s2)"
      "post s2" "ran s2 = ran s1 @ zip cmds' codes'" "length codes' = length cmds'" "\<forall>c \<in> set codes'. -256 < c \<and> c < 256"
    by (rule executesE)
  show "\<exists>s' codes. bind m f s = (Inr (last_failure codes st), s') \<and> post s' \<and> ran s' = ran s @ zip (cmds @ cmds') codes
      \<and> length codes = length (cmds @ cmds') \<and> (\<forall>c \<in> set codes. -256 < c \<and> c < 256)"
    using one two by (intro exI [of _ s2] exI [of _ "codes @ codes'"]) (auto simp: bind_def)
qed

lemma executes_status:
  assumes "executes pre m 0 cmds post"
  shows "executes pre (bind m (\<lambda>c. ret (if c \<noteq> 0 then c else st))) st cmds post"
proof (rule executesI)
  fix s assume "pre s"
  with assms obtain s1 codes where "m s = (Inr (last_failure codes 0), s1)" "post s1" "ran s1 = ran s @ zip cmds codes"
      "length codes = length cmds" "\<forall>c \<in> set codes. -256 < c \<and> c < 256"
    by (rule executesE)
  then show "\<exists>s' codes. bind m (\<lambda>c. ret (if c \<noteq> 0 then c else st)) s = (Inr (last_failure codes st), s') \<and> post s'
      \<and> ran s' = ran s @ zip cmds codes \<and> length codes = length cmds \<and> (\<forall>c \<in> set codes. -256 < c \<and> c < 256)"
    using last_failure_start [of codes st] by (intro exI [of _ s1] exI [of _ codes]) (simp add: bind_def ret_def)
qed

lemma executes_for_each:
  assumes "\<And>x. x \<in> set xs \<Longrightarrow> executes V (body x) 0 (cmds x) V"
  shows "executes V (for_each xs body st) st (concat (map cmds xs)) V"
  using assms
proof (induction xs arbitrary: st)
  case (Cons x xs)
  have "executes V (bind (body x) (\<lambda>c. ret (if c \<noteq> 0 then c else st))) st (cmds x) V"
    using Cons.prems by (intro executes_status) simp
  then have "executes V (bind (bind (body x) (\<lambda>c. ret (if c \<noteq> 0 then c else st))) (for_each xs body)) st (cmds x @ concat (map cmds xs)) V"
    using Cons by (intro executes_bind) auto
  moreover have "bind (bind (body x) (\<lambda>c. ret (if c \<noteq> 0 then c else st))) (for_each xs body) = for_each (x # xs) body st"
    by (auto simp: bind_def ret_def fun_eq_iff split: prod.splits sum.splits)
  ultimately show ?case by simp
qed (simp add: executes_ret)

lemma concat_wanted: "concat (map (\<lambda>d. if P d then [f d] else []) xs) = map f (filter P xs)"
  by (induction xs) auto

text \<open>The machine is one the commands lead to, and still has the view of \<open>w0\<close>.\<close>

definition arrived :: "'w host \<Rightarrow> command set \<Rightarrow> 'w \<Rightarrow> 'w session \<Rightarrow> bool" where
  "arrived host C w0 s \<longleftrightarrow> met host C w0 (machine s)"

definition sees :: "'w host \<Rightarrow> path \<Rightarrow> command set \<Rightarrow> 'w \<Rightarrow> 'w session \<Rightarrow> bool" where
  "sees host repo C w0 s \<longleftrightarrow> same_view host repo w0 (machine s) \<and> arrived host C w0 s"

lemma executes_process:
  assumes "processes_return host C w0" "cmd \<in> C" "\<And>s. pre s \<Longrightarrow> arrived host C w0 s"
    and "\<And>s c w. pre s \<Longrightarrow> run_process host cmd (machine s) = (Inr c, w) \<Longrightarrow> met host C w0 w
      \<Longrightarrow> post (s\<lparr>machine := w, ran := ran s @ [(cmd, c)]\<rparr>)"
  shows "executes pre (subprocess_run host cmd) 0 [cmd] post"
proof (rule executesI)
  fix s assume pre: "pre s"
  then have met: "met host C w0 (machine s)" using assms(3) by (simp add: arrived_def)
  then obtain c w where c: "run_process host cmd (machine s) = (Inr c, w)" "-256 < c" "c < 256"
    using assms(1,2) unfolding processes_return_def by blast
  then show "\<exists>s' codes. subprocess_run host cmd s = (Inr (last_failure codes 0), s') \<and> post s' \<and> ran s' = ran s @ zip [cmd] codes
      \<and> length codes = length [cmd] \<and> (\<forall>c \<in> set codes. -256 < c \<and> c < 256)"
    using assms(4) [OF pre c(1) met.run [OF met assms(2) c(1)]]
    by (intro exI [of _ "s\<lparr>machine := w, ran := ran s @ [(cmd, c)]\<rparr>"] exI [of _ "[c]"]) (simp add: subprocess_run_def)
qed

lemma same_view_trans: "same_view host repo a b \<Longrightarrow> same_view host repo b c \<Longrightarrow> same_view host repo a c"
  unfolding same_view_def by simp

lemma sees_process:
  assumes "processes_return host C w0" "tests_keep_view host repo C w0" "cmd \<in> C" "cwd cmd \<noteq> repo @ [''code-snippets'']"
  shows "executes (sees host repo C w0) (subprocess_run host cmd) 0 [cmd] (sees host repo C w0)"
proof (rule executes_process [OF assms(1,3)])
  fix s c w
  assume s: "sees host repo C w0 s" "run_process host cmd (machine s) = (Inr c, w)" and w: "met host C w0 w"
  then have "same_view host repo (machine s) w"
    using assms(2-4) unfolding tests_keep_view_def sees_def arrived_def by (metis snd_conv)
  then show "sees host repo C w0 (s\<lparr>machine := w, ran := ran s @ [(cmd, c)]\<rparr>)"
    using s(1) w same_view_trans by (auto simp: sees_def arrived_def)
qed (simp add: sees_def)

lemma sees_ask:
  assumes "\<And>w. same_view host repo w0 w \<Longrightarrow> executes (sees host repo C w0) (f (g w)) st cmds post"
  shows "executes (sees host repo C w0) (bind (ask g) f) st cmds post"
  using assms unfolding executes_def bind_def ask_def sees_def by simp

lemma sees_say:
  "executes (sees host repo C w0) m st cmds post \<Longrightarrow> executes (sees host repo C w0) (bind (say line) (\<lambda>_. m)) st cmds post"
  by (rule executes_say) (simp_all add: sees_def arrived_def)

lemma code_snippets_apart: "d \<in> set (PYTEST_DIRS repo) \<union> set (GO_DIRS repo) \<Longrightarrow> d \<noteq> repo @ [''code-snippets'']"
  by (auto simp: PYTEST_DIRS_def GO_DIRS_def)

lemma pytest_executes:
  assumes "processes_return host C w0" "tests_keep_view host repo C w0" "d \<in> set (PYTEST_DIRS repo)"
    and planned: "pytest_wanted (listing_of host w0) d \<Longrightarrow> pytest_command python d \<in> C"
  shows "executes (sees host repo C w0) (pytest_in host python d) 0
    (if pytest_wanted (listing_of host w0) d then [pytest_command python d] else []) (sees host repo C w0)"
  unfolding pytest_in_def
proof (rule sees_ask)
  fix w assume "same_view host repo w0 w"
  then have same: "pytest_wanted (listing_of host w0) d = pytest_wanted (listing_of host w) d"
    using assms(3) by (simp add: same_view_def)
  have "executes (sees host repo C w0) (run_in host [python, ''-m'', ''pytest'', ''-q''] d) 0 [pytest_command python d] (sees host repo C w0)"
    if "pytest_wanted (listing_of host w) d"
    using planned code_snippets_apart assms(3) that
    unfolding run_in_def pytest_command_def same by (intro sees_say sees_process assms(1,2)) auto
  then show "executes (sees host repo C w0)
      (if \<not> listed_dir (listing_of host w) d then bind (say (''skip missing '' @ as_posix d)) (\<lambda>_. ret 0)
       else if last d = ''tests'' \<and> \<not> has_tests (listing_of host w) d then ret 0
       else run_in host [python, ''-m'', ''pytest'', ''-q''] d) 0
      (if pytest_wanted (listing_of host w0) d then [pytest_command python d] else []) (sees host repo C w0)"
    unfolding same by (auto simp: pytest_wanted_def intro: sees_say executes_ret)
qed

lemma go_executes:
  assumes "processes_return host C w0" "tests_keep_view host repo C w0" "d \<in> set (GO_DIRS repo)"
    and planned: "listed_file (listing_of host w0) (d @ [''go.mod'']) \<Longrightarrow> go_command go old d \<in> C"
  shows "executes (sees host repo C w0) (go_in host go (parent_str go @ '':'' @ (case old of None \<Rightarrow> [] | Some p \<Rightarrow> p)) d) 0
    (if listed_file (listing_of host w0) (d @ [''go.mod'']) then [go_command go old d] else []) (sees host repo C w0)"
  unfolding go_in_def
proof (rule sees_ask)
  fix w assume "same_view host repo w0 w"
  then have same: "listed_file (listing_of host w0) (d @ [''go.mod'']) = listed_file (listing_of host w) (d @ [''go.mod''])"
    using assms(3) by (simp add: same_view_def)
  let ?p = "parent_str go @ '':'' @ (case old of None \<Rightarrow> [] | Some p \<Rightarrow> p)"
  let ?run = "subprocess_run host \<lparr>argv = [go, ''test'', ''-race'', ''./...''], cwd = d, search_path = Some ?p\<rparr>"
  have "executes (sees host repo C w0) ?run 0 [go_command go old d] (sees host repo C w0)"
    if "listed_file (listing_of host w) (d @ [''go.mod''])"
    using planned code_snippets_apart assms(3) that
    unfolding go_command_def same by (intro sees_process assms(1,2)) auto
  then show "executes (sees host repo C w0)
      (if \<not> listed_file (listing_of host w) (d @ [''go.mod'']) then ret 0
       else bind (say (''+ '' @ go @ '' test -race ./...  (cwd='' @ as_posix d @ '')'')) (\<lambda>_. ?run)) 0
      (if listed_file (listing_of host w0) (d @ [''go.mod'']) then [go_command go old d] else []) (sees host repo C w0)"
    unfolding same by (auto intro: sees_say executes_ret)
qed

text \<open>The last part need not keep the view.\<close>

lemma bind_assoc: "bind (bind m f) g = bind m (\<lambda>x. bind (f x) g)"
  by (auto simp: bind_def fun_eq_iff split: prod.splits sum.splits)

lemma bind_ret: "bind (ret x) f = f x"
  by (simp add: bind_def ret_def)

lemma executes_at: "(\<And>s0. pre s0 \<Longrightarrow> executes (\<lambda>s. s = s0) m st cmds post) \<Longrightarrow> executes pre m st cmds post"
  unfolding executes_def by blast

lemma ask_at: "executes (\<lambda>s. s = s0) (f (g (machine s0))) st cmds post \<Longrightarrow> executes (\<lambda>s. s = s0) (bind (ask g) f) st cmds post"
  by (simp add: executes_def bind_def ask_def)

lemma run_in_executes:
  assumes "processes_return host C w0" "\<lparr>argv = cmd, cwd = d, search_path = None\<rparr> \<in> C"
  shows "executes (arrived host C w0) (run_in host cmd d) 0 [\<lparr>argv = cmd, cwd = d, search_path = None\<rparr>] (arrived host C w0)"
  unfolding run_in_def
  by (intro executes_say executes_process [OF assms]) (simp_all add: arrived_def)

lemma npm_executes:
  assumes "processes_return host C w0"
    and planned: "set ((if installed then [] else [\<lparr>argv = [npm, ''ci''], cwd = d, search_path = None\<rparr>])
      @ [\<lparr>argv = [npm, ''test''], cwd = d, search_path = None\<rparr>]) \<subseteq> C"
  shows "executes (arrived host C w0)
    (bind (if \<not> installed then run_in host [npm, ''ci''] d else ret 0) (\<lambda>install.
       let status1 = (if install \<noteq> 0 then install else st)
       in bind (run_in host [npm, ''test''] d) (\<lambda>c. ret (if c \<noteq> 0 then c else status1)))) st
    ((if installed then [] else [\<lparr>argv = [npm, ''ci''], cwd = d, search_path = None\<rparr>])
     @ [\<lparr>argv = [npm, ''test''], cwd = d, search_path = None\<rparr>]) (arrived host C w0)"
proof -
  have "executes (arrived host C w0) (if \<not> installed then run_in host [npm, ''ci''] d else ret 0) 0
      (if installed then [] else [\<lparr>argv = [npm, ''ci''], cwd = d, search_path = None\<rparr>]) (arrived host C w0)"
    using run_in_executes [OF assms(1)] executes_ret planned by auto
  moreover have "executes (arrived host C w0) (run_in host [npm, ''test''] d) 0
      [\<lparr>argv = [npm, ''test''], cwd = d, search_path = None\<rparr>] (arrived host C w0)"
    using run_in_executes [OF assms(1)] planned by auto
  ultimately have "executes (arrived host C w0) (bind (bind (if \<not> installed then run_in host [npm, ''ci''] d else ret 0) (\<lambda>c. ret (if c \<noteq> 0 then c else st)))
      (\<lambda>st1. bind (run_in host [npm, ''test''] d) (\<lambda>c. ret (if c \<noteq> 0 then c else st1)))) st
      ((if installed then [] else [\<lparr>argv = [npm, ''ci''], cwd = d, search_path = None\<rparr>])
       @ [\<lparr>argv = [npm, ''test''], cwd = d, search_path = None\<rparr>]) (arrived host C w0)"
    by (intro executes_bind executes_status)
  then show ?thesis by (simp only: bind_assoc bind_ret Let_def)
qed

lemma executes_from: "executes pre m st cmds post \<Longrightarrow> pre s0 \<Longrightarrow> executes (\<lambda>s. s = s0) m st cmds post"
  unfolding executes_def by blast

lemma snippet_executes:
  assumes "processes_return host C w0"
    and planned: "set (npm_commands (listing_of host w0) (which host w0 ''npm'') (repo @ [''code-snippets''])) \<subseteq> C"
  shows "executes (sees host repo C w0) (snippet_tests host (repo @ [''code-snippets'']) st) st
    (npm_commands (listing_of host w0) (which host w0 ''npm'') (repo @ [''code-snippets''])) (arrived host C w0)"
proof (rule executes_at)
  fix s0
  assume "sees host repo C w0 s0"
  then have same: "npm_commands (listing_of host w0) (which host w0 ''npm'') (repo @ [''code-snippets''])
      = npm_commands (listing_of host (machine s0)) (which host (machine s0) ''npm'') (repo @ [''code-snippets''])"
    and s0: "arrived host C w0 s0"
    by (simp_all add: sees_def same_view_def)
  let ?tree = "listing_of host (machine s0)" and ?d = "repo @ [''code-snippets'']"
  have idle: "executes (\<lambda>s. s = s0) (ret st) st [] (arrived host C w0)"
    using s0 by (simp add: executes_def ret_def)
  show "executes (\<lambda>s. s = s0) (snippet_tests host ?d st) st
      (npm_commands (listing_of host w0) (which host w0 ''npm'') ?d) (arrived host C w0)"
  proof (cases "listed_file ?tree (?d @ [''package.json''])")
    case False
    then have "npm_commands ?tree (which host (machine s0) ''npm'') ?d = []" by (simp add: npm_commands_def split: option.splits)
    then show ?thesis unfolding same snippet_tests_def using False by (auto intro!: ask_at idle)
  next
    case True
    show ?thesis
    proof (cases "which host (machine s0) ''npm''")
      case None
      then have "npm_commands ?tree (which host (machine s0) ''npm'') ?d = []" by (simp add: npm_commands_def)
      moreover have "executes (\<lambda>s. s = s0) (bind (say ''skip snippet tests: npm not on PATH'') (\<lambda>_. ret st)) st [] (arrived host C w0)"
        using s0 by (simp add: executes_def bind_def say_def ret_def arrived_def)
      ultimately show ?thesis unfolding same snippet_tests_def using True None by (auto intro!: ask_at)
    next
      case (Some npm)
      note run = executes_from [OF npm_executes [OF assms(1), of "listed_dir ?tree (?d @ [''node_modules''])" npm ?d] s0]
      show ?thesis
        using planned unfolding same snippet_tests_def
        by (intro ask_at) (use True Some run in \<open>simp add: npm_commands_def ask_at\<close>)
    qed
  qed
qed

lemma go_phase_executes:
  assumes "processes_return host C w0" "tests_keep_view host repo C w0"
    and planned: "\<And>go d. go_bin host w0 = Some go \<Longrightarrow> d \<in> set (GO_DIRS repo) \<Longrightarrow> listed_file (listing_of host w0) (d @ [''go.mod''])
      \<Longrightarrow> go_command go (environ_path host w0) d \<in> C"
  shows "executes (sees host repo C w0)
    (bind (ask (go_bin host)) (\<lambda>go.
       case go of
         None \<Rightarrow> bind (say ''skip Go tests: go not on PATH'') (\<lambda>_. ret st)
       | Some go \<Rightarrow>
           bind (ask (environ_path host)) (\<lambda>old.
             let gopath = parent_str go @ '':'' @ (case old of None \<Rightarrow> [] | Some p \<Rightarrow> p)
             in for_each (GO_DIRS repo) (go_in host go gopath) st))) st
    (case go_bin host w0 of
       None \<Rightarrow> []
     | Some go \<Rightarrow> map (go_command go (environ_path host w0))
         (filter (\<lambda>d. listed_file (listing_of host w0) (d @ [''go.mod''])) (GO_DIRS repo)))
    (sees host repo C w0)"
proof (rule sees_ask)
  fix w
  assume "same_view host repo w0 w"
  then have go: "go_bin host w = go_bin host w0" by (simp add: same_view_def)
  show "executes (sees host repo C w0)
      (case go_bin host w of
         None \<Rightarrow> bind (say ''skip Go tests: go not on PATH'') (\<lambda>_. ret st)
       | Some go \<Rightarrow>
           bind (ask (environ_path host)) (\<lambda>old.
             let gopath = parent_str go @ '':'' @ (case old of None \<Rightarrow> [] | Some p \<Rightarrow> p)
             in for_each (GO_DIRS repo) (go_in host go gopath) st)) st
      (case go_bin host w0 of
         None \<Rightarrow> []
       | Some go \<Rightarrow> map (go_command go (environ_path host w0))
           (filter (\<lambda>d. listed_file (listing_of host w0) (d @ [''go.mod''])) (GO_DIRS repo)))
      (sees host repo C w0)"
  proof (cases "go_bin host w0")
    case None
    then show ?thesis unfolding go by (simp add: sees_say executes_ret)
  next
    case (Some g)
    have "executes (sees host repo C w0)
        (bind (ask (environ_path host)) (\<lambda>old.
           for_each (GO_DIRS repo) (go_in host g (parent_str g @ '':'' @ (case old of None \<Rightarrow> [] | Some p \<Rightarrow> p))) st)) st
        (concat (map (\<lambda>d. if listed_file (listing_of host w0) (d @ [''go.mod'']) then [go_command g (environ_path host w0) d] else [])
           (GO_DIRS repo))) (sees host repo C w0)"
    proof (rule sees_ask)
      fix w' assume "same_view host repo w0 w'"
      then have env: "environ_path host w' = environ_path host w0" by (simp add: same_view_def)
      show "executes (sees host repo C w0)
          (for_each (GO_DIRS repo) (go_in host g (parent_str g @ '':'' @ (case environ_path host w' of None \<Rightarrow> [] | Some p \<Rightarrow> p))) st) st
          (concat (map (\<lambda>d. if listed_file (listing_of host w0) (d @ [''go.mod'']) then [go_command g (environ_path host w0) d] else [])
             (GO_DIRS repo))) (sees host repo C w0)"
        unfolding env by (intro executes_for_each go_executes assms Some)
    qed
    then show ?thesis unfolding go Some concat_wanted by (simp add: Let_def)
  qed
qed

text \<open>
  C40: When every planned command, on the machines that running planned commands leads to, starts and ends with a return code,
  and those outside \<open>code-snippets\<close> leave the files, programs and search path the script looks at alone, the script finishes, has
  run exactly the planned commands in order (the pytest directories that exist, the Go modules if Go is installed, the
  snippet tests if npm is, after an installation when there is none), returns the code of the last command that failed, and
  its exit status is 0 exactly when every command returned 0.
\<close>

theorem unit_tests_run_plan:
  assumes "processes_return host (set (planned host repo python (machine s))) (machine s)"
    and "tests_keep_view host repo (set (planned host repo python (machine s))) (machine s)" and "ran s = []"
  shows "\<exists>c s'. run_tests host repo python s = (Inr c, s')
    \<and> map fst (ran s') = planned host repo python (machine s)
    \<and> c = last_failure (map snd (ran s')) 0
    \<and> (exit_status c = 0 \<longleftrightarrow> (\<forall>(cmd, r) \<in> set (ran s'). r = 0))"
proof -
  let ?w = "machine s"
  let ?tree = "listing_of host ?w"
  define C where "C = set (planned host repo python ?w)"
  have laws: "processes_return host C ?w" "tests_keep_view host repo C ?w" using assms(1,2) by (simp_all add: C_def)
  have wanted: "d \<in> set (PYTEST_DIRS repo) \<Longrightarrow> pytest_wanted ?tree d \<Longrightarrow> pytest_command python d \<in> C"
    "go_bin host ?w = Some go \<Longrightarrow> d \<in> set (GO_DIRS repo) \<Longrightarrow> listed_file ?tree (d @ [''go.mod''])
      \<Longrightarrow> go_command go (environ_path host ?w) d \<in> C"
    "set (npm_commands ?tree (which host ?w ''npm'') (repo @ [''code-snippets''])) \<subseteq> C" for d go
    by (auto simp: C_def planned_def Let_def)
  have "executes (sees host repo C ?w) (for_each (PYTEST_DIRS repo) (pytest_in host python) 0) 0
      (concat (map (\<lambda>d. if pytest_wanted ?tree d then [pytest_command python d] else []) (PYTEST_DIRS repo))) (sees host repo C ?w)"
    by (intro executes_for_each pytest_executes laws wanted(1))
  note all = executes_bind [OF this executes_bind [OF go_phase_executes [OF laws wanted(2)] snippet_executes [OF laws(1) wanted(3)]]]
  have "executes (sees host repo C ?w) (run_tests host repo python) 0 (planned host repo python ?w) (arrived host C ?w)"
    using all by (simp add: run_tests_def planned_def Let_def concat_wanted bind_assoc)
  moreover have "sees host repo C ?w s" by (simp add: sees_def same_view_def arrived_def met.start)
  ultimately obtain s' codes where run: "run_tests host repo python s = (Inr (last_failure codes 0), s')"
      "ran s' = ran s @ zip (planned host repo python ?w) codes" "length codes = length (planned host repo python ?w)"
      "\<forall>c \<in> set codes. -256 < c \<and> c < 256"
    by (rule executesE)
  then have parts: "map fst (ran s') = planned host repo python ?w" "map snd (ran s') = codes" using assms(3) by simp_all
  have "exit_status (last_failure codes 0) = 0 \<longleftrightarrow> (\<forall>c \<in> set codes. c = 0)"
    using exit_status_zero last_failure_range [OF run(4), of 0] last_failure_zero [of codes 0] by auto
  also have "\<dots> \<longleftrightarrow> (\<forall>(cmd, r) \<in> set (ran s'). r = 0)" unfolding parts(2) [symmetric] by force
  finally show ?thesis using run(1) parts by auto
qed

section \<open>A concrete machine\<close>

text \<open>One test directory and the snippets; pytest returns 0, \<open>npm\<close> 1.  The machine counts the processes.\<close>

definition demo_repo :: listing where
  "demo_repo = [([''r'', ''scripts'', ''tests''], Directory), ([''r'', ''scripts'', ''tests'', ''test_a.py''], RegularFile),
     ([''r'', ''code-snippets'', ''package.json''], RegularFile)]"

definition demo_host :: "nat host" where
  "demo_host =
     \<lparr>listing_of = (\<lambda>_. demo_repo), which = (\<lambda>_ program. if program = ''npm'' then Some ''npm'' else None), environ_path = (\<lambda>_. None),
      run_process = (\<lambda>cmd n. (Inr (if hd (argv cmd) = ''npm'' then 1 else 0), Suc n))\<rparr>"

lemma demo_host_laws: "processes_return demo_host C w" "tests_keep_view demo_host [''r''] C w"
  by (auto simp: processes_return_def tests_keep_view_def demo_host_def same_view_def go_bin_def)

lemma demo_has_tests: "has_tests demo_repo [''r'', ''scripts'', ''tests'']"
  by (simp add: has_tests_def rglob_def glob_def demo_repo_def strict_prefix_def)

lemma demo_planned:
  "planned demo_host [''r''] ''python3'' 0 =
     [pytest_command ''python3'' [''r'', ''scripts'', ''tests''],
      \<lparr>argv = [''npm'', ''ci''], cwd = [''r'', ''code-snippets''], search_path = None\<rparr>,
      \<lparr>argv = [''npm'', ''test''], cwd = [''r'', ''code-snippets''], search_path = None\<rparr>]"
proof -
  have "filter (pytest_wanted demo_repo) (PYTEST_DIRS [''r'']) = [[''r'', ''scripts'', ''tests'']]"
    using demo_has_tests by (simp add: PYTEST_DIRS_def pytest_wanted_def listed_dir_def) (simp add: demo_repo_def)
  moreover have "go_bin demo_host 0 = None"
    by (simp add: go_bin_def demo_host_def demo_repo_def listed_file_def)
  ultimately show ?thesis
    by (simp add: planned_def demo_host_def npm_commands_def listed_file_def listed_dir_def) (simp add: demo_repo_def)
qed

theorem unit_tests_run_plan_witness:
  "\<exists>c s'. run_tests demo_host [''r''] ''python3'' \<lparr>machine = 0, printed = [], ran = []\<rparr> = (Inr c, s')
     \<and> length (ran s') = 3 \<and> c = last_failure (map snd (ran s')) 0"
proof -
  obtain c s' where run: "run_tests demo_host [''r''] ''python3'' \<lparr>machine = 0, printed = [], ran = []\<rparr> = (Inr c, s')"
      "map fst (ran s') = planned demo_host [''r''] ''python3'' 0" "c = last_failure (map snd (ran s')) 0"
    using unit_tests_run_plan [where s = "\<lparr>machine = 0, printed = [], ran = []\<rparr>" and python = "''python3''", OF demo_host_laws] by auto
  have "length (map fst (ran s')) = 3" unfolding run(2) demo_planned by simp
  then have "length (ran s') = 3" by simp
  then show ?thesis using run by blast
qed

end
