(* ===== verification/Spec2Isabelle.thy ===== *)
theory Spec2Isabelle
  imports Doc_Api Lead_Api Error_Taxonomy Review_System Mock_Schema Service_Main Workflow_Pipeline Lint_Rules Unit_Tests Patterns
begin

text \<open>
  Verification of the Python code of the repository: two project backends, two platform services, a shared library and
  the scripts that keep the workflow exports in order.

  \<^bold>\<open>The program and how its parts meet.\<close>  The document service (p02) takes an upload, stores its bytes under their hash
  and its metadata in a table, posts a webhook for a new document, and checks extracted invoice fields.  The lead
  backend (p01) normalizes and scores a lead.  review-ui lets a person decide an item of the review queue: the
  decision, an audit row and a signed POST to the receiver workflow.  mock-llm stands for the model in local stacks.  The
  error library classifies failures and computes retry delays.  The scripts sanitize workflow exports, copy code snippets
  into them, lint them, and run the unit tests.

  \<^bold>\<open>Python.\<close>
  \<^item> \<open>Py_Prelude\<close>: results and exceptions (\<open>py_error + 'a\<close>, \<open>rbind\<close>, \<open>rmap\<close>), characters and string methods on Latin-1,
    decimal text, \<open>int()\<close>, and the collections of rewrite rules.
  \<^item> \<open>Py_Decimal\<close>: \<open>decimal\<close> with 28 digits, half-even rounding, the exponent limits and \<open>Overflow\<close>.  \<open>Py_Value\<close>: untyped values, \<open>str\<close>, \<open>repr\<close>, truth.
    \<open>Py_Path\<close>: paths and a file system.  \<open>Py_Regex\<close>: regular expressions, an executable
    matcher in the order of Python's backtracking, with a reference semantics.  \<open>Py_Match\<close>: match objects with groups for
    \<open>match\<close>, \<open>fullmatch\<close> and \<open>search\<close>, exact for word boundaries and anchors.
  \<^item> \<open>Py_Json\<close>: \<open>json.dumps\<close>; \<open>Json_Loads\<close>: \<open>json.loads\<close>; \<open>Json_Round\<close>: what was written indented is read back with sorted keys.
    \<open>Py_Address\<close>: places in a JSON value, the strings at them and copies without some entries, as relations that the
    specifications of the scripts use in place of the scripts' own functions.
  \<^item> \<open>Checksum\<close>: weighted sums and remainders, shared by the validators.  \<open>Http\<close>: exceptions of handlers, \<open>compare_digest\<close>.

  \<^bold>\<open>Document service\<close> (\<open>src/projects/p02-document-intelligence/backend\<close>).
  \<^item> \<open>Business_Id\<close>, \<open>Iban\<close>, \<open>Reference\<close>, \<open>Dates\<close>, \<open>Vat\<close>: \<open>validators/*.py\<close>, one function per rule, with what each accepts, when it
    raises, and which typing errors it detects.  \<open>P02_Config\<close>: \<open>config.py\<close> over the parsed YAML.
  \<^item> \<open>Documents\<close>: \<open>documents.py\<close>, both repositories as refinements of a store in which the first put wins.  \<open>P02_Storage\<close>:
    \<open>storage.py\<close>, both stores behind the locale \<open>content_store\<close>; no path leads out of the volume.  \<open>Magic\<close>: \<open>magic.py\<close>, \<open>intake.py\<close>.
  \<^item> \<open>Doc_Service\<close>: the handlers of \<open>main.py\<close> over any store and repository (locale \<open>document_service\<close>), whose laws both
    deployments satisfy; they answer a history alike, documents are always served, the webhook is posted once per document,
    for distinct identifiers, names without NUL and no digest shared by two contents of the history.
    \<open>Doc_Api\<close>: reading the upload, the checks before it is stored and what is then stored, start-up, the validation endpoint.

  \<^bold>\<open>Lead backend\<close> (\<open>src/projects/p01-lead-qualification/backend\<close>).
  \<^item> \<open>Normalize\<close>: \<open>normalize.py\<close>.  \<open>Score\<close>: \<open>score.py\<close> over any configuration; \<open>Score_Shipped\<close>: with the shipped configuration the
    scorer equals a reference table, and the influence of the model is bounded.  \<open>Lead_Api\<close>: \<open>main.py\<close>, \<open>config.py\<close>.

  \<^bold>\<open>Platform\<close> (\<open>src/platform\<close>, \<open>src/scripts\<close>).
  \<^item> \<open>Error_Taxonomy\<close>: \<open>libs/python/errors.py\<close>, the class of every error, against a specification of where an error says its
    status and what its text is, and the bounds of the delay.
  \<^item> \<open>Review_Signing\<close>: \<open>signing.py\<close>, \<open>auth.py\<close>, \<open>config.py\<close>.  \<open>Review_Queue\<close>: \<open>decisions.py\<close>, \<open>db.py\<close>, each SQL statement a function on
    the tables, with the places where the connection can fail.  \<open>Review_App\<close>: \<open>app.py\<close>, \<open>receiver.py\<close>.  \<open>Review_System\<close>: the
    handlers as a step relation in which calls interleave, the database fails and the process dies; the invariant of every
    reachable state is that each decision is audited exactly once and posted at most once.
  \<^item> \<open>Mock_Llm\<close>: \<open>mock_llm/main.py\<close>.  \<open>Mock_Schema\<close>: JSON Schema validity, that structured output satisfies its schema, and
    the exact response of every mode.
    \<open>Service_Main\<close>: log formatters and entry points of the services; a log line is printable and cannot be forged.
  \<^item> \<open>Sanitize\<close>, \<open>Sync_Snippets\<close>, \<open>Lint\<close>: the three workflow scripts, over a map of text files and a listing (\<open>Py_Files\<close>).  The
    first two share a loop over their targets, the locale \<open>file_loop\<close> of \<open>File_Runs\<close>, interpreted on both: order and
    repetition of the targets do not matter and a second run changes nothing.  The sanitizer refuses exactly the exports with
    a secret in a value; a secret in a key passes.  \<open>Lint_Rules\<close>: the linter's exit code against a specification of its
    rules that uses none of the linter's functions.  \<open>Workflow_Pipeline\<close>: files
    that were sanitized and synchronized are a fixed point of both scripts and pass the linter's rules on pinned data,
    secrets and snippets.
  \<^item> \<open>Unit_Tests\<close>: \<open>run_unit_tests.py\<close> over an abstract machine that runs processes; if the planned commands start, return and
    leave what the script looks at alone, it runs exactly those and its exit status is 0 exactly when all returned 0.
  \<^item> \<open>Patterns\<close>: the regular expressions with groups of the validators, the error library and the scripts, as the sources write
    them; the functions that read their groups elsewhere return exactly what the matcher returns.

  \<^bold>\<open>Parameters.\<close>  Code outside the repository is an argument: hashes and HMAC, the clock, random ids, the HTTP client, the
  database's failures and text order, the email and phone libraries, \<open>repr(float(text))\<close>, the paths that
  cannot be written, the processes the test script starts.  Theorems that rely on such an
  argument state what they need of it (that the bodies or contents at hand do not collide, that digests are hexadecimal, that
  \<open>repr\<close> of a float is its own \<open>repr\<close>), and their witnesses instantiate it.

  \<^bold>\<open>Bounds.\<close>  Strings range over Latin-1: digits, letters and spaces beyond it that \<open>str.isdigit\<close>, \<open>int()\<close> and the patterns
  also take are absent, so every statement about texts is one about Latin-1 texts.  No model uses fuel: the recursions end structurally or by a measure, and the
  tests on lengths in \<open>Json_Loads\<close> are shown to hold always.  Decimals have Python's precision and exponent limits; floats
  appear as the text of their \<open>repr\<close>, an integer converted to a float being rounded to 53 bits, or as exact rationals where
  the code compares them.

  \<^bold>\<open>Not modelled.\<close>  The Go services, the SQL migrations, the workflow exports and JavaScript snippets are not Python.  Templates,
  pydantic's request parsing, the set-up of logging and argument parsing are calls of packages; the scripts' \<open>main\<close> functions
  take the parsed arguments.  The messages of the scripts on standard error carry texts of exceptions and are left
  out, except those of the linter.  A write that fails half way (a full disk) is not modelled.  The \<open>__init__\<close> modules only
  re-export names.  Tests are not modelled.
\<close>

end
